(* ===== verification/Klite_Prelude.thy ===== *)
theory Klite_Prelude
  imports
    Main
    "HOL-Library.Word"
    "HOL-Library.Finite_Map"
    "HOL-Library.Char_ord"
    "HOL-Library.List_Lexorder"
    "HOL-Library.Multiset"
begin

text \<open>
  Shared vocabulary of the development: the fixed-width integers of Go with their
  wrap-around, the functions of Go's \<open>strings\<close> and \<open>slices\<close> packages the sources call,
  nil-able message pointers, and the generic facts about lists, finite maps and ordered
  keys the component theories use. Go strings are byte strings, ordered bytewise: they are
  Isabelle \<open>string\<close>s under the lexicographic order of \<open>List_Lexorder\<close>. A Go map that the
  code iterates or compares is a finite map \<open>('k, 'v) fmap\<close>, iterated in sorted key order
  where the code sorts the keys.
\<close>

named_theorems klite_defs \<open>definitions that proofs of the development unfold as a group\<close>
named_theorems klite_splits \<open>case rules for the error-returning operations\<close>

subsection \<open>Fixed-width integers\<close>

definition wrap32 :: "int \<Rightarrow> int" where
  "wrap32 x = (x + 2 ^ 31) mod 2 ^ 32 - 2 ^ 31"

definition wrap64 :: "int \<Rightarrow> int" where
  "wrap64 x = (x + 2 ^ 63) mod 2 ^ 64 - 2 ^ 63"

definition is_int32 :: "int \<Rightarrow> bool" where
  "is_int32 x \<longleftrightarrow> - (2 ^ 31) \<le> x \<and> x < 2 ^ 31"

definition is_int64 :: "int \<Rightarrow> bool" where
  "is_int64 x \<longleftrightarrow> - (2 ^ 63) \<le> x \<and> x < 2 ^ 63"

lemma wrap32_id [simp]: "is_int32 x \<Longrightarrow> wrap32 x = x"
  by (simp add: wrap32_def is_int32_def)

lemma wrap64_id [simp]: "is_int64 x \<Longrightarrow> wrap64 x = x"
  by (simp add: wrap64_def is_int64_def)

lemma wrap32_int32 [simp]: "is_int32 (wrap32 x)"
  using pos_mod_bound [of "2 ^ 32" "x + 2 ^ 31"] pos_mod_sign [of "2 ^ 32" "x + 2 ^ 31"]
  by (simp add: wrap32_def is_int32_def)

lemma wrap32_signed_word: "wrap32 x = sint (word_of_int x :: 32 word)"
  by (simp add: wrap32_def int_word_sint)

subsection \<open>Message pointers\<close>

text \<open>
  A nil-able message field is an \<open>option\<close>. The generated \<open>GetX()\<close> accessors answer the zero
  message on nil, which is \<open>getm\<close> at the message type's zero.
\<close>

definition getm :: "'a \<Rightarrow> 'a option \<Rightarrow> 'a" where
  "getm z x = (case x of None \<Rightarrow> z | Some y \<Rightarrow> y)"

lemma getm_simps [simp]: "getm z None = z" "getm z (Some y) = y"
  by (simp_all add: getm_def)

text \<open>
  \<open>if err := a; err != nil { return err }; return b\<close> for checks that report an optional error.
\<close>

definition err_then :: "'e option \<Rightarrow> 'e option \<Rightarrow> 'e option" where
  "err_then a b = (case a of Some e \<Rightarrow> Some e | None \<Rightarrow> b)"

lemma err_then_simps [simp]: "err_then None b = b" "err_then (Some e) b = Some e"
  by (simp_all add: err_then_def)

lemma err_then_None_iff [simp]: "err_then a b = None \<longleftrightarrow> a = None \<and> b = None"
  by (cases a) simp_all

subsection \<open>Strings\<close>

fun HasPrefix :: "string \<Rightarrow> string \<Rightarrow> bool" where
  "HasPrefix s [] = True"
| "HasPrefix [] (_ # _) = False"
| "HasPrefix (c # s) (d # p) = (c = d \<and> HasPrefix s p)"

definition CutPrefix :: "string \<Rightarrow> string \<Rightarrow> string option" where
  "CutPrefix s p = (if HasPrefix s p then Some (drop (length p) s) else None)"

definition CutSuffix :: "string \<Rightarrow> string \<Rightarrow> string option" where
  "CutSuffix s p = map_option rev (CutPrefix (rev s) (rev p))"

text \<open>\<open>strings.Cut\<close>: the text before and after the first occurrence of the separator.\<close>

fun Cut :: "string \<Rightarrow> string \<Rightarrow> (string \<times> string) option" where
  "Cut [] sep = (if sep = [] then Some ([], []) else None)"
| "Cut (c # s) sep =
     (if HasPrefix (c # s) sep then Some ([], drop (length sep) (c # s))
      else map_option (\<lambda>(a, b). (c # a, b)) (Cut s sep))"

definition ContainsStr :: "string \<Rightarrow> string \<Rightarrow> bool" where
  "ContainsStr s sub = (Cut s sub \<noteq> None)"

lemma HasPrefix_iff: "HasPrefix s p \<longleftrightarrow> (\<exists>t. s = p @ t)"
  by (induction s p rule: HasPrefix.induct) auto

lemma HasPrefix_append [simp]: "HasPrefix (p @ t) p"
  by (auto simp: HasPrefix_iff)

lemma CutPrefix_append [simp]: "CutPrefix (p @ t) p = Some t"
  by (simp add: CutPrefix_def)

lemma CutPrefix_Some_iff: "CutPrefix s p = Some t \<longleftrightarrow> s = p @ t"
  by (auto simp: CutPrefix_def HasPrefix_iff)

lemma CutSuffix_Some_iff: "CutSuffix s p = Some t \<longleftrightarrow> s = t @ p"
proof -
  have "CutSuffix s p = Some t \<longleftrightarrow> (\<exists>u. rev s = rev p @ u \<and> t = rev u)"
    by (auto simp: CutSuffix_def CutPrefix_Some_iff)
  also have "\<dots> \<longleftrightarrow> s = t @ p"
    by (metis rev_append rev_rev_ident)
  finally show ?thesis .
qed

lemma Cut_SomeD: "Cut s sep = Some (a, b) \<Longrightarrow> s = a @ sep @ b"
proof (induction s sep arbitrary: a b rule: Cut.induct)
  case (1 sep)
  then show ?case by (auto split: if_splits)
next
  case (2 c s sep)
  then show ?case
    by (cases "HasPrefix (c # s) sep") (auto simp: HasPrefix_iff)
qed

lemma Cut_first:
  assumes "d \<notin> set a"
  shows "Cut (a @ (d # sep) @ b) (d # sep) = Some (a, b)"
  using assms by (induction a) auto

lemma ContainsStr_char: "ContainsStr s [c] \<longleftrightarrow> c \<in> set s"
proof -
  have "Cut s [c] = None \<longleftrightarrow> c \<notin> set s"
    by (induction s) auto
  then show ?thesis by (simp add: ContainsStr_def)
qed

text \<open>\<open>strings.ToLower\<close> on ASCII text.\<close>

definition lower_char :: "char \<Rightarrow> char" where
  "lower_char c =
     (if CHR ''A'' \<le> c \<and> c \<le> CHR ''Z'' then char_of (of_char c + 32 :: nat) else c)"

definition ToLower :: "string \<Rightarrow> string" where
  "ToLower s = map lower_char s"

text \<open>Decimal (\<open>%d\<close>) and hexadecimal (\<open>%x\<close>) rendering of non-negative numbers.\<close>

definition digit_char :: "nat \<Rightarrow> char" where
  "digit_char d = char_of (if d < 10 then 48 + d else 87 + d)"

fun digits_base :: "nat \<Rightarrow> nat \<Rightarrow> string" where
  "digits_base b n =
     (if b \<le> 1 \<or> n < b then [digit_char n]
      else digits_base b (n div b) @ [digit_char (n mod b)])"

declare digits_base.simps [simp del]

definition itoa :: "nat \<Rightarrow> string" where
  "itoa n = digits_base 10 n"

definition itoa_int :: "int \<Rightarrow> string" where
  "itoa_int i = (if i < 0 then CHR ''-'' # itoa (nat (- i)) else itoa (nat i))"

definition hex_string :: "nat \<Rightarrow> string" where
  "hex_string n = digits_base 16 n"

lemma digit_char_inj:
  assumes "digit_char d = digit_char e" "d < 36" "e < 36"
  shows "d = e"
proof -
  have "(of_char (digit_char d) :: nat) = of_char (digit_char e)"
    using assms(1) by simp
  with assms(2,3) show ?thesis
    by (auto simp: digit_char_def split: if_splits)
qed

lemma digits_base_nonempty [simp]: "digits_base b n \<noteq> []"
  by (subst digits_base.simps) simp

lemma digits_base_nonempty' [simp]: "[] \<noteq> digits_base b n"
  by (metis digits_base_nonempty)

lemma digits_base_small: "n < b \<Longrightarrow> digits_base b n = [digit_char n]"
  by (subst digits_base.simps) simp

lemma digits_base_big:
  "1 < b \<Longrightarrow> b \<le> n \<Longrightarrow> digits_base b n = digits_base b (n div b) @ [digit_char (n mod b)]"
  by (subst digits_base.simps) simp

lemma digits_base_inj:
  assumes b: "1 < b" "b \<le> 36"
  shows "digits_base b m = digits_base b n \<Longrightarrow> m = n"
proof (induction m arbitrary: n rule: less_induct)
  case (less m n)
  have mod36: "k mod b < 36" for k
    using b mod_less_divisor [of b k] by linarith
  show ?case
  proof (cases "m < b \<or> n < b")
    case True
    with less.prems b show ?thesis
      by (cases "m < b"; cases "n < b")
        (auto simp: digits_base_small digits_base_big dest: digit_char_inj)
  next
    case False
    with less.prems b have "digits_base b (m div b) = digits_base b (n div b)"
      and "digit_char (m mod b) = digit_char (n mod b)"
      by (simp_all add: digits_base_big)
    moreover from False b have "m div b < m" by (intro div_less_dividend) auto
    ultimately have "m div b = n div b" and "m mod b = n mod b"
      using less.IH digit_char_inj [OF _ mod36 mod36] by blast+
    then show ?thesis by (metis div_mult_mod_eq)
  qed
qed

lemma itoa_inj: "itoa m = itoa n \<Longrightarrow> m = n"
  unfolding itoa_def by (rule digits_base_inj) simp_all

lemma digit_char_range: "d < 10 \<Longrightarrow> CHR ''0'' \<le> digit_char d \<and> digit_char d \<le> CHR ''9''"
  by (simp add: digit_char_def less_eq_char_def)

lemma itoa_digits: "c \<in> set (itoa n) \<Longrightarrow> CHR ''0'' \<le> c \<and> c \<le> CHR ''9''"
proof (induction n rule: less_induct)
  case (less n)
  show ?case
  proof (cases "n < 10")
    case True
    with less.prems show ?thesis
      by (simp add: itoa_def digits_base_small digit_char_range)
  next
    case False
    with less.prems have "c \<in> set (itoa (n div 10)) \<or> c = digit_char (n mod 10)"
      by (auto simp: itoa_def digits_base_big)
    with False less.IH [of "n div 10"] show ?thesis
      by (auto simp: digit_char_range)
  qed
qed

text \<open>A separator splits a text at its first occurrence in one way only.\<close>

lemma sep_inj:
  assumes "a @ c # b = a' @ c # b'" and "c \<notin> set a" and "c \<notin> set a'"
  shows "a = a' \<and> b = b'"
  using assms
proof (induction a arbitrary: a')
  case Nil
  then show ?case by (cases a') auto
next
  case (Cons x a)
  then show ?case by (cases a') auto
qed

subsection \<open>Lists and ordered keys\<close>

text \<open>\<open>slices.Sorted(maps.Keys(m))\<close> of a finite map.\<close>

definition sorted_keys :: "('k::linorder, 'v) fmap \<Rightarrow> 'k list" where
  "sorted_keys m = sorted_list_of_fset (fmdom m)"

lemma set_sorted_keys [simp]: "set (sorted_keys m) = fmdom' m"
  by (simp add: sorted_keys_def fmdom'_alt_def)

lemma sorted_sorted_keys [simp]: "sorted (sorted_keys m)"
  by (simp add: sorted_keys_def sorted_list_of_fset.rep_eq)

lemma distinct_sorted_keys [simp]: "distinct (sorted_keys m)"
  by (simp add: sorted_keys_def sorted_list_of_fset.rep_eq)

lemma sorted_keys_fmempty [simp]: "sorted_keys fmempty = []"
  by (simp add: sorted_keys_def sorted_list_of_fset.rep_eq)

lemma sorted_keys_fmupd:
  "sorted_keys (fmupd k v m) = insort k (remove1 k (sorted_keys m))"
  by (simp add: sorted_keys_def sorted_list_of_fset.rep_eq sorted_list_of_set_insert_remove
      sorted_list_of_set_remove)

lemma Ball_fmdom':
  "(\<forall>k \<in> fmdom' m. P k (fmlookup m k)) \<longleftrightarrow> (\<forall>k v. fmlookup m k = Some v \<longrightarrow> P k (Some v))"
  by (metis fmdom'_notD fmdom'_notI not_None_eq option.distinct(1))

lemma strict_sorted_eqI:
  fixes xs ys :: "'a::linorder list"
  assumes "sorted xs" "distinct xs" "sorted ys" "distinct ys" "set xs = set ys"
  shows "xs = ys"
  using assms by (metis sorted_distinct_set_unique)

lemma find_None_filter: "List.find P xs = None \<longleftrightarrow> filter P xs = []"
  by (auto simp: find_None_iff filter_empty_conv)

lemma length_filter_split:
  "length (filter P xs) + length (filter (\<lambda>x. \<not> P x) xs) = length xs"
  by (rule sum_length_filter_compl)

lemma length_filter_mono:
  "(\<And>x. x \<in> set xs \<Longrightarrow> P x \<Longrightarrow> Q x) \<Longrightarrow> length (filter P xs) \<le> length (filter Q xs)"
  by (induction xs) auto

text \<open>Looking a value up by a key that occurs at most once.\<close>

lemma find_key_None: "n \<notin> f ` set xs \<Longrightarrow> List.find (\<lambda>y. f y = n) xs = None"
  by (induction xs) auto

lemma find_key_unique:
  assumes "distinct (map f xs)" and "x \<in> set xs"
  shows "List.find (\<lambda>y. f y = f x) (rev xs) = Some x" and "List.find (\<lambda>y. f y = f x) xs = Some x"
proof -
  have *: "List.find (\<lambda>y. f y = f x) ys = Some x" if "distinct (map f ys)" "x \<in> set ys" for ys
    using that by (induction ys) (auto simp: rev_image_eqI)
  show "List.find (\<lambda>y. f y = f x) (rev xs) = Some x" by (rule *) (use assms in \<open>simp_all add: rev_map [symmetric]\<close>)
  show "List.find (\<lambda>y. f y = f x) xs = Some x" by (rule *) (use assms in simp_all)
qed

end
