(* ===== verification/Klite_Types.thy ===== *)
theory Klite_Types
  imports Klite_Prelude
begin

text \<open>
  The message types of \<open>src/internal/gen/klitev1\<close> the control plane and the agents exchange:
  one record per message with the message's fields, one datatype per enum, the \<open>Object\<close>
  envelope as a datatype with one constructor per kind. A message-typed field is an \<open>option\<close>
  (a nil-able pointer), a repeated field a list, a \<open>map<string, string>\<close> a finite map. With
  that representation HOL equality is \<open>proto.Equal\<close>: unset and empty sub-messages differ,
  nil and empty maps do not. \<open>zero_T\<close> is the zero message the accessors answer on nil.
\<close>

subsection \<open>Meta and the container template\<close>

record Meta =
  m_name :: string
  m_labels :: "(string, string) fmap"
  m_uid :: string
  m_resourceVersion :: int
  m_createdUnix :: int

definition zero_Meta :: Meta where
  "zero_Meta = \<lparr>m_name = [], m_labels = fmempty, m_uid = [], m_resourceVersion = 0,
     m_createdUnix = 0\<rparr>"

record EnvVar =
  ev_name :: string
  ev_value :: string

record Port =
  containerPort :: int

record Resources =
  r_cpus :: string
  r_memory :: string

record ReadinessProbe =
  tcpPort :: int

record Container =
  c_name :: string
  c_image :: string
  c_command :: "string list"
  c_args :: "string list"
  c_env :: "EnvVar list"
  c_ports :: "Port list"
  c_resources :: "Resources option"
  c_readinessProbe :: "ReadinessProbe option"

definition zero_Container :: Container where
  "zero_Container = \<lparr>c_name = [], c_image = [], c_command = [], c_args = [], c_env = [],
     c_ports = [], c_resources = None, c_readinessProbe = None\<rparr>"

record Template =
  t_labels :: "(string, string) fmap"
  t_containers :: "Container list"

definition zero_Template :: Template where
  "zero_Template = \<lparr>t_labels = fmempty, t_containers = []\<rparr>"

record DrainSpec =
  drainTimeoutSeconds :: int
  terminationGraceSeconds :: int

definition zero_DrainSpec :: DrainSpec where
  "zero_DrainSpec = \<lparr>drainTimeoutSeconds = 0, terminationGraceSeconds = 0\<rparr>"

subsection \<open>Workload and Service\<close>

record WorkloadSpec =
  ws_replicas :: int
  ws_nodeName :: string
  ws_template :: "Template option"
  ws_drain :: "DrainSpec option"

definition zero_WorkloadSpec :: WorkloadSpec where
  "zero_WorkloadSpec = \<lparr>ws_replicas = 0, ws_nodeName = [], ws_template = None, ws_drain = None\<rparr>"

record WorkloadStatus =
  wst_readyInstances :: int
  wst_totalInstances :: int
  wst_templateHash :: string

record Workload =
  w_meta :: "Meta option"
  w_spec :: "WorkloadSpec option"
  w_status :: "WorkloadStatus option"

definition zero_Workload :: Workload where
  "zero_Workload = \<lparr>w_meta = None, w_spec = None, w_status = None\<rparr>"

record ServiceSpec =
  ss_selector :: "(string, string) fmap"
  ss_port :: int
  ss_targetPort :: int

definition zero_ServiceSpec :: ServiceSpec where
  "zero_ServiceSpec = \<lparr>ss_selector = fmempty, ss_port = 0, ss_targetPort = 0\<rparr>"

record Service =
  s_meta :: "Meta option"
  s_spec :: "ServiceSpec option"

definition zero_Service :: Service where
  "zero_Service = \<lparr>s_meta = None, s_spec = None\<rparr>"

subsection \<open>Node\<close>

record NodeSpec =
  ns_maxInstances :: int

definition zero_NodeSpec :: NodeSpec where
  "zero_NodeSpec = \<lparr>ns_maxInstances = 0\<rparr>"

datatype NodePhase =
  NODE_PHASE_UNSPECIFIED | NODE_PHASE_READY | NODE_PHASE_NOT_READY | NODE_PHASE_DRAINING

record NodeStatus =
  nst_phase :: NodePhase
  nst_unschedulable :: bool
  nst_lastHeartbeatUnix :: int
  nst_nodeIndex :: int
  nst_instanceCount :: int
  nst_advertiseAddress :: string

definition zero_NodeStatus :: NodeStatus where
  "zero_NodeStatus = \<lparr>nst_phase = NODE_PHASE_UNSPECIFIED, nst_unschedulable = False,
     nst_lastHeartbeatUnix = 0, nst_nodeIndex = 0, nst_instanceCount = 0,
     nst_advertiseAddress = []\<rparr>"

record Node =
  n_meta :: "Meta option"
  n_spec :: "NodeSpec option"
  n_status :: "NodeStatus option"

definition zero_Node :: Node where
  "zero_Node = \<lparr>n_meta = None, n_spec = None, n_status = None\<rparr>"

subsection \<open>NetworkPolicy\<close>

datatype PolicyAction = POLICY_ACTION_UNSPECIFIED | POLICY_ACTION_ALLOW | POLICY_ACTION_DENY

record PolicyRule =
  pr_from :: string
  pr_to :: string
  pr_except :: "string list"

record NetworkPolicySpec =
  ps_action :: PolicyAction
  ps_rules :: "PolicyRule list"

definition zero_NetworkPolicySpec :: NetworkPolicySpec where
  "zero_NetworkPolicySpec = \<lparr>ps_action = POLICY_ACTION_UNSPECIFIED, ps_rules = []\<rparr>"

record NetworkPolicy =
  p_meta :: "Meta option"
  p_spec :: "NetworkPolicySpec option"

definition zero_NetworkPolicy :: NetworkPolicy where
  "zero_NetworkPolicy = \<lparr>p_meta = None, p_spec = None\<rparr>"

subsection \<open>Instance\<close>

datatype InstancePhase =
  INSTANCE_PHASE_UNSPECIFIED | INSTANCE_PHASE_PENDING | INSTANCE_PHASE_RUNNING
| INSTANCE_PHASE_READY | INSTANCE_PHASE_DRAINING | INSTANCE_PHASE_FAILED
| INSTANCE_PHASE_TERMINATING

record InstanceSpec =
  is_workload :: string
  is_node :: string
  is_container :: "Container option"
  is_templateHash :: string
  is_drain :: "DrainSpec option"

definition zero_InstanceSpec :: InstanceSpec where
  "zero_InstanceSpec = \<lparr>is_workload = [], is_node = [], is_container = None,
     is_templateHash = [], is_drain = None\<rparr>"

record InstanceStatus =
  ist_phase :: InstancePhase
  ist_restarts :: int
  ist_instanceIp :: string
  ist_containerId :: string
  ist_message :: string

definition zero_InstanceStatus :: InstanceStatus where
  "zero_InstanceStatus = \<lparr>ist_phase = INSTANCE_PHASE_UNSPECIFIED, ist_restarts = 0,
     ist_instanceIp = [], ist_containerId = [], ist_message = []\<rparr>"

record Instance =
  i_meta :: "Meta option"
  i_spec :: "InstanceSpec option"
  i_status :: "InstanceStatus option"

definition zero_Instance :: Instance where
  "zero_Instance = \<lparr>i_meta = None, i_spec = None, i_status = None\<rparr>"

subsection \<open>Allocations\<close>

record VIPAllocationSpec =
  vs_service :: string
  vs_node :: string
  vs_vip :: string

definition zero_VIPAllocationSpec :: VIPAllocationSpec where
  "zero_VIPAllocationSpec = \<lparr>vs_service = [], vs_node = [], vs_vip = []\<rparr>"

record VIPAllocation =
  va_meta :: "Meta option"
  va_spec :: "VIPAllocationSpec option"

definition zero_VIPAllocation :: VIPAllocation where
  "zero_VIPAllocation = \<lparr>va_meta = None, va_spec = None\<rparr>"

record IngressAllocationSpec =
  ias_service :: string
  ias_instance :: string
  ias_node :: string
  ias_port :: int

definition zero_IngressAllocationSpec :: IngressAllocationSpec where
  "zero_IngressAllocationSpec = \<lparr>ias_service = [], ias_instance = [], ias_node = [], ias_port = 0\<rparr>"

record IngressAllocation =
  ia_meta :: "Meta option"
  ia_spec :: "IngressAllocationSpec option"

definition zero_IngressAllocation :: IngressAllocation where
  "zero_IngressAllocation = \<lparr>ia_meta = None, ia_spec = None\<rparr>"

subsection \<open>The envelope\<close>

datatype Object =
  Object_Workload Workload
| Object_Service Service
| Object_Node Node
| Object_NetworkPolicy NetworkPolicy
| Object_Instance Instance
| Object_VipAllocation VIPAllocation
| Object_IngressAllocation IngressAllocation
| Object_Empty

fun GetWorkload :: "Object \<Rightarrow> Workload" where
  "GetWorkload (Object_Workload w) = w"
| "GetWorkload _ = zero_Workload"

fun GetService :: "Object \<Rightarrow> Service" where
  "GetService (Object_Service s) = s"
| "GetService _ = zero_Service"

fun GetNode :: "Object \<Rightarrow> Node" where
  "GetNode (Object_Node n) = n"
| "GetNode _ = zero_Node"

fun GetNetworkPolicy :: "Object \<Rightarrow> NetworkPolicy" where
  "GetNetworkPolicy (Object_NetworkPolicy p) = p"
| "GetNetworkPolicy _ = zero_NetworkPolicy"

fun GetInstance :: "Object \<Rightarrow> Instance" where
  "GetInstance (Object_Instance i) = i"
| "GetInstance _ = zero_Instance"

fun GetVipAllocation :: "Object \<Rightarrow> VIPAllocation" where
  "GetVipAllocation (Object_VipAllocation a) = a"
| "GetVipAllocation _ = zero_VIPAllocation"

fun GetIngressAllocation :: "Object \<Rightarrow> IngressAllocation" where
  "GetIngressAllocation (Object_IngressAllocation a) = a"
| "GetIngressAllocation _ = zero_IngressAllocation"

subsection \<open>Nil-safe accessors\<close>

text \<open>The chains \<open>x.GetMeta().GetName()\<close>, \<open>x.GetSpec()\<close>, \<open>x.GetStatus()\<close> of the sources.\<close>

abbreviation w_Meta :: "Workload \<Rightarrow> Meta" where "w_Meta w \<equiv> getm zero_Meta (w_meta w)"
abbreviation w_Spec :: "Workload \<Rightarrow> WorkloadSpec" where
  "w_Spec w \<equiv> getm zero_WorkloadSpec (w_spec w)"
abbreviation ws_Template :: "WorkloadSpec \<Rightarrow> Template" where
  "ws_Template s \<equiv> getm zero_Template (ws_template s)"
abbreviation s_Meta :: "Service \<Rightarrow> Meta" where "s_Meta s \<equiv> getm zero_Meta (s_meta s)"
abbreviation s_Spec :: "Service \<Rightarrow> ServiceSpec" where "s_Spec s \<equiv> getm zero_ServiceSpec (s_spec s)"
abbreviation n_Meta :: "Node \<Rightarrow> Meta" where "n_Meta n \<equiv> getm zero_Meta (n_meta n)"
abbreviation n_Spec :: "Node \<Rightarrow> NodeSpec" where "n_Spec n \<equiv> getm zero_NodeSpec (n_spec n)"
abbreviation n_Status :: "Node \<Rightarrow> NodeStatus" where
  "n_Status n \<equiv> getm zero_NodeStatus (n_status n)"
abbreviation p_Meta :: "NetworkPolicy \<Rightarrow> Meta" where "p_Meta p \<equiv> getm zero_Meta (p_meta p)"
abbreviation p_Spec :: "NetworkPolicy \<Rightarrow> NetworkPolicySpec" where
  "p_Spec p \<equiv> getm zero_NetworkPolicySpec (p_spec p)"
abbreviation i_Meta :: "Instance \<Rightarrow> Meta" where "i_Meta i \<equiv> getm zero_Meta (i_meta i)"
abbreviation i_Spec :: "Instance \<Rightarrow> InstanceSpec" where
  "i_Spec i \<equiv> getm zero_InstanceSpec (i_spec i)"
abbreviation i_Status :: "Instance \<Rightarrow> InstanceStatus" where
  "i_Status i \<equiv> getm zero_InstanceStatus (i_status i)"
abbreviation is_Container :: "InstanceSpec \<Rightarrow> Container" where
  "is_Container s \<equiv> getm zero_Container (is_container s)"
abbreviation is_Drain :: "InstanceSpec \<Rightarrow> DrainSpec" where
  "is_Drain s \<equiv> getm zero_DrainSpec (is_drain s)"
abbreviation va_Meta :: "VIPAllocation \<Rightarrow> Meta" where "va_Meta a \<equiv> getm zero_Meta (va_meta a)"
abbreviation va_Spec :: "VIPAllocation \<Rightarrow> VIPAllocationSpec" where
  "va_Spec a \<equiv> getm zero_VIPAllocationSpec (va_spec a)"
abbreviation ia_Meta :: "IngressAllocation \<Rightarrow> Meta" where
  "ia_Meta a \<equiv> getm zero_Meta (ia_meta a)"
abbreviation ia_Spec :: "IngressAllocation \<Rightarrow> IngressAllocationSpec" where
  "ia_Spec a \<equiv> getm zero_IngressAllocationSpec (ia_spec a)"

lemmas zero_defs =
  zero_Meta_def zero_Container_def zero_Template_def zero_DrainSpec_def zero_WorkloadSpec_def
  zero_Workload_def zero_ServiceSpec_def zero_Service_def zero_NodeSpec_def zero_NodeStatus_def
  zero_Node_def zero_NetworkPolicySpec_def zero_NetworkPolicy_def zero_InstanceSpec_def
  zero_InstanceStatus_def zero_Instance_def zero_VIPAllocationSpec_def zero_VIPAllocation_def
  zero_IngressAllocationSpec_def zero_IngressAllocation_def

subsection \<open>Network state pushed to the nodes\<close>

record ServiceVIP =
  sv_service :: string
  sv_vip :: string
  sv_port :: int
  sv_targetPort :: int

datatype EndpointHealth =
  ENDPOINT_HEALTH_UNSPECIFIED | ENDPOINT_HEALTH_READY | ENDPOINT_HEALTH_DRAINING

record Endpoint =
  ep_ip :: string
  ep_port :: int
  ep_node :: string
  ep_health :: EndpointHealth
  ep_ingressPort :: int
  ep_machineAddress :: string

record EndpointGroup =
  eg_service :: string
  eg_endpoints :: "Endpoint list"

record CompiledPolicy =
  cp_action :: PolicyAction
  cp_from :: string
  cp_to :: string
  cp_except :: "string list"
  cp_policyName :: string

record IngressListener =
  il_service :: string
  il_port :: int
  il_podIp :: string
  il_targetPort :: int

record ProbeTarget =
  pt_instance :: string
  pt_ip :: string
  pt_port :: int

record NetDesired =
  nd_services :: "ServiceVIP list"
  nd_endpoints :: "EndpointGroup list"
  nd_ipIdentity :: "(string, string) fmap"
  nd_policies :: "CompiledPolicy list"
  nd_probeTargets :: "ProbeTarget list"
  nd_ingressListeners :: "IngressListener list"

definition empty_NetDesired :: NetDesired where
  "empty_NetDesired = \<lparr>nd_services = [], nd_endpoints = [], nd_ipIdentity = fmempty,
     nd_policies = [], nd_probeTargets = [], nd_ingressListeners = []\<rparr>"

end
