(* ===== verification/Klite_Object.thy ===== *)
theory Klite_Object
  imports Klite_Types
begin

text \<open>
  The object model of \<open>src/internal/object\<close>: the kind registry (\<open>object.go\<close>), defaulting
  (\<open>default.go\<close>), validation (\<open>validate.go\<close>) and template hashing (\<open>hash.go\<close>). Each
  \<open>fmt.Errorf\<close> of the validator is a constructor of \<open>ValidateErr\<close>; \<open>None\<close> is a nil error.
  The lemmas give the registry's round trips, the idempotence of defaulting, and that what the
  validator accepts is exactly the well-formed objects \<open>wf_object\<close> states.
\<close>

subsection \<open>Kinds\<close>

definition KindWorkload :: string where "KindWorkload = ''Workload''"
definition KindService :: string where "KindService = ''Service''"
definition KindNode :: string where "KindNode = ''Node''"
definition KindNetworkPolicy :: string where "KindNetworkPolicy = ''NetworkPolicy''"
definition KindInstance :: string where "KindInstance = ''Instance''"
definition KindVIPAllocation :: string where "KindVIPAllocation = ''VIPAllocation''"
definition KindIngressAllocation :: string where "KindIngressAllocation = ''IngressAllocation''"

lemmas kind_defs = KindWorkload_def KindService_def KindNode_def KindNetworkPolicy_def
  KindInstance_def KindVIPAllocation_def KindIngressAllocation_def

definition Kinds :: "string list" where
  "Kinds = [KindWorkload, KindService, KindNode, KindNetworkPolicy, KindInstance,
     KindVIPAllocation, KindIngressAllocation]"

definition LabelPendingDelete :: string where
  "LabelPendingDelete = ''klite.io/pending-delete''"

definition plurals :: "(string \<times> string) list" where
  "plurals = [(KindWorkload, ''workloads''), (KindService, ''services''), (KindNode, ''nodes''),
     (KindNetworkPolicy, ''networkpolicies''), (KindInstance, ''instances''),
     (KindVIPAllocation, ''vipallocations''), (KindIngressAllocation, ''ingressallocations'')]"

definition Plural :: "string \<Rightarrow> string" where
  "Plural kind = getm [] (map_of plurals kind)"

text \<open>The alias table, built by a loop over \<^const>\<open>Kinds\<close>; a later write to a key wins.\<close>

fun aliases_loop :: "string list \<Rightarrow> (string, string) fmap \<Rightarrow> (string, string) fmap" where
  "aliases_loop [] m = m"
| "aliases_loop (k # ks) m = aliases_loop ks (fmupd (Plural k) k (fmupd (ToLower k) k m))"

definition aliases :: "(string, string) fmap" where
  "aliases = aliases_loop Kinds fmempty"

definition Canonical :: "string \<Rightarrow> string option" where
  "Canonical s = fmlookup aliases (ToLower s)"

definition New :: "string \<Rightarrow> Object option" where
  "New kind =
     (if kind = KindWorkload then Some (Object_Workload zero_Workload)
      else if kind = KindService then Some (Object_Service zero_Service)
      else if kind = KindNode then Some (Object_Node zero_Node)
      else if kind = KindNetworkPolicy then Some (Object_NetworkPolicy zero_NetworkPolicy)
      else if kind = KindInstance then Some (Object_Instance zero_Instance)
      else if kind = KindVIPAllocation then Some (Object_VipAllocation zero_VIPAllocation)
      else if kind = KindIngressAllocation
        then Some (Object_IngressAllocation zero_IngressAllocation)
      else None)"

fun KindOf :: "Object \<Rightarrow> string" where
  "KindOf (Object_Workload _) = KindWorkload"
| "KindOf (Object_Service _) = KindService"
| "KindOf (Object_Node _) = KindNode"
| "KindOf (Object_NetworkPolicy _) = KindNetworkPolicy"
| "KindOf (Object_Instance _) = KindInstance"
| "KindOf (Object_VipAllocation _) = KindVIPAllocation"
| "KindOf (Object_IngressAllocation _) = KindIngressAllocation"
| "KindOf Object_Empty = ''''"

text \<open>
  \<open>MetaOf\<close> allocates an absent Meta and returns the pointer into the object. Reading through it
  is \<open>MetaOf\<close>; writing through it is \<open>upd_Meta\<close>, which stores the updated (allocated) Meta.
\<close>

fun MetaOf :: "Object \<Rightarrow> Meta" where
  "MetaOf (Object_Workload w) = w_Meta w"
| "MetaOf (Object_Service s) = s_Meta s"
| "MetaOf (Object_Node n) = n_Meta n"
| "MetaOf (Object_NetworkPolicy p) = p_Meta p"
| "MetaOf (Object_Instance i) = i_Meta i"
| "MetaOf (Object_VipAllocation a) = va_Meta a"
| "MetaOf (Object_IngressAllocation a) = ia_Meta a"
| "MetaOf Object_Empty = zero_Meta"

fun upd_Meta :: "(Meta \<Rightarrow> Meta) \<Rightarrow> Object \<Rightarrow> Object" where
  "upd_Meta f (Object_Workload w) = Object_Workload (w\<lparr>w_meta := Some (f (w_Meta w))\<rparr>)"
| "upd_Meta f (Object_Service s) = Object_Service (s\<lparr>s_meta := Some (f (s_Meta s))\<rparr>)"
| "upd_Meta f (Object_Node n) = Object_Node (n\<lparr>n_meta := Some (f (n_Meta n))\<rparr>)"
| "upd_Meta f (Object_NetworkPolicy p) =
     Object_NetworkPolicy (p\<lparr>p_meta := Some (f (p_Meta p))\<rparr>)"
| "upd_Meta f (Object_Instance i) = Object_Instance (i\<lparr>i_meta := Some (f (i_Meta i))\<rparr>)"
| "upd_Meta f (Object_VipAllocation a) =
     Object_VipAllocation (a\<lparr>va_meta := Some (f (va_Meta a))\<rparr>)"
| "upd_Meta f (Object_IngressAllocation a) =
     Object_IngressAllocation (a\<lparr>ia_meta := Some (f (ia_Meta a))\<rparr>)"
| "upd_Meta f Object_Empty = Object_Empty"

definition object_name :: "Object \<Rightarrow> string" where
  "object_name o' = m_name (MetaOf o')"

subsection \<open>Defaulting\<close>

definition DefaultDrainTimeoutSeconds :: int where "DefaultDrainTimeoutSeconds = 30"
definition DefaultTerminationGraceSeconds :: int where "DefaultTerminationGraceSeconds = 15"
definition DefaultMaxInstances :: int where "DefaultMaxInstances = 32"

lemmas default_consts = DefaultDrainTimeoutSeconds_def DefaultTerminationGraceSeconds_def
  DefaultMaxInstances_def

definition defaultWorkload :: "Workload \<Rightarrow> Workload" where
  "defaultWorkload w =
     (let spec = w_Spec w;
          drain = getm zero_DrainSpec (ws_drain spec);
          drain1 = (if drainTimeoutSeconds drain = 0
                    then drain\<lparr>drainTimeoutSeconds := DefaultDrainTimeoutSeconds\<rparr> else drain);
          drain2 = (if terminationGraceSeconds drain1 = 0
                    then drain1\<lparr>terminationGraceSeconds := DefaultTerminationGraceSeconds\<rparr>
                    else drain1)
      in w\<lparr>w_spec := Some (spec\<lparr>ws_drain := Some drain2\<rparr>)\<rparr>)"

definition defaultService :: "Service \<Rightarrow> Service" where
  "defaultService s =
     (let spec = s_Spec s
      in s\<lparr>s_spec := Some (if ss_targetPort spec = 0
                           then spec\<lparr>ss_targetPort := ss_port spec\<rparr> else spec)\<rparr>)"

definition defaultNode :: "Node \<Rightarrow> Node" where
  "defaultNode n =
     (let spec = n_Spec n
      in n\<lparr>n_spec := Some (if ns_maxInstances spec = 0
                           then spec\<lparr>ns_maxInstances := DefaultMaxInstances\<rparr> else spec)\<rparr>)"

fun Default :: "Object \<Rightarrow> Object" where
  "Default (Object_Workload w) = Object_Workload (defaultWorkload w)"
| "Default (Object_Service s) = Object_Service (defaultService s)"
| "Default (Object_Node n) = Object_Node (defaultNode n)"
| "Default o' = o'"

subsection \<open>Validation\<close>

datatype ValidateErr =
  EmptyEnvelope
| NameRequired
| NameTooLong string
| NameNotLabel string
| LabelKeyEmpty string
| LabelKeyTooLong string string
| LabelValueTooLong string string
| PortOutside string int
| ReplicasOutside int
| BadNodeName ValidateErr
| ContainerCount nat
| ImageRequired
| EnvNameRequired nat
| MaxInstancesNegative int
| ActionInvalid
| RuleFromRequired nat
| RuleToRequired nat
| RuleExceptOnly nat
| InKind string ValidateErr
| InObject string string ValidateErr

definition alnum :: "char \<Rightarrow> bool" where
  "alnum c \<longleftrightarrow> (CHR ''a'' \<le> c \<and> c \<le> CHR ''z'') \<or> (CHR ''0'' \<le> c \<and> c \<le> CHR ''9'')"

definition dnsLabel :: "string \<Rightarrow> bool" where
  "dnsLabel s \<longleftrightarrow> s \<noteq> [] \<and> alnum (hd s) \<and> alnum (last s) \<and>
     list_all (\<lambda>c. alnum c \<or> c = CHR ''-'') s"

definition maxNameLen :: nat where "maxNameLen = 63"
definition maxLabelLen :: nat where "maxLabelLen = 63"
definition maxPort :: int where "maxPort = 65535"
definition maxReplicas :: int where "maxReplicas = 1000"

lemmas limit_defs = maxNameLen_def maxLabelLen_def maxPort_def maxReplicas_def

definition validateName :: "string \<Rightarrow> ValidateErr option" where
  "validateName name =
     (if name = [] then Some NameRequired
      else if maxNameLen < length name then Some (NameTooLong name)
      else if \<not> dnsLabel name then Some (NameNotLabel name)
      else None)"

fun validateLabels_loop ::
    "string \<Rightarrow> (string, string) fmap \<Rightarrow> string list \<Rightarrow> ValidateErr option" where
  "validateLabels_loop field labels [] = None"
| "validateLabels_loop field labels (k # ks) =
     (if k = [] then Some (LabelKeyEmpty field)
      else if maxLabelLen < length k then Some (LabelKeyTooLong field k)
      else if maxLabelLen < length (getm [] (fmlookup labels k))
        then Some (LabelValueTooLong field k)
      else validateLabels_loop field labels ks)"

definition validateLabels :: "string \<Rightarrow> (string, string) fmap \<Rightarrow> ValidateErr option" where
  "validateLabels field labels = validateLabels_loop field labels (sorted_keys labels)"

definition validatePort :: "string \<Rightarrow> int \<Rightarrow> ValidateErr option" where
  "validatePort field p = (if p < 1 \<or> maxPort < p then Some (PortOutside field p) else None)"

fun validateEnv :: "nat \<Rightarrow> EnvVar list \<Rightarrow> ValidateErr option" where
  "validateEnv i [] = None"
| "validateEnv i (e # es) =
     (if ev_name e = [] then Some (EnvNameRequired (i + 1)) else validateEnv (i + 1) es)"

fun validatePorts :: "Port list \<Rightarrow> ValidateErr option" where
  "validatePorts [] = None"
| "validatePorts (p # ps) =
     err_then (validatePort ''containerPort'' (containerPort p)) (validatePorts ps)"

definition validateContainer :: "Container \<Rightarrow> ValidateErr option" where
  "validateContainer c =
     (if c_image c = [] then Some ImageRequired
      else err_then (validateEnv 0 (c_env c))
        (err_then (validatePorts (c_ports c))
          (case c_readinessProbe c of
             None \<Rightarrow> None
           | Some probe \<Rightarrow> validatePort ''readinessProbe.tcpPort'' (tcpPort probe))))"

definition validateWorkload :: "Workload \<Rightarrow> ValidateErr option" where
  "validateWorkload w =
     (let spec = w_Spec w; r = ws_replicas spec; n = ws_nodeName spec; tpl = ws_Template spec in
      if r < 0 \<or> maxReplicas < r then Some (ReplicasOutside r)
      else err_then (if n = [] then None else map_option BadNodeName (validateName n))
        (err_then (validateLabels ''template.labels'' (t_labels tpl))
          (if length (t_containers tpl) \<noteq> 1
           then Some (ContainerCount (length (t_containers tpl)))
           else validateContainer (t_containers tpl ! 0))))"

definition validateService :: "Service \<Rightarrow> ValidateErr option" where
  "validateService s =
     (let spec = s_Spec s in
      err_then (validateLabels ''spec.selector'' (ss_selector spec))
        (err_then (validatePort ''port'' (ss_port spec))
          (validatePort ''targetPort'' (ss_targetPort spec))))"

definition validateNode :: "Node \<Rightarrow> ValidateErr option" where
  "validateNode n =
     (let m = ns_maxInstances (n_Spec n) in
      if m < 0 then Some (MaxInstancesNegative m) else None)"

fun validateRules :: "nat \<Rightarrow> PolicyRule list \<Rightarrow> ValidateErr option" where
  "validateRules i [] = None"
| "validateRules i (r # rs) =
     (if pr_from r = [] then Some (RuleFromRequired (i + 1))
      else if pr_to r = [] then Some (RuleToRequired (i + 1))
      else if 0 < length (pr_except r) \<and> pr_to r \<noteq> ''*'' then Some (RuleExceptOnly (i + 1))
      else validateRules (i + 1) rs)"

definition validatePolicy :: "NetworkPolicy \<Rightarrow> ValidateErr option" where
  "validatePolicy p =
     (let spec = p_Spec p in
      case ps_action spec of
        POLICY_ACTION_UNSPECIFIED \<Rightarrow> Some ActionInvalid
      | _ \<Rightarrow> validateRules 0 (ps_rules spec))"

fun validateKind :: "Object \<Rightarrow> ValidateErr option" where
  "validateKind (Object_Workload w) = validateWorkload w"
| "validateKind (Object_Service s) = validateService s"
| "validateKind (Object_Node n) = validateNode n"
| "validateKind (Object_NetworkPolicy p) = validatePolicy p"
| "validateKind _ = None"

definition Validate :: "Object \<Rightarrow> ValidateErr option" where
  "Validate o' =
     (let kind = KindOf o'; name = m_name (MetaOf o') in
      if kind = [] then Some EmptyEnvelope
      else err_then (map_option (InKind kind) (validateName name))
        (map_option (InObject kind name)
          (err_then (validateLabels ''metadata.labels'' (m_labels (MetaOf o')))
            (validateKind o'))))"

subsection \<open>Template hashing\<close>

text \<open>
  \<open>hash/fnv\<close>'s 64-bit FNV-1a over bytes. The deterministic protobuf encoding of a template is
  the protobuf library's; it is the parameter \<open>marshal\<close> (\<open>None\<close>: the encoder failed).
\<close>

definition fnv64a :: "8 word list \<Rightarrow> 64 word" where
  "fnv64a bs = fold (\<lambda>b h. (xor h (ucast b)) * 1099511628211) bs 14695981039346656037"

definition TemplateHash :: "(Template \<Rightarrow> 8 word list option) \<Rightarrow> Template \<Rightarrow> string option" where
  "TemplateHash marshal t = map_option (\<lambda>b. hex_string (unat (fnv64a b))) (marshal t)"

subsection \<open>Facts about the envelope\<close>

lemma KindOf_upd_Meta [simp]: "KindOf (upd_Meta f o') = KindOf o'"
  by (cases o') simp_all

lemma MetaOf_upd_Meta [simp]: "o' \<noteq> Object_Empty \<Longrightarrow> MetaOf (upd_Meta f o') = f (MetaOf o')"
  by (cases o') simp_all

lemma KindOf_empty_iff [simp]: "KindOf o' = [] \<longleftrightarrow> o' = Object_Empty"
  by (cases o') (simp_all add: kind_defs)

lemma upd_Meta_upd_Meta [simp]:
  "upd_Meta f (upd_Meta g o') = upd_Meta (\<lambda>m. f (g m)) o'"
  by (cases o') simp_all

lemma upd_Meta_empty_iff [simp]: "upd_Meta f o' = Object_Empty \<longleftrightarrow> o' = Object_Empty"
  by (cases o') simp_all

lemma Object_of_kind:
  "KindOf o' = KindInstance \<Longrightarrow> o' = Object_Instance (GetInstance o')"
  "KindOf o' = KindNode \<Longrightarrow> o' = Object_Node (GetNode o')"
  "KindOf o' = KindWorkload \<Longrightarrow> o' = Object_Workload (GetWorkload o')"
  "KindOf o' = KindService \<Longrightarrow> o' = Object_Service (GetService o')"
  "KindOf o' = KindNetworkPolicy \<Longrightarrow> o' = Object_NetworkPolicy (GetNetworkPolicy o')"
  "KindOf o' = KindVIPAllocation \<Longrightarrow> o' = Object_VipAllocation (GetVipAllocation o')"
  "KindOf o' = KindIngressAllocation \<Longrightarrow> o' = Object_IngressAllocation (GetIngressAllocation o')"
  by (cases o'; simp add: kind_defs)+

subsection \<open>The kind registry\<close>

lemma ToLower_idem [simp]: "ToLower (ToLower s) = ToLower s"
proof -
  have "lower_char (lower_char c) = lower_char c" for c
  proof (cases "CHR ''A'' \<le> c \<and> c \<le> CHR ''Z''")
    case True
    then have "of_char c + 32 < (256::nat)" and "97 \<le> of_char c + (32::nat)"
      by (simp_all add: less_eq_char_def)
    then have "\<not> char_of (of_char c + 32 :: nat) \<le> CHR ''Z''"
      by (simp add: less_eq_char_def)
    with True show ?thesis by (auto simp: lower_char_def)
  next
    case False
    then have "lower_char c = c" by (auto simp: lower_char_def)
    then show ?thesis by simp
  qed
  then show ?thesis by (simp add: ToLower_def)
qed

lemma Canonical_ToLower [simp]: "Canonical (ToLower s) = Canonical s"
  by (simp add: Canonical_def)

lemma aliases_loop_range:
  "fmlookup (aliases_loop ks m) s = Some k \<Longrightarrow> k \<in> set ks \<or> fmlookup m s = Some k"
  by (induction ks arbitrary: m) (fastforce split: if_splits)+

lemma Canonical_range: "Canonical s = Some k \<Longrightarrow> k \<in> set Kinds"
  by (auto simp: Canonical_def aliases_def dest: aliases_loop_range)

lemma Canonical_Kinds: "list_all (\<lambda>k. Canonical k = Some k \<and> Canonical (Plural k) = Some k) Kinds"
  by code_simp

lemma Canonical_kind: "k \<in> set Kinds \<Longrightarrow> Canonical k = Some k"
  using Canonical_Kinds by (simp add: list_all_iff)

lemma Canonical_Plural: "k \<in> set Kinds \<Longrightarrow> Canonical (Plural k) = Some k"
  using Canonical_Kinds by (simp add: list_all_iff)

lemma Plural_inj: "k \<in> set Kinds \<Longrightarrow> l \<in> set Kinds \<Longrightarrow> Plural k = Plural l \<Longrightarrow> k = l"
  by (metis Canonical_Plural option.inject)

lemma kinds_in [simp]:
  "KindWorkload \<in> set Kinds" "KindService \<in> set Kinds" "KindNode \<in> set Kinds"
  "KindNetworkPolicy \<in> set Kinds" "KindInstance \<in> set Kinds"
  "KindVIPAllocation \<in> set Kinds" "KindIngressAllocation \<in> set Kinds"
  by (simp_all add: Kinds_def)

lemmas Canonical_kinds [simp] = kinds_in [THEN Canonical_kind]

lemma Canonical_KindOf [simp]: "o' \<noteq> Object_Empty \<Longrightarrow> Canonical (KindOf o') = Some (KindOf o')"
  by (cases o') simp_all

lemma KindOf_New: "New k = Some o' \<Longrightarrow> KindOf o' = k"
  by (auto simp: New_def split: if_splits)

lemma New_total: "k \<in> set Kinds \<Longrightarrow> \<exists>o'. New k = Some o'"
  by (auto simp: New_def Kinds_def)

subsection \<open>Defaulting is idempotent\<close>

lemma defaultWorkload_idem: "defaultWorkload (defaultWorkload w) = defaultWorkload w"
  by (simp add: defaultWorkload_def Let_def default_consts)

lemma defaultService_idem: "defaultService (defaultService s) = defaultService s"
  by (simp add: defaultService_def Let_def)

lemma defaultNode_idem: "defaultNode (defaultNode n) = defaultNode n"
  by (simp add: defaultNode_def Let_def default_consts)

lemma Default_idempotent: "Default (Default o') = Default o'"
  by (cases o') (simp_all add: defaultWorkload_idem defaultService_idem defaultNode_idem)

lemma KindOf_Default [simp]: "KindOf (Default o') = KindOf o'"
  by (cases o') simp_all

lemma MetaOf_Default [simp]: "MetaOf (Default o') = MetaOf o'"
  by (cases o') (simp_all add: defaultWorkload_def defaultService_def defaultNode_def Let_def)

subsection \<open>What the validator accepts\<close>

definition wf_name :: "string \<Rightarrow> bool" where
  "wf_name n \<longleftrightarrow> dnsLabel n \<and> length n \<le> 63"

definition wf_labels :: "(string, string) fmap \<Rightarrow> bool" where
  "wf_labels m \<longleftrightarrow>
     (\<forall>k v. fmlookup m k = Some v \<longrightarrow> k \<noteq> [] \<and> length k \<le> 63 \<and> length v \<le> 63)"

definition wf_port :: "int \<Rightarrow> bool" where
  "wf_port p \<longleftrightarrow> 1 \<le> p \<and> p \<le> 65535"

definition wf_container :: "Container \<Rightarrow> bool" where
  "wf_container c \<longleftrightarrow> c_image c \<noteq> [] \<and> (\<forall>e \<in> set (c_env c). ev_name e \<noteq> []) \<and>
     (\<forall>p \<in> set (c_ports c). wf_port (containerPort p)) \<and>
     (\<forall>pr. c_readinessProbe c = Some pr \<longrightarrow> wf_port (tcpPort pr))"

definition wf_rule :: "PolicyRule \<Rightarrow> bool" where
  "wf_rule r \<longleftrightarrow> pr_from r \<noteq> [] \<and> pr_to r \<noteq> [] \<and> (pr_except r \<noteq> [] \<longrightarrow> pr_to r = ''*'')"

fun wf_kind :: "Object \<Rightarrow> bool" where
  "wf_kind (Object_Workload w) \<longleftrightarrow>
     0 \<le> ws_replicas (w_Spec w) \<and> ws_replicas (w_Spec w) \<le> 1000 \<and>
     (ws_nodeName (w_Spec w) \<noteq> [] \<longrightarrow> wf_name (ws_nodeName (w_Spec w))) \<and>
     wf_labels (t_labels (ws_Template (w_Spec w))) \<and>
     (\<exists>c. t_containers (ws_Template (w_Spec w)) = [c] \<and> wf_container c)"
| "wf_kind (Object_Service s) \<longleftrightarrow>
     wf_labels (ss_selector (s_Spec s)) \<and> wf_port (ss_port (s_Spec s)) \<and>
     wf_port (ss_targetPort (s_Spec s))"
| "wf_kind (Object_Node n) \<longleftrightarrow> 0 \<le> ns_maxInstances (n_Spec n)"
| "wf_kind (Object_NetworkPolicy p) \<longleftrightarrow>
     ps_action (p_Spec p) \<noteq> POLICY_ACTION_UNSPECIFIED \<and>
     (\<forall>r \<in> set (ps_rules (p_Spec p)). wf_rule r)"
| "wf_kind _ \<longleftrightarrow> True"

definition wf_object :: "Object \<Rightarrow> bool" where
  "wf_object o' \<longleftrightarrow> o' \<noteq> Object_Empty \<and> wf_name (m_name (MetaOf o')) \<and>
     wf_labels (m_labels (MetaOf o')) \<and> wf_kind o'"

lemma validateName_None: "validateName n = None \<longleftrightarrow> wf_name n"
  by (auto simp: validateName_def wf_name_def limit_defs dnsLabel_def)

lemma validateLabels_loop_None:
  "validateLabels_loop field m ks = None \<longleftrightarrow>
     (\<forall>k \<in> set ks. k \<noteq> [] \<and> length k \<le> 63 \<and> length (getm [] (fmlookup m k)) \<le> 63)"
  by (induction ks) (auto simp: limit_defs)

lemma validateLabels_None: "validateLabels field m = None \<longleftrightarrow> wf_labels m"
  using Ball_fmdom' [of m "\<lambda>k v. k \<noteq> [] \<and> length k \<le> 63 \<and> length (getm [] v) \<le> 63"]
  by (simp add: validateLabels_def validateLabels_loop_None wf_labels_def)

lemma validatePort_None: "validatePort field p = None \<longleftrightarrow> wf_port p"
  by (auto simp: validatePort_def wf_port_def limit_defs)

lemma validateEnv_None: "validateEnv i es = None \<longleftrightarrow> (\<forall>e \<in> set es. ev_name e \<noteq> [])"
  by (induction es arbitrary: i) auto

lemma validatePorts_None:
  "validatePorts ps = None \<longleftrightarrow> (\<forall>p \<in> set ps. wf_port (containerPort p))"
  by (induction ps) (auto simp: validatePort_None)

lemma validateContainer_None: "validateContainer c = None \<longleftrightarrow> wf_container c"
  by (auto simp: validateContainer_def wf_container_def validateEnv_None validatePorts_None
      validatePort_None split: option.splits)

lemma validateRules_None: "validateRules i rs = None \<longleftrightarrow> (\<forall>r \<in> set rs. wf_rule r)"
  by (induction rs arbitrary: i) (auto simp: wf_rule_def)

lemmas validate_None = validateName_None validateLabels_None validatePort_None
  validateContainer_None validateRules_None

lemma validateWorkload_None: "validateWorkload w = None \<longleftrightarrow> wf_kind (Object_Workload w)"
  by (auto simp: validateWorkload_def Let_def validate_None limit_defs length_Suc_conv)

lemma validatePolicy_None: "validatePolicy p = None \<longleftrightarrow> wf_kind (Object_NetworkPolicy p)"
  by (cases "ps_action (p_Spec p)") (auto simp: validatePolicy_def Let_def validate_None)

lemma validateKind_None: "validateKind o' = None \<longleftrightarrow> wf_kind o'"
  by (cases o') (simp_all add: validateWorkload_None validatePolicy_None validateService_def
      validateNode_def Let_def validate_None linorder_not_less del: wf_kind.simps(1,4))

lemma Validate_None_iff: "Validate o' = None \<longleftrightarrow> wf_object o'"
  by (auto simp: Validate_def Let_def wf_object_def validate_None validateKind_None)

lemma dnsLabel_no_dot: "dnsLabel s \<Longrightarrow> CHR ''.'' \<notin> set s"
  by (auto simp: dnsLabel_def list_all_iff alnum_def less_eq_char_def)

lemma dnsLabel_no_slash: "dnsLabel s \<Longrightarrow> CHR ''/'' \<notin> set s"
  by (auto simp: dnsLabel_def list_all_iff alnum_def less_eq_char_def)

end
