(* ===== verification/Klite_Policy.thy ===== *)
theory Klite_Policy
  imports Klite_Object
begin

text \<open>
  The policy engine of \<open>src/internal/policy/policy.go\<close>. \<open>Evaluate\<close> keeps the two passes of the
  code over the policies sorted by name (DENY first, then ALLOW with the \<open>allowlisted\<close> flag);
  \<open>Compile\<close> flattens the rules into the wire form. \<open>admits\<close> states the istio-lite semantics
  with no order and no early return, and the lemmas show that both the evaluator and the
  compiled table mean exactly that, whatever order the policies arrive in.
\<close>

record Decision =
  Allowed :: bool
  MatchedPolicy :: string
  Reason :: string

definition ruleFromMatches :: "PolicyRule \<Rightarrow> string \<Rightarrow> bool" where
  "ruleFromMatches r from' \<longleftrightarrow> pr_from r = ''*'' \<or> pr_from r = from'"

definition ruleTargets :: "PolicyRule \<Rightarrow> string \<Rightarrow> bool" where
  "ruleTargets r to' \<longleftrightarrow> (if pr_to r = to' then True
     else pr_to r = ''*'' \<and> \<not> List.member (pr_except r) to')"

definition ruleMatches :: "PolicyRule \<Rightarrow> string \<Rightarrow> string \<Rightarrow> bool" where
  "ruleMatches r from' to' \<longleftrightarrow> ruleFromMatches r from' \<and> ruleTargets r to'"

definition policy_name :: "NetworkPolicy \<Rightarrow> string" where
  "policy_name p = m_name (p_Meta p)"

definition sortedByName :: "NetworkPolicy list \<Rightarrow> NetworkPolicy list" where
  "sortedByName policies = sort_key policy_name policies"

subsection \<open>Evaluate\<close>

fun denyRules :: "string \<Rightarrow> string \<Rightarrow> string \<Rightarrow> nat \<Rightarrow> PolicyRule list \<Rightarrow> Decision option" where
  "denyRules name from' to' i [] = None"
| "denyRules name from' to' i (r # rs) =
     (if ruleMatches r from' to'
      then Some \<lparr>Allowed = False, MatchedPolicy = name,
                 Reason = ''denied by '' @ name @ '' rule '' @ itoa (i + 1)\<rparr>
      else denyRules name from' to' (i + 1) rs)"

fun denyPass :: "string \<Rightarrow> string \<Rightarrow> NetworkPolicy list \<Rightarrow> Decision option" where
  "denyPass from' to' [] = None"
| "denyPass from' to' (p # ps) =
     (if ps_action (p_Spec p) \<noteq> POLICY_ACTION_DENY then denyPass from' to' ps
      else case denyRules (policy_name p) from' to' 0 (ps_rules (p_Spec p)) of
        Some d \<Rightarrow> Some d
      | None \<Rightarrow> denyPass from' to' ps)"

text \<open>The ALLOW pass threads the \<open>allowlisted\<close> flag; the decision ends the loop.\<close>

fun allowRules ::
    "string \<Rightarrow> string \<Rightarrow> string \<Rightarrow> nat \<Rightarrow> PolicyRule list \<Rightarrow> bool \<Rightarrow> Decision option \<times> bool" where
  "allowRules name from' to' i [] allowlisted = (None, allowlisted)"
| "allowRules name from' to' i (r # rs) allowlisted =
     (if \<not> ruleTargets r to' then allowRules name from' to' (i + 1) rs allowlisted
      else if ruleFromMatches r from'
      then (Some \<lparr>Allowed = True, MatchedPolicy = name,
                  Reason = ''allowed by '' @ name @ '' rule '' @ itoa (i + 1)\<rparr>, True)
      else allowRules name from' to' (i + 1) rs True)"

fun allowPass ::
    "string \<Rightarrow> string \<Rightarrow> NetworkPolicy list \<Rightarrow> bool \<Rightarrow> Decision option \<times> bool" where
  "allowPass from' to' [] allowlisted = (None, allowlisted)"
| "allowPass from' to' (p # ps) allowlisted =
     (if ps_action (p_Spec p) \<noteq> POLICY_ACTION_ALLOW then allowPass from' to' ps allowlisted
      else case allowRules (policy_name p) from' to' 0 (ps_rules (p_Spec p)) allowlisted of
        (Some d, b) \<Rightarrow> (Some d, b)
      | (None, b) \<Rightarrow> allowPass from' to' ps b)"

definition Evaluate :: "NetworkPolicy list \<Rightarrow> string \<Rightarrow> string \<Rightarrow> Decision" where
  "Evaluate policies from' to' =
     (let sorted = sortedByName policies in
      case denyPass from' to' sorted of
        Some d \<Rightarrow> d
      | None \<Rightarrow>
        (case allowPass from' to' sorted False of
           (Some d, _) \<Rightarrow> d
         | (None, allowlisted) \<Rightarrow>
             if \<not> allowlisted
             then \<lparr>Allowed = True, MatchedPolicy = [],
                   Reason = ''no ALLOW targets '' @ to' @ '', default allow''\<rparr>
             else \<lparr>Allowed = False, MatchedPolicy = [],
                   Reason = to' @ '' is allowlist-mode and no ALLOW admits '' @ from'\<rparr>))"

subsection \<open>Compile\<close>

definition compileRule :: "NetworkPolicy \<Rightarrow> PolicyRule \<Rightarrow> CompiledPolicy" where
  "compileRule p r = \<lparr>cp_action = ps_action (p_Spec p), cp_from = pr_from r, cp_to = pr_to r,
     cp_except = pr_except r, cp_policyName = policy_name p\<rparr>"

definition Compile :: "NetworkPolicy list \<Rightarrow> CompiledPolicy list" where
  "Compile policies =
     concat (map (\<lambda>p. map (compileRule p) (ps_rules (p_Spec p))) (sortedByName policies))"

subsection \<open>The semantics without order\<close>

definition denies :: "NetworkPolicy \<Rightarrow> string \<Rightarrow> string \<Rightarrow> bool" where
  "denies p from' to' \<longleftrightarrow> ps_action (p_Spec p) = POLICY_ACTION_DENY \<and>
     (\<exists>r \<in> set (ps_rules (p_Spec p)). ruleMatches r from' to')"

definition allowlists :: "NetworkPolicy \<Rightarrow> string \<Rightarrow> bool" where
  "allowlists p to' \<longleftrightarrow> ps_action (p_Spec p) = POLICY_ACTION_ALLOW \<and>
     (\<exists>r \<in> set (ps_rules (p_Spec p)). ruleTargets r to')"

definition allows :: "NetworkPolicy \<Rightarrow> string \<Rightarrow> string \<Rightarrow> bool" where
  "allows p from' to' \<longleftrightarrow> ps_action (p_Spec p) = POLICY_ACTION_ALLOW \<and>
     (\<exists>r \<in> set (ps_rules (p_Spec p)). ruleMatches r from' to')"

definition admits :: "NetworkPolicy set \<Rightarrow> string \<Rightarrow> string \<Rightarrow> bool" where
  "admits P from' to' \<longleftrightarrow>
     (\<forall>p \<in> P. \<not> denies p from' to') \<and>
     ((\<forall>p \<in> P. \<not> allowlists p to') \<or> (\<exists>p \<in> P. allows p from' to'))"

lemma set_sortedByName [simp]: "set (sortedByName ps) = set ps"
  by (simp add: sortedByName_def)

lemma denyRules_None: "denyRules n f t i rs = None \<longleftrightarrow> (\<forall>r \<in> set rs. \<not> ruleMatches r f t)"
  by (induction rs arbitrary: i) auto

lemma denyRules_SomeD: "denyRules n f t i rs = Some d \<Longrightarrow> \<not> Allowed d \<and> MatchedPolicy d = n"
  by (induction rs arbitrary: i) (auto split: if_splits)

lemma denyPass_None: "denyPass f t ps = None \<longleftrightarrow> (\<forall>p \<in> set ps. \<not> denies p f t)"
proof (induction ps)
  case (Cons p ps)
  with denyRules_None [of "policy_name p" f t 0 "ps_rules (p_Spec p)"] show ?case
    by (cases "denyRules (policy_name p) f t 0 (ps_rules (p_Spec p))") (auto simp: denies_def)
qed simp

lemma denyPass_SomeD: "denyPass f t ps = Some d \<Longrightarrow> \<not> Allowed d"
  by (induction ps) (auto split: if_splits option.splits dest: denyRules_SomeD)

lemma allowRules_decision:
  "fst (allowRules n f t i rs b) = None \<longleftrightarrow> (\<forall>r \<in> set rs. \<not> ruleMatches r f t)"
  by (induction rs arbitrary: i b) (auto simp: ruleMatches_def)

lemma allowRules_flag:
  "\<forall>r \<in> set rs. \<not> ruleMatches r f t \<Longrightarrow>
     snd (allowRules n f t i rs b) = (b \<or> (\<exists>r \<in> set rs. ruleTargets r t))"
  by (induction rs arbitrary: i b) (auto simp: ruleMatches_def)

lemma allowRules_Allowed: "fst (allowRules n f t i rs b) = Some d \<Longrightarrow> Allowed d"
  by (induction rs arbitrary: i b) (auto split: if_splits)

lemma allowPass_step:
  assumes "ps_action (p_Spec p) = POLICY_ACTION_ALLOW"
  shows "allowPass f t (p # ps) b =
    (if allows p f t
     then allowRules (policy_name p) f t 0 (ps_rules (p_Spec p)) b
     else allowPass f t ps (b \<or> allowlists p t))"
proof (cases "allowRules (policy_name p) f t 0 (ps_rules (p_Spec p)) b")
  case (Pair d c)
  with assms allowRules_decision [of "policy_name p" f t 0 "ps_rules (p_Spec p)" b]
    allowRules_flag [of "ps_rules (p_Spec p)" f t "policy_name p" 0 b]
  show ?thesis
    by (cases d) (auto simp: allows_def allowlists_def)
qed

lemma allowPass_decision: "fst (allowPass f t ps b) = None \<longleftrightarrow> (\<forall>p \<in> set ps. \<not> allows p f t)"
proof (induction ps arbitrary: b)
  case Nil
  then show ?case by simp
next
  case (Cons p ps)
  show ?case
  proof (cases "ps_action (p_Spec p) = POLICY_ACTION_ALLOW")
    case True
    with allowRules_decision show ?thesis
      unfolding allowPass_step [OF True] by (auto simp: Cons.IH allows_def)
  next
    case False
    then have "\<not> allows p f t" by (simp add: allows_def)
    with False Cons.IH show ?thesis by simp
  qed
qed

lemma allowPass_flag:
  "\<forall>p \<in> set ps. \<not> allows p f t \<Longrightarrow>
     snd (allowPass f t ps b) = (b \<or> (\<exists>p \<in> set ps. allowlists p t))"
proof (induction ps arbitrary: b)
  case Nil
  then show ?case by simp
next
  case (Cons p ps)
  show ?case
  proof (cases "ps_action (p_Spec p) = POLICY_ACTION_ALLOW")
    case True
    with Cons show ?thesis unfolding allowPass_step [OF True] by auto
  next
    case False
    then have "\<not> allowlists p t" by (simp add: allowlists_def)
    with False Cons show ?thesis by simp
  qed
qed

lemma allowPass_Allowed: "fst (allowPass f t ps b) = Some d \<Longrightarrow> Allowed d"
proof (induction ps arbitrary: b)
  case (Cons p ps)
  then show ?case
    by (cases "ps_action (p_Spec p) = POLICY_ACTION_ALLOW")
      (auto simp: allowPass_step dest: allowRules_Allowed split: if_splits simp del: allowPass.simps(2),
       simp)
qed simp

lemma Evaluate_Allowed_iff: "Allowed (Evaluate ps f t) \<longleftrightarrow> admits (set ps) f t"
proof (cases "denyPass f t (sortedByName ps)")
  case (Some d)
  then have "\<not> admits (set ps) f t"
    using denyPass_None [of f t "sortedByName ps"] by (auto simp: admits_def)
  with Some show ?thesis by (simp add: Evaluate_def denyPass_SomeD)
next
  case None
  then have nodeny: "\<forall>p \<in> set ps. \<not> denies p f t"
    by (simp add: denyPass_None)
  obtain d b where ab: "allowPass f t (sortedByName ps) False = (d, b)"
    by fastforce
  show ?thesis
  proof (cases d)
    case None
    with ab allowPass_decision [of f t "sortedByName ps" False]
    have na: "\<forall>p \<in> set ps. \<not> allows p f t" by simp
    with ab allowPass_flag [of "sortedByName ps" f t False]
    have "b = (\<exists>p \<in> set ps. allowlists p t)" by simp
    with na nodeny ab None \<open>denyPass f t (sortedByName ps) = None\<close> show ?thesis
      by (auto simp: Evaluate_def admits_def)
  next
    case (Some dec)
    with ab have "Allowed dec"
      using allowPass_Allowed [of f t "sortedByName ps" False dec] by simp
    moreover from Some ab allowPass_decision [of f t "sortedByName ps" False]
    have "\<exists>p \<in> set ps. allows p f t" by auto
    ultimately show ?thesis
      using nodeny ab Some \<open>denyPass f t (sortedByName ps) = None\<close>
      by (simp add: Evaluate_def admits_def)
  qed
qed

subsection \<open>Attribution and order\<close>

lemma denyPass_matched:
  "denyPass f t ps = Some d \<Longrightarrow>
     \<exists>p as bs. ps = as @ p # bs \<and> denies p f t \<and> MatchedPolicy d = policy_name p
       \<and> (\<forall>q \<in> set as. \<not> denies q f t)"
proof (induction ps)
  case (Cons p ps)
  show ?case
  proof (cases "denies p f t")
    case True
    with Cons.prems denyRules_None [of "policy_name p" f t 0 "ps_rules (p_Spec p)"]
    have "MatchedPolicy d = policy_name p"
      by (cases "denyRules (policy_name p) f t 0 (ps_rules (p_Spec p))")
        (auto simp: denies_def dest: denyRules_SomeD)
    with True show ?thesis
      by (intro exI [of _ p] exI [of _ "[]"] exI [of _ ps]) simp
  next
    case False
    with Cons.prems denyRules_None [of "policy_name p" f t 0 "ps_rules (p_Spec p)"]
    have "denyPass f t ps = Some d"
      by (auto simp: denies_def split: if_splits)
    then obtain q as bs where "ps = as @ q # bs" "denies q f t" "MatchedPolicy d = policy_name q"
      "\<forall>x \<in> set as. \<not> denies x f t"
      using Cons.IH by blast
    with False show ?thesis
      by (intro exI [of _ q] exI [of _ "p # as"] exI [of _ bs]) simp
  qed
qed simp

lemma sorted_key_suffix_le:
  assumes "sorted (map f (as @ p # bs))" "q \<in> set (as @ p # bs)" "q \<notin> set as"
  shows "f p \<le> f q"
  using assms by (auto simp: sorted_append)

lemma sorted_sortedByName: "sorted (map policy_name (sortedByName ps))"
  by (simp add: sortedByName_def)

lemma sortedByName_perm:
  assumes "mset ps = mset qs" "distinct (map policy_name ps)"
  shows "sortedByName ps = sortedByName qs"
  unfolding sortedByName_def
proof (rule sort_key_inj_key_eq)
  show "mset ps = mset (sort_key policy_name qs)" using assms(1) by simp
  show "inj_on policy_name (set ps)" using assms(2) by (simp add: distinct_map)
qed simp

text \<open>
  C1. The evaluator decides the istio-lite semantics: a connection is admitted exactly when no
  DENY rule matches it and either no ALLOW rule targets the destination service (it is still
  default-open) or some ALLOW rule matches both ends. The statement has no order, no early
  return and no flag, so it is independent of how the two passes of the code are arranged.
\<close>

theorem Evaluate_correct:
  "Allowed (Evaluate policies from' to') \<longleftrightarrow>
     (\<nexists>p r. p \<in> set policies \<and> ps_action (p_Spec p) = POLICY_ACTION_DENY \<and>
        r \<in> set (ps_rules (p_Spec p)) \<and> ruleMatches r from' to') \<and>
     ({(p, r). p \<in> set policies \<and> ps_action (p_Spec p) = POLICY_ACTION_ALLOW \<and>
        r \<in> set (ps_rules (p_Spec p)) \<and> ruleTargets r to'} = {} \<or>
      (\<exists>p r. p \<in> set policies \<and> ps_action (p_Spec p) = POLICY_ACTION_ALLOW \<and>
        r \<in> set (ps_rules (p_Spec p)) \<and> ruleMatches r from' to'))"
  unfolding Evaluate_Allowed_iff admits_def denies_def allows_def allowlists_def by blast

text \<open>
  C2. A denial is attributed deterministically: when DENY rules match, the decision names a policy
  that really denies the connection, and of all policies that deny it the one whose name comes
  first, whatever the order of the list.
\<close>

theorem Evaluate_deny_attribution:
  assumes "q \<in> set policies" and "denies q from' to'"
  shows "\<not> Allowed (Evaluate policies from' to') \<and>
    (\<exists>p \<in> set policies. denies p from' to' \<and>
       MatchedPolicy (Evaluate policies from' to') = policy_name p \<and>
       (\<forall>p' \<in> set policies. denies p' from' to' \<longrightarrow> policy_name p \<le> policy_name p'))"
proof -
  from assms denyPass_None [of from' to' "sortedByName policies"]
  obtain d where d: "denyPass from' to' (sortedByName policies) = Some d" by auto
  then obtain p as bs where split: "sortedByName policies = as @ p # bs"
    and p: "denies p from' to'" "MatchedPolicy d = policy_name p"
    and as: "\<forall>q \<in> set as. \<not> denies q from' to'"
    using denyPass_matched by blast
  have mem: "set policies = set (as @ p # bs)"
    using split set_sortedByName by metis
  have "\<forall>p' \<in> set policies. denies p' from' to' \<longrightarrow> policy_name p \<le> policy_name p'"
    using sorted_key_suffix_le [of policy_name as p bs] sorted_sortedByName [of policies]
      as split mem by metis
  moreover have "Evaluate policies from' to' = d"
    using d by (simp add: Evaluate_def)
  ultimately show ?thesis
    using p mem denyPass_SomeD [OF d] by auto
qed

definition sample_deny :: NetworkPolicy where
  "sample_deny = zero_NetworkPolicy\<lparr>p_meta := Some (zero_Meta\<lparr>m_name := ''deny-web''\<rparr>),
     p_spec := Some \<lparr>ps_action = POLICY_ACTION_DENY,
       ps_rules = [\<lparr>pr_from = ''*'', pr_to = ''web'', pr_except = []\<rparr>]\<rparr>\<rparr>"

definition sample_allow :: NetworkPolicy where
  "sample_allow = zero_NetworkPolicy\<lparr>p_meta := Some (zero_Meta\<lparr>m_name := ''allow-db''\<rparr>),
     p_spec := Some \<lparr>ps_action = POLICY_ACTION_ALLOW,
       ps_rules = [\<lparr>pr_from = ''web'', pr_to = ''*'', pr_except = [''cache'']\<rparr>]\<rparr>\<rparr>"

lemma Evaluate_deny_attribution_witness:
  "\<not> Allowed (Evaluate [sample_allow, sample_deny] ''db'' ''web'') \<and>
   (\<exists>p \<in> set [sample_allow, sample_deny]. denies p ''db'' ''web'' \<and>
      MatchedPolicy (Evaluate [sample_allow, sample_deny] ''db'' ''web'') = policy_name p)"
proof -
  have "denies sample_deny ''db'' ''web''" by code_simp
  from Evaluate_deny_attribution [of sample_deny "[sample_allow, sample_deny]", OF _ this]
  show ?thesis by auto
qed

text \<open>
  C3. The order in which the store lists the policies is irrelevant: with distinct names (which the
  store guarantees) any two listings of the same policies give the same decision, reason and
  attribution included, and compile to the same table for Envoy and klite-net.
\<close>

theorem Evaluate_Compile_order_irrelevant:
  assumes "mset ps = mset qs" and "distinct (map policy_name ps)"
  shows "Evaluate ps from' to' = Evaluate qs from' to' \<and> Compile ps = Compile qs"
  unfolding Evaluate_def Compile_def sortedByName_perm [OF assms] by simp

lemma Evaluate_Compile_order_irrelevant_witness:
  "Evaluate [sample_allow, sample_deny] ''web'' ''db'' = Evaluate [sample_deny, sample_allow] ''web'' ''db'' \<and>
   Compile [sample_allow, sample_deny] = Compile [sample_deny, sample_allow]"
proof -
  have "distinct (map policy_name [sample_allow, sample_deny])" by code_simp
  moreover have "mset [sample_allow, sample_deny] = mset [sample_deny, sample_allow]" by simp
  ultimately show ?thesis using Evaluate_Compile_order_irrelevant by blast
qed

end
