(* ===== verification/Klite_Store.thy ===== *)
theory Klite_Store
  imports Klite_Object
begin

text \<open>
  The store. \<open>Store\<close> is the interface of \<open>src/internal/store/store.go\<close> as a record of operations
  over a store state: the controllers and the API server take it as an argument the way the Go
  code takes the interface value. The locale \<open>store_contract\<close> states what every caller relies
  on (optimistic concurrency by revision, reads that report the view, writes that touch one
  key); \<open>reliable_store\<close> adds that operations with met preconditions succeed. \<open>Memory\<close> is
  \<open>src/internal/store/storetest/memory.go\<close>, and both locales are interpreted on it.
\<close>

subsection \<open>The interface\<close>

datatype StoreErr =
  ErrNotFound
| ErrAlreadyExists
| ErrConflict
| ErrUnknownKind string
| ErrInvalidName string
| ErrInvalidRev int
| ErrEmptyEnvelope
| ErrDecode string
| ErrMarshal
| ErrBackend string

definition RevCreate :: int where "RevCreate = 0"
definition RevAny :: int where "RevAny = -1"

type_synonym ('s, 'a) op = "'s \<Rightarrow> (StoreErr + 'a) \<times> 's"

record 's Store =
  st_Get :: "string \<Rightarrow> string \<Rightarrow> ('s, Object \<times> int) op"
  st_List :: "string \<Rightarrow> ('s, Object list \<times> int) op"
  st_Put :: "Object \<Rightarrow> int \<Rightarrow> ('s, int) op"
  st_Delete :: "string \<Rightarrow> string \<Rightarrow> ('s, unit) op"
  st_DeleteIfRevision :: "string \<Rightarrow> string \<Rightarrow> int \<Rightarrow> ('s, unit) op"

text \<open>The operations as data, to speak of arbitrary interleavings of callers.\<close>

datatype Op =
  OpGet string string
| OpList string
| OpPut Object int
| OpDelete string string
| OpDeleteIf string string int

fun run_op :: "'s Store \<Rightarrow> Op \<Rightarrow> 's \<Rightarrow> 's" where
  "run_op S (OpGet k n) s = snd (st_Get S k n s)"
| "run_op S (OpList k) s = snd (st_List S k s)"
| "run_op S (OpPut o' r) s = snd (st_Put S o' r s)"
| "run_op S (OpDelete k n) s = snd (st_Delete S k n s)"
| "run_op S (OpDeleteIf k n r) s = snd (st_DeleteIfRevision S k n r s)"

fun run_ops :: "'s Store \<Rightarrow> Op list \<Rightarrow> 's \<Rightarrow> 's" where
  "run_ops S [] s = s"
| "run_ops S (p # ps) s = run_ops S ps (run_op S p s)"

definition key_of :: "Object \<Rightarrow> string \<times> string" where
  "key_of o' = (KindOf o', object_name o')"

text \<open>
  What a write keeps of its argument: everything but the three fields the store owns. A uid or
  a creation time the caller set is kept too.
\<close>

definition stamped :: "Object \<Rightarrow> int \<Rightarrow> Object \<Rightarrow> bool" where
  "stamped o' v x \<longleftrightarrow> (\<exists>u c. x = upd_Meta (\<lambda>m. m\<lparr>m_uid := u, m_createdUnix := c, m_resourceVersion := v\<rparr>) o' \<and>
     (m_uid (MetaOf o') \<noteq> [] \<longrightarrow> u = m_uid (MetaOf o')) \<and>
     (m_createdUnix (MetaOf o') \<noteq> 0 \<longrightarrow> c = m_createdUnix (MetaOf o')))"

definition valid_name :: "string \<Rightarrow> bool" where
  "valid_name n \<longleftrightarrow> n \<noteq> [] \<and> CHR ''/'' \<notin> set n"

subsection \<open>The contract\<close>

locale store_contract =
  fixes S :: "'s Store"
    and view :: "'s \<Rightarrow> string \<times> string \<Rightarrow> (Object \<times> int) option"
    and cur :: "'s \<Rightarrow> int"
    and ok :: "'s \<Rightarrow> bool"
  assumes view_ok: "ok s \<Longrightarrow> view s (k, n) = Some (x, v) \<Longrightarrow>
      0 < v \<and> v \<le> cur s \<and> KindOf x = k \<and> object_name x = n \<and> m_resourceVersion (MetaOf x) = v
      \<and> valid_name n"
    and get_frame: "ok s \<Longrightarrow> st_Get S k n s = (rg, s') \<Longrightarrow> ok s' \<and> view s' = view s \<and> cur s' = cur s"
    and get_found: "ok s \<Longrightarrow> st_Get S k n s = (Inr (x, v), s') \<Longrightarrow>
      \<exists>c. Canonical k = Some c \<and> view s (c, n) = Some (x, v)"
    and get_absent: "ok s \<Longrightarrow> st_Get S k n s = (Inl ErrNotFound, s') \<Longrightarrow>
      \<exists>c. Canonical k = Some c \<and> view s (c, n) = None"
    and list_frame: "ok s \<Longrightarrow> st_List S k s = (rl, s') \<Longrightarrow> ok s' \<and> view s' = view s \<and> cur s' = cur s"
    and list_found: "ok s \<Longrightarrow> st_List S k s = (Inr (xs, v), s') \<Longrightarrow>
      v = cur s \<and> (\<exists>c. Canonical k = Some c \<and> set xs = {x. \<exists>n w. view s (c, n) = Some (x, w)})
      \<and> sorted_wrt (<) (map object_name xs)"
    and put_done: "ok s \<Longrightarrow> st_Put S x e s = (Inr v, s') \<Longrightarrow>
      ok s' \<and> cur s < v \<and> cur s' = v \<and>
      (e = RevCreate \<longrightarrow> view s (key_of x) = None) \<and>
      (e \<noteq> RevCreate \<longrightarrow> e \<noteq> RevAny \<longrightarrow> (\<exists>y. view s (key_of x) = Some (y, e))) \<and>
      (\<exists>x'. stamped x v x' \<and> view s' = (view s)(key_of x \<mapsto> (x', v)))"
    and put_refused: "ok s \<Longrightarrow> st_Put S x e s = (Inl f, s') \<Longrightarrow>
      ok s' \<and> view s' = view s \<and> cur s' = cur s"
    and delete_done: "ok s \<Longrightarrow> st_Delete S k n s = (Inr u, s') \<Longrightarrow>
      ok s' \<and> cur s < cur s' \<and> (\<exists>c. Canonical k = Some c \<and> view s' = (view s)((c, n) := None))"
    and delete_refused: "ok s \<Longrightarrow> st_Delete S k n s = (Inl f, s') \<Longrightarrow>
      ok s' \<and> view s' = view s \<and> cur s' = cur s"
    and delete_if_done: "ok s \<Longrightarrow> st_DeleteIfRevision S k n e s = (Inr u, s') \<Longrightarrow>
      ok s' \<and> cur s < cur s' \<and> (\<exists>c x. Canonical k = Some c \<and> view s (c, n) = Some (x, e)
        \<and> view s' = (view s)((c, n) := None))"
    and delete_if_refused: "ok s \<Longrightarrow> st_DeleteIfRevision S k n e s = (Inl f, s') \<Longrightarrow>
      ok s' \<and> view s' = view s \<and> cur s' = cur s"
begin

text \<open>
  One operation against the view: the revision counter never goes back, and an entry either is
  the entry of before or carries a revision younger than every revision of before.
\<close>

definition aged :: "'s \<Rightarrow> 's \<Rightarrow> bool" where
  "aged s s' \<longleftrightarrow> ok s' \<and> cur s \<le> cur s' \<and>
     (\<forall>q x v. view s' q = Some (x, v) \<longrightarrow> view s q = Some (x, v) \<or> cur s < v)"

lemma agedI_same: "ok s' \<and> view s' = view s \<and> cur s' = cur s \<Longrightarrow> aged s s'"
  by (simp add: aged_def)

lemma aged_delete: "ok s' \<Longrightarrow> cur s < cur s' \<Longrightarrow> view s' = (view s)(q := None) \<Longrightarrow> aged s s'"
  by (simp add: aged_def)

lemma aged_refl: "ok s \<Longrightarrow> aged s s"
  by (simp add: aged_def)

lemma aged_trans: "aged s t \<Longrightarrow> aged t u \<Longrightarrow> aged s u"
  by (auto simp: aged_def) fastforce

lemma put_aged: "ok s \<Longrightarrow> st_Put S x e s = (r, s') \<Longrightarrow> aged s s'"
proof (cases r)
  case (Inl f)
  assume "ok s" "st_Put S x e s = (r, s')"
  with Inl put_refused show ?thesis by (blast intro: agedI_same)
next
  case (Inr v)
  assume "ok s" "st_Put S x e s = (r, s')"
  with Inr put_done [of s x e v s'] show ?thesis
    by (auto simp: aged_def split: if_splits)
qed

lemma delete_aged: "ok s \<Longrightarrow> st_Delete S k n s = (r, s') \<Longrightarrow> aged s s'"
proof (cases r)
  case (Inl f)
  assume "ok s" "st_Delete S k n s = (r, s')"
  with Inl delete_refused show ?thesis by (blast intro: agedI_same)
next
  case (Inr v)
  assume "ok s" "st_Delete S k n s = (r, s')"
  with Inr delete_done [of s k n v s'] show ?thesis by (blast intro: aged_delete)
qed

lemma delete_if_aged: "ok s \<Longrightarrow> st_DeleteIfRevision S k n e s = (r, s') \<Longrightarrow> aged s s'"
proof (cases r)
  case (Inl f)
  assume "ok s" "st_DeleteIfRevision S k n e s = (r, s')"
  with Inl delete_if_refused show ?thesis by (blast intro: agedI_same)
next
  case (Inr v)
  assume "ok s" "st_DeleteIfRevision S k n e s = (r, s')"
  with Inr delete_if_done [of s k n e v s'] show ?thesis by (blast intro: aged_delete)
qed

lemma run_op_aged:
  assumes "ok s"
  shows "aged s (run_op S p s)"
proof (cases p)
  case (OpPut x e)
  with put_aged [OF assms, of x e] show ?thesis by (cases "st_Put S x e s") simp
next
  case (OpDelete k n)
  with delete_aged [OF assms, of k n] show ?thesis by (cases "st_Delete S k n s") simp
next
  case (OpDeleteIf k n e)
  with delete_if_aged [OF assms, of k n e] show ?thesis
    by (cases "st_DeleteIfRevision S k n e s") simp
next
  case (OpGet k n)
  with get_frame [OF assms, of k n] show ?thesis
    by (cases "st_Get S k n s") (simp add: agedI_same)
next
  case (OpList k)
  with list_frame [OF assms, of k] show ?thesis
    by (cases "st_List S k s") (simp add: agedI_same)
qed

lemma run_ops_aged: "ok s \<Longrightarrow> aged s (run_ops S ps s)"
proof (induction ps arbitrary: s)
  case (Cons p ps)
  then have "aged s (run_op S p s)" by (simp add: run_op_aged)
  moreover from this Cons.IH have "aged (run_op S p s) (run_ops S ps (run_op S p s))"
    by (simp add: aged_def)
  ultimately show ?case by (simp add: aged_trans)
qed (simp add: aged_refl)

text \<open>No ABA: a revision a reader saw identifies the object it saw, for ever.\<close>

lemma revision_pins_object:
  assumes "ok s" and "view s q = Some (x, v)" and "view (run_ops S ps s) q = Some (y, v)"
  shows "y = x"
proof -
  from run_ops_aged [OF assms(1), of ps] assms(3)
  have "view s q = Some (y, v) \<or> cur s < v" by (cases q) (auto simp: aged_def)
  moreover have "v \<le> cur s" using view_ok [OF assms(1)] assms(2) by (cases q) blast
  ultimately show ?thesis using assms(2) by auto
qed

lemma cas_no_lost_update:
  assumes "ok s" and "st_Get S k n s = (Inr (x, v), s1)"
    and "st_Put S y v (run_ops S ps s1) = (Inr w, s2)"
    and "key_of y = (KindOf x, n)"
  shows "view (run_ops S ps s1) (KindOf x, n) = Some (x, v) \<and> v < w \<and>
    (\<exists>y'. stamped y w y' \<and> view s2 = (view (run_ops S ps s1))((KindOf x, n) \<mapsto> (y', w)))"
proof -
  from get_found [OF assms(1,2)] obtain c where c: "view s (c, n) = Some (x, v)" by blast
  with view_ok [OF assms(1)] have x: "KindOf x = c" "0 < v" "v \<le> cur s" by auto
  from get_frame [OF assms(1,2)] have s1: "ok s1" "view s1 = view s" "cur s1 = cur s" by auto
  let ?t = "run_ops S ps s1"
  from run_ops_aged [OF s1(1), of ps] have t: "ok ?t" "cur s \<le> cur ?t" by (auto simp: aged_def s1)
  from put_done [OF t(1) assms(3)] x(2) assms(4)
  obtain z where z: "view ?t (KindOf x, n) = Some (z, v)" "cur ?t < w"
    "\<exists>y'. stamped y w y' \<and> view s2 = (view ?t)((KindOf x, n) \<mapsto> (y', w))"
    by (auto simp: RevCreate_def RevAny_def)
  with revision_pins_object [OF s1(1), of "(KindOf x, n)" x v ps z] c x(1) s1(2)
  have "z = x" by simp
  with z x t show ?thesis by simp
qed

lemma pinned_delete_hits_what_was_read:
  assumes "ok s" and "st_Get S k n s = (Inr (x, v), s1)"
    and "st_DeleteIfRevision S k n v (run_ops S ps s1) = (Inr u, s2)"
  shows "view (run_ops S ps s1) (KindOf x, n) = Some (x, v) \<and>
    view s2 = (view (run_ops S ps s1))((KindOf x, n) := None)"
proof -
  from get_found [OF assms(1,2)] obtain c where c: "Canonical k = Some c" "view s (c, n) = Some (x, v)"
    by blast
  with view_ok [OF assms(1)] have x: "KindOf x = c" by auto
  from get_frame [OF assms(1,2)] have s1: "ok s1" "view s1 = view s" by auto
  from run_ops_aged [OF s1(1), of ps] have t: "ok (run_ops S ps s1)" by (simp add: aged_def)
  from delete_if_done [OF t assms(3)] c(1)
  obtain z where z: "view (run_ops S ps s1) (c, n) = Some (z, v)"
    "view s2 = (view (run_ops S ps s1))((c, n) := None)" by auto
  with revision_pins_object [OF s1(1), of "(c, n)" x v ps z] c s1(2) x show ?thesis by simp
qed

text \<open>What a successful listing says of the view, entry by entry.\<close>

lemma listed_view:
  assumes "ok s" and "st_List S k s = (Inr (xs, v), s')" and "k \<in> set Kinds"
  shows "x \<in> set xs \<longleftrightarrow> view s (k, object_name x) = Some (x, m_resourceVersion (MetaOf x))"
    and "distinct (map object_name xs)"
proof -
  from list_found [OF assms(1,2)] Canonical_kind [OF assms(3)]
  have xs: "set xs = {x. \<exists>n w. view s (k, n) = Some (x, w)}" "sorted_wrt (<) (map object_name xs)"
    by auto
  show "x \<in> set xs \<longleftrightarrow> view s (k, object_name x) = Some (x, m_resourceVersion (MetaOf x))"
    using view_ok [OF assms(1), of k _ x] unfolding xs by auto
  show "distinct (map object_name xs)"
    using xs(2) by (simp only: strict_sorted_iff)
qed

lemma listed_entry:
  assumes "ok s" and "st_List S k s = (Inr (xs, v), s')" and "k \<in> set Kinds" and "x \<in> set xs"
  shows "view s (k, object_name x) = Some (x, m_resourceVersion (MetaOf x)) \<and> KindOf x = k \<and>
    valid_name (object_name x)"
proof -
  from listed_view(1) [OF assms(1-3), of x] assms(4)
  have vx: "view s (k, object_name x) = Some (x, m_resourceVersion (MetaOf x))" by simp
  with view_ok [OF assms(1) vx] show ?thesis by simp
qed

end

text \<open>
  A store whose operations succeed whenever their preconditions hold: the level-based
  controllers converge on such a store, and only there.
\<close>

locale reliable_store = store_contract +
  assumes get_total: "ok s \<Longrightarrow> k \<in> set Kinds \<Longrightarrow> valid_name n \<Longrightarrow>
      fst (st_Get S k n s) = (case view s (k, n) of Some xv \<Rightarrow> Inr xv | None \<Rightarrow> Inl ErrNotFound)"
    and list_total: "ok s \<Longrightarrow> k \<in> set Kinds \<Longrightarrow> \<exists>xs. fst (st_List S k s) = Inr (xs, cur s)"
    and put_total: "ok s \<Longrightarrow> x \<noteq> Object_Empty \<Longrightarrow> valid_name (object_name x) \<Longrightarrow>
      e = RevAny \<or> e = RevCreate \<and> view s (key_of x) = None
        \<or> 0 < e \<and> (\<exists>y. view s (key_of x) = Some (y, e)) \<Longrightarrow>
      \<exists>v. fst (st_Put S x e s) = Inr v"
    and delete_total: "ok s \<Longrightarrow> k \<in> set Kinds \<Longrightarrow> view s (k, n) \<noteq> None \<Longrightarrow>
      fst (st_Delete S k n s) = Inr ()"
    and delete_if_total: "ok s \<Longrightarrow> k \<in> set Kinds \<Longrightarrow> view s (k, n) = Some (x, e) \<Longrightarrow>
      fst (st_DeleteIfRevision S k n e s) = Inr ()"
begin

text \<open>Read after write: what was put is what the next read returns, at the revision Put gave.\<close>

lemma get_after_put:
  assumes "ok s" and "x \<noteq> Object_Empty" and "st_Put S x e s = (Inr v, s')"
  shows "\<exists>x'. stamped x v x' \<and> fst (st_Get S (KindOf x) (object_name x) s') = Inr (x', v)"
proof -
  from put_done [OF assms(1,3)] obtain x' where
    x': "ok s'" "stamped x v x'" "view s' (key_of x) = Some (x', v)"
    by (metis fun_upd_same)
  have view': "view s' (KindOf x, object_name x) = Some (x', v)"
    using x'(3) by (simp add: key_of_def)
  have "KindOf x \<in> set Kinds"
    by (rule Canonical_range [OF Canonical_KindOf [OF assms(2)]])
  moreover have "valid_name (object_name x)"
    using view_ok [OF x'(1) view'] by simp
  ultimately have "fst (st_Get S (KindOf x) (object_name x) s') = Inr (x', v)"
    using get_total [OF x'(1)] view' by simp
  with x'(2) show ?thesis by blast
qed

end

subsection \<open>The in-memory store\<close>

record entry =
  e_obj :: Object
  e_rev :: int

record Memory =
  mem_rev :: int
  mem_uid :: int
  mem_objs :: "string \<Rightarrow> (string, entry) fmap"

definition mem_New :: Memory where
  "mem_New = \<lparr>mem_rev = 0, mem_uid = 0, mem_objs = (\<lambda>_. fmempty)\<rparr>"

text \<open>\<open>bucket\<close> allocates the inner map on first use; an empty map says the same.\<close>

definition bucket :: "Memory \<Rightarrow> string \<Rightarrow> StoreErr + (string \<times> (string, entry) fmap)" where
  "bucket m kind = (case Canonical kind of
     None \<Rightarrow> Inl (ErrUnknownKind kind)
   | Some canonical \<Rightarrow> Inr (canonical, mem_objs m canonical))"

definition checkName :: "string \<Rightarrow> StoreErr option" where
  "checkName name = (if name = [] \<or> ContainsStr name ''/'' then Some (ErrInvalidName name) else None)"

definition set_bucket :: "string \<Rightarrow> (string, entry) fmap \<Rightarrow> Memory \<Rightarrow> Memory" where
  "set_bucket c b m = m\<lparr>mem_objs := (mem_objs m)(c := b)\<rparr>"

definition read_entry :: "entry \<Rightarrow> Object" where
  "read_entry e = upd_Meta (\<lambda>mt. mt\<lparr>m_resourceVersion := e_rev e\<rparr>) (e_obj e)"

definition mem_Get :: "string \<Rightarrow> string \<Rightarrow> (Memory, Object \<times> int) op" where
  "mem_Get kind name m = (case bucket m kind of
     Inl err \<Rightarrow> (Inl err, m)
   | Inr (c, b) \<Rightarrow>
     (case checkName name of
        Some err \<Rightarrow> (Inl err, m)
      | None \<Rightarrow>
        (case fmlookup b name of
           None \<Rightarrow> (Inl ErrNotFound, m)
         | Some e \<Rightarrow> (Inr (read_entry e, e_rev e), m))))"

definition mem_List :: "string \<Rightarrow> (Memory, Object list \<times> int) op" where
  "mem_List kind m = (case bucket m kind of
     Inl err \<Rightarrow> (Inl err, m)
   | Inr (c, b) \<Rightarrow>
     (Inr (map (\<lambda>n. read_entry (the (fmlookup b n))) (sorted_keys b), mem_rev m), m))"

definition mem_stampNew :: "int \<Rightarrow> Meta \<Rightarrow> Memory \<Rightarrow> Meta \<times> Memory" where
  "mem_stampNew now meta m =
     (let (meta1, m1) = (if m_uid meta = []
            then (meta\<lparr>m_uid := ''uid-'' @ itoa_int (mem_uid m + 1)\<rparr>, m\<lparr>mem_uid := mem_uid m + 1\<rparr>)
            else (meta, m));
          meta2 = (if m_createdUnix meta1 = 0 then meta1\<lparr>m_createdUnix := now\<rparr> else meta1)
      in (meta2, m1))"

definition mem_adopt :: "int \<Rightarrow> Meta \<Rightarrow> entry option \<Rightarrow> Memory \<Rightarrow> Meta \<times> Memory" where
  "mem_adopt now meta cur' m = (case cur' of
     None \<Rightarrow> mem_stampNew now meta m
   | Some e \<Rightarrow>
     (let curMeta = MetaOf (e_obj e);
          meta1 = (if m_uid meta = [] then meta\<lparr>m_uid := m_uid curMeta\<rparr> else meta);
          meta2 = (if m_createdUnix meta1 = 0
                   then meta1\<lparr>m_createdUnix := m_createdUnix curMeta\<rparr> else meta1)
      in (meta2, m)))"

definition mem_commit ::
    "string \<Rightarrow> string \<Rightarrow> Object \<Rightarrow> Meta \<times> Memory \<Rightarrow> (StoreErr + int) \<times> Memory" where
  "mem_commit c name obj mm =
     (let (meta, m1) = mm;
          stored = upd_Meta (\<lambda>_. meta) obj;
          m2 = m1\<lparr>mem_rev := mem_rev m1 + 1\<rparr>;
          b = fmupd name \<lparr>e_obj = stored, e_rev = mem_rev m2\<rparr> (mem_objs m2 c)
      in (Inr (mem_rev m2), set_bucket c b m2))"

definition mem_Put :: "int \<Rightarrow> Object \<Rightarrow> int \<Rightarrow> (Memory, int) op" where
  "mem_Put now obj expectedRev m =
     (let kind = KindOf obj in
      case bucket m kind of
        Inl err \<Rightarrow> (Inl err, m)
      | Inr (c, b) \<Rightarrow>
        (let meta = MetaOf obj; name = m_name meta in
         case checkName name of
           Some err \<Rightarrow> (Inl err, m)
         | None \<Rightarrow>
           (let meta1 = meta\<lparr>m_resourceVersion := 0\<rparr>;
                cur' = fmlookup b name in
            if expectedRev = RevCreate then
              (if cur' \<noteq> None then (Inl ErrAlreadyExists, m)
               else mem_commit c name obj (mem_stampNew now meta1 m))
            else if expectedRev = RevAny then
              mem_commit c name obj (mem_adopt now meta1 cur' m)
            else if 0 < expectedRev then
              (if cur' = None \<or> e_rev (the cur') \<noteq> expectedRev then (Inl ErrConflict, m)
               else mem_commit c name obj (mem_adopt now meta1 cur' m))
            else (Inl (ErrInvalidRev expectedRev), m))))"

definition mem_Delete :: "string \<Rightarrow> string \<Rightarrow> (Memory, unit) op" where
  "mem_Delete kind name m = (case bucket m kind of
     Inl err \<Rightarrow> (Inl err, m)
   | Inr (c, b) \<Rightarrow>
     (case checkName name of
        Some err \<Rightarrow> (Inl err, m)
      | None \<Rightarrow>
        (if fmlookup b name = None then (Inl ErrNotFound, m)
         else (Inr (), set_bucket c (fmdrop name b) (m\<lparr>mem_rev := mem_rev m + 1\<rparr>)))))"

definition mem_DeleteIfRevision :: "string \<Rightarrow> string \<Rightarrow> int \<Rightarrow> (Memory, unit) op" where
  "mem_DeleteIfRevision kind name expectedRev m = (case bucket m kind of
     Inl err \<Rightarrow> (Inl err, m)
   | Inr (c, b) \<Rightarrow>
     (case checkName name of
        Some err \<Rightarrow> (Inl err, m)
      | None \<Rightarrow>
        (if expectedRev \<le> 0 then (Inl (ErrInvalidRev expectedRev), m)
         else case fmlookup b name of
           None \<Rightarrow> (Inl ErrNotFound, m)
         | Some e \<Rightarrow>
           (if e_rev e \<noteq> expectedRev then (Inl ErrConflict, m)
            else (Inr (), set_bucket c (fmdrop name b) (m\<lparr>mem_rev := mem_rev m + 1\<rparr>))))))"

definition memory_store :: "int \<Rightarrow> Memory Store" where
  "memory_store now = \<lparr>st_Get = mem_Get, st_List = mem_List, st_Put = mem_Put now,
     st_Delete = mem_Delete, st_DeleteIfRevision = mem_DeleteIfRevision\<rparr>"

subsection \<open>The in-memory store meets the contract\<close>

definition mem_view :: "Memory \<Rightarrow> string \<times> string \<Rightarrow> (Object \<times> int) option" where
  "mem_view m q = map_option (\<lambda>e. (read_entry e, e_rev e)) (fmlookup (mem_objs m (fst q)) (snd q))"

definition entry_ok :: "int \<Rightarrow> string \<Rightarrow> string \<Rightarrow> entry \<Rightarrow> bool" where
  "entry_ok r k n e \<longleftrightarrow> 0 < e_rev e \<and> e_rev e \<le> r \<and> e_obj e \<noteq> Object_Empty \<and>
     key_of (e_obj e) = (k, n) \<and> valid_name n"

definition mem_ok :: "Memory \<Rightarrow> bool" where
  "mem_ok m \<longleftrightarrow> 0 \<le> mem_rev m \<and>
     (\<forall>k n e. fmlookup (mem_objs m k) n = Some e \<longrightarrow> entry_ok (mem_rev m) k n e) \<and>
     (\<forall>k n e k' n' e'. fmlookup (mem_objs m k) n = Some e \<longrightarrow> fmlookup (mem_objs m k') n' = Some e' \<longrightarrow>
        e_rev e = e_rev e' \<longrightarrow> (k, n) = (k', n'))"

lemma mem_ok_entry: "mem_ok m \<Longrightarrow> fmlookup (mem_objs m k) n = Some e \<Longrightarrow> entry_ok (mem_rev m) k n e"
  by (simp add: mem_ok_def)

lemma mem_ok_unique:
  "mem_ok m \<Longrightarrow> fmlookup (mem_objs m k) n = Some a \<Longrightarrow> fmlookup (mem_objs m k') n' = Some b \<Longrightarrow>
   e_rev a = e_rev b \<Longrightarrow> (k, n) = (k', n')"
  unfolding mem_ok_def by blast

lemma upd_Meta_cong: "f (MetaOf x) = g (MetaOf x) \<Longrightarrow> upd_Meta f x = upd_Meta g x"
  by (cases x) simp_all

lemma mem_ok_New: "mem_ok mem_New"
  by (simp add: mem_ok_def mem_New_def)

lemma checkName_None [simp]: "checkName n = None \<longleftrightarrow> valid_name n"
  by (simp add: checkName_def valid_name_def ContainsStr_char)

lemma read_entry_simps [simp]:
  "KindOf (read_entry e) = KindOf (e_obj e)"
  "e_obj e \<noteq> Object_Empty \<Longrightarrow> object_name (read_entry e) = object_name (e_obj e)"
  "e_obj e \<noteq> Object_Empty \<Longrightarrow> m_resourceVersion (MetaOf (read_entry e)) = e_rev e"
  by (simp_all add: read_entry_def object_name_def)

lemma Canonical_Nil [simp]: "Canonical [] = None"
  by code_simp

lemma bucket_SomeD: "bucket m kind = Inr (c, b) \<Longrightarrow> Canonical kind = Some c \<and> b = mem_objs m c"
  by (auto simp: bucket_def split: option.splits)

lemma mem_drop_ok:
  assumes "mem_ok m"
  shows "mem_ok (set_bucket c (fmdrop n (mem_objs m c)) (m\<lparr>mem_rev := mem_rev m + 1\<rparr>))"
proof -
  let ?m = "set_bucket c (fmdrop n (mem_objs m c)) (m\<lparr>mem_rev := mem_rev m + 1\<rparr>)"
  have sub: "fmlookup (mem_objs ?m k) n' = Some e \<Longrightarrow> fmlookup (mem_objs m k) n' = Some e" for k n' e
    by (auto simp: set_bucket_def split: if_splits)
  have rev: "mem_rev ?m = mem_rev m + 1" by (simp add: set_bucket_def)
  have "entry_ok (mem_rev ?m) k n' e" if "fmlookup (mem_objs ?m k) n' = Some e" for k n' e
    using mem_ok_entry [OF assms sub [OF that]] rev by (simp add: entry_ok_def)
  moreover have "(k, n1) = (k', n2)" if "fmlookup (mem_objs ?m k) n1 = Some e"
    "fmlookup (mem_objs ?m k') n2 = Some e'" "e_rev e = e_rev e'" for k n1 e k' n2 e'
    using assms sub [OF that(1)] sub [OF that(2)] that(3) unfolding mem_ok_def by blast
  moreover have "0 \<le> mem_rev ?m" using assms rev by (simp add: mem_ok_def)
  ultimately show ?thesis unfolding mem_ok_def by blast
qed

lemma mem_drop_view:
  "mem_view (set_bucket c (fmdrop n (mem_objs m c)) (m\<lparr>mem_rev := r\<rparr>)) = (mem_view m)((c, n) := None)"
  by (rule ext) (auto simp: mem_view_def set_bucket_def)

definition stamp_of :: "Meta \<Rightarrow> Memory \<Rightarrow> Meta \<times> Memory \<Rightarrow> bool" where
  "stamp_of meta m mm \<longleftrightarrow> mem_rev (snd mm) = mem_rev m \<and> mem_objs (snd mm) = mem_objs m \<and>
     (\<exists>u c. fst mm = meta\<lparr>m_uid := u, m_createdUnix := c\<rparr> \<and>
       (m_uid meta \<noteq> [] \<longrightarrow> u = m_uid meta) \<and> (m_createdUnix meta \<noteq> 0 \<longrightarrow> c = m_createdUnix meta))"

lemma stamp_ofI:
  assumes "mem_rev (snd mm) = mem_rev m" "mem_objs (snd mm) = mem_objs m"
    "fst mm = meta\<lparr>m_uid := m_uid (fst mm), m_createdUnix := m_createdUnix (fst mm)\<rparr>"
    "m_uid meta \<noteq> [] \<Longrightarrow> m_uid (fst mm) = m_uid meta"
    "m_createdUnix meta \<noteq> 0 \<Longrightarrow> m_createdUnix (fst mm) = m_createdUnix meta"
  shows "stamp_of meta m mm"
  unfolding stamp_of_def using assms by blast

lemma mem_stampNew_stamp: "stamp_of meta m (mem_stampNew now meta m)"
  by (rule stamp_ofI; cases "m_uid meta = []"; cases "m_createdUnix meta = 0")
    (simp_all add: mem_stampNew_def Let_def)

lemma mem_adopt_stamp: "stamp_of meta m (mem_adopt now meta cur' m)"
proof (cases cur')
  case (Some e)
  then show ?thesis
    by (intro stamp_ofI; cases "m_uid meta = []"; cases "m_createdUnix meta = 0")
      (simp_all add: mem_adopt_def Let_def)
qed (simp add: mem_adopt_def mem_stampNew_stamp)

lemma mem_commit_ok:
  assumes m: "mem_ok m" and x: "x \<noteq> Object_Empty" "valid_name (object_name x)"
    and st: "stamp_of (MetaOf x\<lparr>m_resourceVersion := 0\<rparr>) m mm"
    and run: "mem_commit (KindOf x) (object_name x) x mm = (r, m')"
  shows "r = Inr (mem_rev m + 1) \<and> mem_rev m' = mem_rev m + 1 \<and> mem_ok m' \<and>
    (\<exists>x'. stamped x (mem_rev m + 1) x' \<and>
       mem_view m' = (mem_view m)(key_of x \<mapsto> (x', mem_rev m + 1)))"
proof -
  obtain u c where mm: "mem_rev (snd mm) = mem_rev m" "mem_objs (snd mm) = mem_objs m"
    "fst mm = MetaOf x\<lparr>m_resourceVersion := 0, m_uid := u, m_createdUnix := c\<rparr>"
    "m_uid (MetaOf x) \<noteq> [] \<Longrightarrow> u = m_uid (MetaOf x)"
    "m_createdUnix (MetaOf x) \<noteq> 0 \<Longrightarrow> c = m_createdUnix (MetaOf x)"
    using st unfolding stamp_of_def by auto
  let ?e = "\<lparr>e_obj = upd_Meta (\<lambda>_. fst mm) x, e_rev = mem_rev m + 1\<rparr>"
  have m': "mem_rev m' = mem_rev m + 1" "r = Inr (mem_rev m + 1)"
    "mem_objs m' = (mem_objs m)(KindOf x := fmupd (object_name x) ?e (mem_objs m (KindOf x)))"
    using run mm by (auto simp: mem_commit_def set_bucket_def Let_def split: prod.splits)
  have e: "entry_ok (mem_rev m') (KindOf x) (object_name x) ?e"
    using x m m' mm(3) by (simp add: entry_ok_def key_of_def mem_ok_def object_name_def)
  have look: "fmlookup (mem_objs m' k) n = (if (k, n) = key_of x then Some ?e
      else fmlookup (mem_objs m k) n)" for k n
    by (auto simp: m' key_of_def)
  have old: "fmlookup (mem_objs m k) n = Some e' \<Longrightarrow> entry_ok (mem_rev m') k n e' \<and> e_rev e' \<noteq> e_rev ?e" for k n e'
    using mem_ok_entry [OF m] m' by (fastforce simp: entry_ok_def)
  have "mem_ok m'"
    unfolding mem_ok_def
  proof (intro conjI allI impI)
    show "0 \<le> mem_rev m'" using m m' by (simp add: mem_ok_def)
    show "entry_ok (mem_rev m') k n e'" if "fmlookup (mem_objs m' k) n = Some e'" for k n e'
      using that e old by (auto simp: look key_of_def split: if_splits)
    show "(k, n) = (k', n')" if "fmlookup (mem_objs m' k) n = Some a" "fmlookup (mem_objs m' k') n' = Some b"
      "e_rev a = e_rev b" for k n a k' n' b
    proof (cases "(k, n) = key_of x")
      case True
      then have "e_rev b = e_rev ?e" using that(1,3) by (simp add: look)
      then have "(k', n') = key_of x"
        using that(2) old [of k' n' b] by (cases "(k', n') = key_of x") (simp_all add: look)
      with True show ?thesis by metis
    next
      case False
      then have a: "fmlookup (mem_objs m k) n = Some a" using that(1) by (simp add: look)
      then have "(k', n') \<noteq> key_of x" using old [OF a] that(2,3) by (auto simp: look)
      then have "fmlookup (mem_objs m k') n' = Some b" using that(2) by (simp add: look)
      with mem_ok_unique [OF m a] that(3) show ?thesis by blast
    qed
  qed
  moreover have "mem_view m' = (mem_view m)(key_of x \<mapsto> (read_entry ?e, mem_rev m + 1))"
    by (rule ext) (auto simp: mem_view_def look split: if_splits)
  moreover have "stamped x (mem_rev m + 1) (read_entry ?e)"
    unfolding stamped_def
  proof (intro exI conjI impI)
    show "read_entry ?e = upd_Meta (\<lambda>mt. mt\<lparr>m_uid := u, m_createdUnix := c,
        m_resourceVersion := mem_rev m + 1\<rparr>) x"
      by (simp add: read_entry_def mm(3)) (rule upd_Meta_cong, simp)
  qed (use mm in simp_all)
  ultimately show ?thesis unfolding m'(1,2) by (intro conjI exI refl)
qed

lemma mem_Get_cases:
  assumes "mem_Get k n m = (r, m')"
  shows "m' = m \<and> (case Canonical k of None \<Rightarrow> r = Inl (ErrUnknownKind k)
    | Some c \<Rightarrow> r = (if \<not> valid_name n then Inl (ErrInvalidName n)
        else case mem_view m (c, n) of None \<Rightarrow> Inl ErrNotFound | Some xv \<Rightarrow> Inr xv))"
  using assms
  by (auto simp: mem_Get_def bucket_def mem_view_def checkName_def valid_name_def ContainsStr_char
      split: option.splits if_splits)

lemma mem_List_cases:
  assumes "mem_List k m = (r, m')"
  shows "m' = m \<and> (case Canonical k of None \<Rightarrow> r = Inl (ErrUnknownKind k)
    | Some c \<Rightarrow> r = Inr (map (\<lambda>n. read_entry (the (fmlookup (mem_objs m c) n)))
        (sorted_keys (mem_objs m c)), mem_rev m))"
  using assms by (auto simp: mem_List_def bucket_def split: option.splits)

lemma mem_listing:
  assumes "mem_ok m"
  shows "map object_name (map (\<lambda>n. read_entry (the (fmlookup (mem_objs m c) n)))
      (sorted_keys (mem_objs m c))) = sorted_keys (mem_objs m c)"
    and "set (map (\<lambda>n. read_entry (the (fmlookup (mem_objs m c) n))) (sorted_keys (mem_objs m c)))
      = {x. \<exists>n w. mem_view m (c, n) = Some (x, w)}"
proof -
  have "object_name (read_entry (the (fmlookup (mem_objs m c) n))) = n"
    if "n \<in> set (sorted_keys (mem_objs m c))" for n
  proof -
    from that obtain e where e: "fmlookup (mem_objs m c) n = Some e"
      by (auto simp: fmlookup_dom'_iff)
    with mem_ok_entry [OF assms e] show ?thesis by (simp add: entry_ok_def key_of_def)
  qed
  then show "map object_name (map (\<lambda>n. read_entry (the (fmlookup (mem_objs m c) n)))
      (sorted_keys (mem_objs m c))) = sorted_keys (mem_objs m c)"
    unfolding map_map comp_def by (rule map_idI)
  show "set (map (\<lambda>n. read_entry (the (fmlookup (mem_objs m c) n))) (sorted_keys (mem_objs m c)))
      = {x. \<exists>n w. mem_view m (c, n) = Some (x, w)}"
    by (force simp: mem_view_def fmlookup_dom'_iff)
qed

lemma mem_Put_refused:
  assumes "mem_Put now x e m = (Inl f, m')"
  shows "m' = m"
  using assms
  by (auto simp: mem_Put_def mem_commit_def Let_def split: sum.splits option.splits if_splits prod.splits)

lemma mem_Put_eq:
  assumes "x \<noteq> Object_Empty" and "valid_name (object_name x)"
  shows "mem_Put now x e m =
    (let cur' = fmlookup (mem_objs m (KindOf x)) (object_name x);
         meta = MetaOf x\<lparr>m_resourceVersion := 0\<rparr>;
         commit = mem_commit (KindOf x) (object_name x) x in
     if e = RevCreate then
       (if cur' \<noteq> None then (Inl ErrAlreadyExists, m) else commit (mem_stampNew now meta m))
     else if e = RevAny then commit (mem_adopt now meta cur' m)
     else if 0 < e then
       (if cur' = None \<or> e_rev (the cur') \<noteq> e then (Inl ErrConflict, m)
        else commit (mem_adopt now meta cur' m))
     else (Inl (ErrInvalidRev e), m))"
proof -
  from assms(2) have c: "checkName (m_name (MetaOf x)) = None" by (simp add: object_name_def)
  from assms(1) show ?thesis by (simp add: mem_Put_def Let_def bucket_def object_name_def c)
qed

lemma mem_Put_done:
  assumes "mem_ok m" and "mem_Put now x e m = (Inr v, m')"
  shows "x \<noteq> Object_Empty \<and> valid_name (object_name x) \<and>
    (e = RevCreate \<longrightarrow> mem_view m (key_of x) = None) \<and>
    (e \<noteq> RevCreate \<longrightarrow> e \<noteq> RevAny \<longrightarrow> (\<exists>y. mem_view m (key_of x) = Some (y, e))) \<and>
    (\<exists>mm. stamp_of (MetaOf x\<lparr>m_resourceVersion := 0\<rparr>) m mm \<and>
       mem_commit (KindOf x) (object_name x) x mm = (Inr v, m'))"
proof -
  from assms(2) have x: "x \<noteq> Object_Empty"
    by (auto simp: mem_Put_def Let_def bucket_def)
  with assms(2) have n: "valid_name (object_name x)"
    by (cases "checkName (object_name x)")
      (simp_all add: mem_Put_def Let_def bucket_def object_name_def)
  let ?cur = "fmlookup (mem_objs m (KindOf x)) (object_name x)"
  let ?meta = "MetaOf x\<lparr>m_resourceVersion := 0\<rparr>"
  note eq = assms(2) [unfolded mem_Put_eq [OF x n] Let_def]
  from eq have "\<exists>mm \<in> {mem_stampNew now ?meta m, mem_adopt now ?meta ?cur m}.
      mem_commit (KindOf x) (object_name x) x mm = (Inr v, m')"
    by (simp split: if_splits)
  then have "\<exists>mm. stamp_of ?meta m mm \<and> mem_commit (KindOf x) (object_name x) x mm = (Inr v, m')"
    using mem_stampNew_stamp [of ?meta m now] mem_adopt_stamp [of ?meta m now ?cur] by blast
  moreover from eq have "e = RevCreate \<longrightarrow> mem_view m (key_of x) = None"
    by (cases ?cur) (auto simp: mem_view_def key_of_def)
  moreover from eq have "e \<noteq> RevCreate \<longrightarrow> e \<noteq> RevAny \<longrightarrow> (\<exists>y. mem_view m (key_of x) = Some (y, e))"
    by (cases ?cur) (auto simp: mem_view_def key_of_def split: if_splits)
  ultimately show ?thesis using x n by blast
qed

lemma mem_Put_total:
  assumes "x \<noteq> Object_Empty" and "valid_name (object_name x)"
    and "e = RevAny \<or> e = RevCreate \<and> mem_view m (key_of x) = None
        \<or> 0 < e \<and> (\<exists>y. mem_view m (key_of x) = Some (y, e))"
  shows "\<exists>v. fst (mem_Put now x e m) = Inr v"
  using assms(3) unfolding mem_Put_eq [OF assms(1,2)]
  by (auto simp: Let_def mem_view_def key_of_def mem_commit_def RevCreate_def RevAny_def
      split: prod.splits)

lemma mem_Delete_cases:
  assumes "mem_Delete k n m = (r, m')"
  shows "(\<exists>f. r = Inl f \<and> m' = m) \<or> (r = Inr () \<and> (\<exists>c. Canonical k = Some c \<and> mem_view m (c, n) \<noteq> None \<and>
    m' = set_bucket c (fmdrop n (mem_objs m c)) (m\<lparr>mem_rev := mem_rev m + 1\<rparr>)))"
  using assms by (auto simp: mem_Delete_def bucket_def mem_view_def split: option.splits if_splits)

lemma mem_DeleteIf_cases:
  assumes "mem_DeleteIfRevision k n e m = (r, m')"
  shows "(\<exists>f. r = Inl f \<and> m' = m) \<or> (r = Inr () \<and> 0 < e \<and> (\<exists>c x. Canonical k = Some c \<and>
    mem_view m (c, n) = Some (x, e) \<and>
    m' = set_bucket c (fmdrop n (mem_objs m c)) (m\<lparr>mem_rev := mem_rev m + 1\<rparr>)))"
  using assms
  by (auto simp: mem_DeleteIfRevision_def bucket_def mem_view_def split: option.splits if_splits)

lemma mem_view_ok:
  assumes "mem_ok m" and "mem_view m (k, n) = Some (x, v)"
  shows "0 < v \<and> v \<le> mem_rev m \<and> KindOf x = k \<and> object_name x = n \<and>
    m_resourceVersion (MetaOf x) = v \<and> valid_name n"
proof -
  from assms(2) obtain e where "fmlookup (mem_objs m k) n = Some e" "x = read_entry e" "v = e_rev e"
    by (auto simp: mem_view_def)
  with mem_ok_entry [OF assms(1)] show ?thesis by (fastforce simp: entry_ok_def key_of_def)
qed

lemma set_bucket_rev [simp]: "mem_rev (set_bucket c b m) = mem_rev m"
  by (simp add: set_bucket_def)

lemmas mem_op_cases = mem_Get_cases mem_List_cases mem_Delete_cases mem_DeleteIf_cases

interpretation mem: reliable_store "memory_store now" mem_view mem_rev mem_ok
proof (unfold_locales, unfold memory_store_def Store.simps, goal_cases)
  case (1 s k n x v)
  then show ?case by (rule mem_view_ok)
next
  case (2 s k n rg s')
  with mem_Get_cases [of k n s rg s'] show ?case by simp
next
  case (3 s k n x v s')
  with mem_Get_cases [of k n s "Inr (x, v)" s'] show ?case
    by (auto split: option.splits if_splits)
next
  case (4 s k n s')
  with mem_Get_cases [of k n s "Inl ErrNotFound" s'] show ?case
    by (auto split: option.splits if_splits)
next
  case (5 s k rl s')
  with mem_List_cases [of k s rl s'] show ?case by simp
next
  case (6 s k xs v s')
  with mem_List_cases [of k s "Inr (xs, v)" s'] obtain c where "Canonical k = Some c"
    "v = mem_rev s" "xs = map (\<lambda>n. read_entry (the (fmlookup (mem_objs s c) n))) (sorted_keys (mem_objs s c))"
    by (auto split: option.splits)
  with mem_listing [OF 6(1), of c] show ?case
    by (simp only: strict_sorted_iff sorted_sorted_keys distinct_sorted_keys) auto
next
  case (7 s x e v s')
  with mem_Put_done [OF 7] obtain mm where mm: "x \<noteq> Object_Empty" "valid_name (object_name x)"
    "stamp_of (MetaOf x\<lparr>m_resourceVersion := 0\<rparr>) s mm"
    "mem_commit (KindOf x) (object_name x) x mm = (Inr v, s')" by blast
  from mem_commit_ok [OF 7(1) mm] mem_Put_done [OF 7] show ?case by simp
next
  case (8 s x e f s')
  then show ?case by (auto dest: mem_Put_refused)
next
  case (9 s k n u s')
  with mem_Delete_cases [of k n s "Inr u" s'] show ?case
    by (auto simp: mem_drop_ok mem_drop_view)
next
  case (10 s k n f s')
  with mem_Delete_cases [of k n s "Inl f" s'] show ?case by auto
next
  case (11 s k n e u s')
  with mem_DeleteIf_cases [of k n e s "Inr u" s'] show ?case
    by (auto simp: mem_drop_ok mem_drop_view)
next
  case (12 s k n e f s')
  with mem_DeleteIf_cases [of k n e s "Inl f" s'] show ?case by auto
next
  case (13 s k n)
  with mem_Get_cases [of k n s] show ?case
    by (cases "mem_Get k n s") (auto simp: Canonical_kind split: option.splits)
next
  case (14 s k)
  with mem_List_cases [of k s] show ?case
    by (cases "mem_List k s") (auto simp: Canonical_kind)
next
  case (15 s x e)
  then show ?case by (intro mem_Put_total)
next
  case (16 s k n)
  then obtain x v where "mem_view s (k, n) = Some (x, v)" by force
  with mem_view_ok [OF 16(1)] have "checkName n = None" by simp
  with 16 show ?case
    by (simp add: mem_Delete_def bucket_def Canonical_kind mem_view_def del: checkName_None)
next
  case (17 s k n x e)
  from mem_view_ok [OF 17(1,3)] have "checkName n = None" "0 < e" by simp_all
  with 17 show ?case
    by (auto simp: mem_DeleteIfRevision_def bucket_def Canonical_kind mem_view_def
        simp del: checkName_None)
qed

subsection \<open>Listing the in-memory store\<close>

lemma mem_lists:
  assumes "k \<in> set Kinds"
  shows "\<exists>xs. st_List (memory_store now) k m = (Inr (xs, mem_rev m), m)"
proof -
  obtain r m' where r: "mem_List k m = (r, m')" by fastforce
  from mem_List_cases [OF r] Canonical_kind [OF assms] r show ?thesis by (auto simp: memory_store_def)
qed

text \<open>The names of a listing are the names of the view.\<close>

lemma mem_listed_names:
  assumes "mem_ok m" and "k \<in> set Kinds" and "st_List (memory_store now) k m = (Inr (xs, r), m)"
  shows "object_name ` set xs = {n. mem_view m (k, n) \<noteq> None}" and "distinct (map object_name xs)"
proof -
  note l = mem.listed_view [OF assms(1,3,2)]
  show "object_name ` set xs = {n. mem_view m (k, n) \<noteq> None}"
  proof (intro set_eqI iffI)
    fix n assume "n \<in> object_name ` set xs"
    then show "n \<in> {n. mem_view m (k, n) \<noteq> None}" using l(1) by auto
  next
    fix n assume "n \<in> {n. mem_view m (k, n) \<noteq> None}"
    then obtain x v where x: "mem_view m (k, n) = Some (x, v)" by auto
    from mem_view_ok [OF assms(1) x] x l(1) [of x] show "n \<in> object_name ` set xs" by auto
  qed
  show "distinct (map object_name xs)" by (rule l(2))
qed

subsection \<open>Properties\<close>

lemma mem_view_unique:
  assumes "mem_ok m" "mem_view m q = Some (x, v)" "mem_view m q' = Some (x', v)"
  shows "q' = q \<and> x' = x"
proof -
  from assms(2,3) obtain e e' where "fmlookup (mem_objs m (fst q)) (snd q) = Some e"
    "fmlookup (mem_objs m (fst q')) (snd q') = Some e'" "e_rev e = e_rev e'"
    by (auto simp: mem_view_def)
  from mem_ok_unique [OF assms(1) this] have "q' = q" by simp
  with assms(2,3) show ?thesis by simp
qed

lemma mem_reachable_ok: "mem_ok (run_ops (memory_store now) ops mem_New)"
  using mem.run_ops_aged [OF mem_ok_New] by (simp add: mem.aged_def)

text \<open>
  C4. No lost update. A caller reads an object of any reachable store and gets revision \<open>v\<close>; any
  operations of other callers follow; if a write of the same object at expected revision \<open>v\<close>
  then succeeds, the store still held exactly the object that was read, and the write replaced
  that entry alone, at a larger revision.
\<close>

theorem Put_no_lost_update:
  assumes "st_Get (memory_store now) k n (run_ops (memory_store now) before mem_New) = (Inr (x, v), m1)"
    and "st_Put (memory_store now) y v (run_ops (memory_store now) others m1) = (Inr w, m2)"
    and "key_of y = (KindOf x, n)"
  shows "mem_view (run_ops (memory_store now) others m1) (KindOf x, n) = Some (x, v) \<and> v < w \<and>
    (\<exists>y'. stamped y w y' \<and>
       mem_view m2 = (mem_view (run_ops (memory_store now) others m1))((KindOf x, n) \<mapsto> (y', w)))"
  by (rule mem.cas_no_lost_update [OF mem_reachable_ok assms])

definition sample_service :: "string \<Rightarrow> Object" where
  "sample_service n = Object_Service \<lparr>s_meta = Some (zero_Meta\<lparr>m_name := n\<rparr>),
     s_spec = Some (zero_ServiceSpec\<lparr>ss_port := 80\<rparr>)\<rparr>"

abbreviation sample_put :: "string \<Rightarrow> int \<Rightarrow> Op" where
  "sample_put n r \<equiv> OpPut (sample_service n) r"

lemma Put_no_lost_update_witness:
  "\<exists>m1 m2 x. st_Get (memory_store 7) ''services'' ''web''
      (run_ops (memory_store 7) [sample_put ''web'' 0] mem_New) = (Inr (x, 1), m1) \<and>
    st_Put (memory_store 7) (sample_service ''web'') 1
      (run_ops (memory_store 7) [sample_put ''db'' 0] m1) = (Inr 3, m2) \<and>
    mem_view (run_ops (memory_store 7) [sample_put ''db'' 0] m1) (KindOf x, ''web'') = Some (x, 1)"
proof -
  define m0 where "m0 = run_ops (memory_store 7) [sample_put ''web'' 0] mem_New"
  define x where "x = fst (projr (fst (st_Get (memory_store 7) ''services'' ''web'' m0)))"
  define m1 where "m1 = snd (st_Get (memory_store 7) ''services'' ''web'' m0)"
  define t where "t = run_ops (memory_store 7) [sample_put ''db'' 0] m1"
  define m2 where "m2 = snd (st_Put (memory_store 7) (sample_service ''web'') 1 t)"
  have "case fst (st_Get (memory_store 7) ''services'' ''web'' m0) of Inr (y, v) \<Rightarrow> v = 1 | _ \<Rightarrow> False"
    unfolding m0_def by code_simp
  then have g: "st_Get (memory_store 7) ''services'' ''web'' m0 = (Inr (x, 1), m1)"
    unfolding x_def m1_def by (auto split: sum.splits prod.splits simp: prod_eq_iff)
  have "fst (st_Put (memory_store 7) (sample_service ''web'') 1 t) = Inr 3"
    unfolding t_def m1_def m0_def by code_simp
  then have p: "st_Put (memory_store 7) (sample_service ''web'') 1 t = (Inr 3, m2)"
    unfolding m2_def by (simp add: prod_eq_iff)
  have k: "key_of (sample_service ''web'') = (KindOf x, ''web'')"
    unfolding x_def m0_def by code_simp
  from Put_no_lost_update [OF g [unfolded m0_def] p [unfolded t_def] k] g p show ?thesis
    unfolding t_def m0_def by blast
qed

text \<open>
  C5. In every reachable store a revision names one object: two entries with equal revisions are
  the same entry, every revision lies between 1 and the store's counter, and an entry stands
  under the kind and name of the object it holds, with its revision as resource version.
\<close>

theorem revisions_identify_objects:
  assumes "mem_view (run_ops (memory_store now) ops mem_New) q = Some (x, v)"
  shows "1 \<le> v \<and> v \<le> mem_rev (run_ops (memory_store now) ops mem_New) \<and>
    q = key_of x \<and> m_resourceVersion (MetaOf x) = v \<and>
    (\<forall>q' x'. mem_view (run_ops (memory_store now) ops mem_New) q' = Some (x', v) \<longrightarrow> q' = q \<and> x' = x)"
proof -
  let ?m = "run_ops (memory_store now) ops mem_New"
  have "q' = q \<and> x' = x" if "mem_view ?m q' = Some (x', v)" for q' x'
    by (rule mem_view_unique [OF mem_reachable_ok assms that])
  moreover from assms
  have "1 \<le> v \<and> v \<le> mem_rev ?m \<and> q = key_of x \<and> m_resourceVersion (MetaOf x) = v"
    using mem_view_ok [OF mem_reachable_ok, of now ops "fst q" "snd q" x v]
    by (simp add: key_of_def prod_eq_iff)
  ultimately show ?thesis by blast
qed

lemma revisions_identify_objects_witness:
  "\<exists>x. mem_view (run_ops (memory_store 7) [sample_put ''web'' 0, sample_put ''db'' 0] mem_New)
      (''Service'', ''db'') = Some (x, 2) \<and> m_resourceVersion (MetaOf x) = 2"
proof -
  let ?m = "run_ops (memory_store 7) [sample_put ''web'' 0, sample_put ''db'' 0] mem_New"
  have "map_option snd (mem_view ?m (''Service'', ''db'')) = Some 2" by code_simp
  then obtain x where "mem_view ?m (''Service'', ''db'') = Some (x, 2)" by auto
  with revisions_identify_objects [OF this] show ?thesis by blast
qed

text \<open>
  C6. A pinned delete removes only what was read: if an object was read at revision \<open>v\<close> and, after
  any operations of other callers, a delete of its name pinned to \<open>v\<close> succeeds, then the entry
  removed is the object that was read (never one rewritten or recreated since), and nothing
  else changes.
\<close>

theorem DeleteIfRevision_pinned:
  assumes "st_Get (memory_store now) k n (run_ops (memory_store now) before mem_New) = (Inr (x, v), m1)"
    and "st_DeleteIfRevision (memory_store now) k n v (run_ops (memory_store now) others m1) = (Inr u, m2)"
  shows "mem_view (run_ops (memory_store now) others m1) (KindOf x, n) = Some (x, v) \<and>
    mem_view m2 = (mem_view (run_ops (memory_store now) others m1))((KindOf x, n) := None)"
  by (rule mem.pinned_delete_hits_what_was_read [OF mem_reachable_ok assms])

lemma DeleteIfRevision_pinned_witness:
  "\<exists>m1 m2 x. st_Get (memory_store 7) ''Service'' ''web''
      (run_ops (memory_store 7) [sample_put ''web'' 0] mem_New) = (Inr (x, 1), m1) \<and>
    mem_view (run_ops (memory_store 7) [sample_put ''db'' 0] m1) (''Service'', ''web'') = Some (x, 1) \<and>
    mem_view m2 (''Service'', ''web'') = None"
proof -
  define m0 where "m0 = run_ops (memory_store 7) [sample_put ''web'' 0] mem_New"
  define x where "x = fst (projr (fst (st_Get (memory_store 7) ''Service'' ''web'' m0)))"
  define m1 where "m1 = snd (st_Get (memory_store 7) ''Service'' ''web'' m0)"
  define t where "t = run_ops (memory_store 7) [sample_put ''db'' 0] m1"
  define m2 where "m2 = snd (st_DeleteIfRevision (memory_store 7) ''Service'' ''web'' 1 t)"
  have "case fst (st_Get (memory_store 7) ''Service'' ''web'' m0) of Inr (y, v) \<Rightarrow> v = 1 | _ \<Rightarrow> False"
    unfolding m0_def by code_simp
  then have g: "st_Get (memory_store 7) ''Service'' ''web'' m0 = (Inr (x, 1), m1)"
    unfolding x_def m1_def by (auto split: sum.splits prod.splits simp: prod_eq_iff)
  have "fst (st_DeleteIfRevision (memory_store 7) ''Service'' ''web'' 1 t) = Inr ()"
    unfolding t_def m1_def m0_def by code_simp
  then have d: "st_DeleteIfRevision (memory_store 7) ''Service'' ''web'' 1 t = (Inr (), m2)"
    unfolding m2_def by (simp add: prod_eq_iff)
  have k: "KindOf x = ''Service''"
    unfolding x_def m0_def by code_simp
  from DeleteIfRevision_pinned [OF g [unfolded m0_def] d [unfolded t_def]] g k show ?thesis
    unfolding m0_def by (intro exI [of _ m1] exI [of _ m2] exI [of _ x]) simp
qed

end
