(* ===== verification/Klite_Scheduler.thy ===== *)
theory Klite_Scheduler
  imports Klite_Store
begin

text \<open>
  The scheduler of \<open>src/internal/controller/scheduler.go\<close>: one reconcile pass lists instances,
  nodes and workloads, and binds each unbound instance with \<open>pickNode\<close> or records why nothing
  fits. \<open>counts\<close> and \<open>pins\<close> are the maps of the code (a missing key reads as the zero value).
  Writing through a nil \<open>inst.Spec\<close> panics, which is the outcome \<open>Panics\<close>. The lemmas show what
  \<open>pickNode\<close> picks and that a pass never takes a node over its capacity.
\<close>

datatype outcome = Returns "StoreErr list" | Panics

definition errlist :: "StoreErr option \<Rightarrow> StoreErr list" where
  "errlist e = (case e of None \<Rightarrow> [] | Some x \<Rightarrow> [x])"

definition MsgNoCapacity :: string where
  "MsgNoCapacity = ''no ready schedulable node with free capacity''"

definition node_name :: "Node \<Rightarrow> string" where
  "node_name n = m_name (n_Meta n)"

definition inst_node :: "Object \<Rightarrow> string" where
  "inst_node o' = is_node (i_Spec (GetInstance o'))"

subsection \<open>pickNode\<close>

fun pickNode_loop ::
    "string \<Rightarrow> (string \<Rightarrow> int) \<Rightarrow> Node list \<Rightarrow> Node option \<Rightarrow> int \<Rightarrow> Node option" where
  "pickNode_loop pin counts [] best bestCount = best"
| "pickNode_loop pin counts (n # ns) best bestCount =
     (let name = node_name n in
      if pin \<noteq> [] \<and> name \<noteq> pin then pickNode_loop pin counts ns best bestCount
      else if nst_phase (n_Status n) \<noteq> NODE_PHASE_READY then pickNode_loop pin counts ns best bestCount
      else if nst_unschedulable (n_Status n) then pickNode_loop pin counts ns best bestCount
      else if counts name \<ge> ns_maxInstances (n_Spec n) then pickNode_loop pin counts ns best bestCount
      else if best = None \<or> counts name < bestCount
             \<or> (counts name = bestCount \<and> name < node_name (the best))
        then pickNode_loop pin counts ns (Some n) (counts name)
      else pickNode_loop pin counts ns best bestCount)"

definition pickNode :: "string \<Rightarrow> Node list \<Rightarrow> (string \<Rightarrow> int) \<Rightarrow> string \<times> string" where
  "pickNode pin nodes counts = (case pickNode_loop pin counts nodes None 0 of
     None \<Rightarrow> if pin \<noteq> [] then ([], ''pinned node '' @ [CHR 0x22] @ pin @ [CHR 0x22] @ '' is not schedulable'')
             else ([], MsgNoCapacity)
   | Some best \<Rightarrow> (node_name best, []))"

subsection \<open>bind and explainPending\<close>

text \<open>\<open>None\<close> is the panic on a nil \<open>inst.Spec\<close>; otherwise the error returned and the new store.\<close>

definition sched_bind ::
    "'s Store \<Rightarrow> Object \<Rightarrow> string \<Rightarrow> 's \<Rightarrow> (StoreErr option \<times> 's) option" where
  "sched_bind S obj node s = (case obj of
     Object_Instance inst \<Rightarrow>
       (case i_spec inst of
          None \<Rightarrow> None
        | Some spec \<Rightarrow>
          (let status = (case i_status inst of
                 None \<Rightarrow> zero_InstanceStatus\<lparr>ist_phase := INSTANCE_PHASE_PENDING\<rparr>
               | Some st \<Rightarrow> st);
               inst1 = inst\<lparr>i_spec := Some (spec\<lparr>is_node := node\<rparr>),
                            i_status := Some (status\<lparr>ist_message := []\<rparr>)\<rparr>
           in case st_Put S (Object_Instance inst1) (m_resourceVersion (i_Meta inst)) s of
                (Inl ErrConflict, s') \<Rightarrow> Some (None, s')
              | (Inl err, s') \<Rightarrow> Some (Some err, s')
              | (Inr _, s') \<Rightarrow> Some (None, s')))
   | _ \<Rightarrow> None)"

definition explainPending :: "'s Store \<Rightarrow> Object \<Rightarrow> string \<Rightarrow> 's \<Rightarrow> StoreErr option \<times> 's" where
  "explainPending S obj reason s =
     (let inst = GetInstance obj; cur = i_Status inst in
      if ist_message cur = reason \<and> ist_phase cur = INSTANCE_PHASE_PENDING then (None, s)
      else
        (let inst1 = inst\<lparr>i_status := Some (cur\<lparr>ist_phase := INSTANCE_PHASE_PENDING,
                                                ist_message := reason\<rparr>)\<rparr>
         in case st_Put S (Object_Instance inst1) (m_resourceVersion (i_Meta inst)) s of
              (Inl ErrConflict, s') \<Rightarrow> (None, s')
            | (Inl err, s') \<Rightarrow> (Some err, s')
            | (Inr _, s') \<Rightarrow> (None, s')))"

subsection \<open>reconcile\<close>

fun countInstances :: "Object list \<Rightarrow> (string \<Rightarrow> int) \<Rightarrow> Object list \<Rightarrow> (string \<Rightarrow> int) \<times> Object list" where
  "countInstances [] counts pending = (counts, pending)"
| "countInstances (o' # os) counts pending =
     (let n = inst_node o' in
      if n \<noteq> [] then countInstances os (counts(n := counts n + 1)) pending
      else countInstances os counts (pending @ [o']))"

fun collectPins :: "Object list \<Rightarrow> (string \<Rightarrow> string) \<Rightarrow> (string \<Rightarrow> string)" where
  "collectPins [] pins = pins"
| "collectPins (o' # os) pins =
     (let w = GetWorkload o'; pin = ws_nodeName (w_Spec w) in
      collectPins os (if pin \<noteq> [] then pins(m_name (w_Meta w) := pin) else pins))"

fun sched_loop ::
    "'s Store \<Rightarrow> (string \<Rightarrow> string) \<Rightarrow> Node list \<Rightarrow> (string \<Rightarrow> int) \<Rightarrow> StoreErr list \<Rightarrow>
     Object list \<Rightarrow> 's \<Rightarrow> outcome \<times> 's" where
  "sched_loop S pins nodes counts errs [] s = (Returns errs, s)"
| "sched_loop S pins nodes counts errs (o' # os) s =
     (let (nodeName, reason) = pickNode (pins (is_workload (i_Spec (GetInstance o')))) nodes counts in
      if nodeName = [] then
        (let (err, s') = explainPending S o' reason s
         in sched_loop S pins nodes counts (errs @ errlist err) os s')
      else
        (case sched_bind S o' nodeName s of
           None \<Rightarrow> (Panics, s)
         | Some (Some err, s') \<Rightarrow> sched_loop S pins nodes counts (errs @ [err]) os s'
         | Some (None, s') \<Rightarrow>
             sched_loop S pins nodes (counts(nodeName := counts nodeName + 1)) errs os s'))"

definition sched_reconcile :: "'s Store \<Rightarrow> 's \<Rightarrow> outcome \<times> 's" where
  "sched_reconcile S s0 = (case st_List S KindInstance s0 of
     (Inl err, s1) \<Rightarrow> (Returns [err], s1)
   | (Inr (instObjs, _), s1) \<Rightarrow>
     (case st_List S KindNode s1 of
        (Inl err, s2) \<Rightarrow> (Returns [err], s2)
      | (Inr (nodeObjs, _), s2) \<Rightarrow>
        (case st_List S KindWorkload s2 of
           (Inl err, s3) \<Rightarrow> (Returns [err], s3)
         | (Inr (wlObjs, _), s3) \<Rightarrow>
           (let (counts, pending) = countInstances instObjs (\<lambda>_. 0) [];
                pins = collectPins wlObjs (\<lambda>_. []);
                nodes = map GetNode nodeObjs
            in sched_loop S pins nodes counts [] pending s3))))"

subsection \<open>What pickNode picks\<close>

definition schedulable :: "string \<Rightarrow> (string \<Rightarrow> int) \<Rightarrow> Node \<Rightarrow> bool" where
  "schedulable pin counts n \<longleftrightarrow> (pin = [] \<or> node_name n = pin) \<and>
     nst_phase (n_Status n) = NODE_PHASE_READY \<and> \<not> nst_unschedulable (n_Status n) \<and>
     counts (node_name n) < ns_maxInstances (n_Spec n)"

definition prefers :: "(string \<Rightarrow> int) \<Rightarrow> Node \<Rightarrow> Node \<Rightarrow> bool" where
  "prefers counts a b \<longleftrightarrow> counts (node_name a) < counts (node_name b) \<or>
     counts (node_name a) = counts (node_name b) \<and> node_name a \<le> node_name b"

definition better :: "(string \<Rightarrow> int) \<Rightarrow> Node \<Rightarrow> Node option \<Rightarrow> int \<Rightarrow> bool" where
  "better counts n best bc \<longleftrightarrow> best = None \<or> counts (node_name n) < bc \<or>
     (counts (node_name n) = bc \<and> node_name n < node_name (the best))"

lemma pickNode_loop_Cons:
  "pickNode_loop pin counts (n # ns) best bc =
    (if schedulable pin counts n \<and> better counts n best bc
     then pickNode_loop pin counts ns (Some n) (counts (node_name n))
     else pickNode_loop pin counts ns best bc)"
  by (cases "schedulable pin counts n")
    (simp_all add: schedulable_def better_def Let_def not_le, blast)

declare pickNode_loop.simps(2) [simp del]

lemma pickNode_loop_None_iff:
  "pickNode_loop pin counts ns best bc = None \<longleftrightarrow>
     best = None \<and> (\<forall>n \<in> set ns. \<not> schedulable pin counts n)"
  by (induction ns arbitrary: best bc) (auto simp: pickNode_loop_Cons better_def)

lemma prefers_refl: "prefers counts a a"
  by (simp add: prefers_def)

lemma prefers_trans: "prefers counts a b \<Longrightarrow> prefers counts b c \<Longrightarrow> prefers counts a c"
  unfolding prefers_def by (elim disjE conjE) simp_all

lemma pickNode_loop_best:
  assumes "pickNode_loop pin counts ns best bc = Some r"
    and "\<forall>b. best = Some b \<longrightarrow> bc = counts (node_name b)"
  shows "(best = Some r \<or> r \<in> set ns \<and> schedulable pin counts r) \<and>
    (\<forall>b. best = Some b \<longrightarrow> prefers counts r b) \<and>
    (\<forall>n \<in> set ns. schedulable pin counts n \<longrightarrow> prefers counts r n)"
  using assms
proof (induction ns arbitrary: best bc)
  case Nil
  then show ?case by (simp add: prefers_refl)
next
  case (Cons n ns)
  show ?case
  proof (cases "schedulable pin counts n \<and> better counts n best bc")
    case True
    with Cons.prems(1) have "pickNode_loop pin counts ns (Some n) (counts (node_name n)) = Some r"
      by (simp add: pickNode_loop_Cons)
    from Cons.IH [OF this] have IH: "n = r \<or> r \<in> set ns \<and> schedulable pin counts r"
        "prefers counts r n" "\<forall>m \<in> set ns. schedulable pin counts m \<longrightarrow> prefers counts r m"
      by simp_all
    moreover have "prefers counts n b" if "best = Some b" for b
      using True Cons.prems(2) that by (auto simp: prefers_def better_def)
    ultimately show ?thesis using True by (auto intro: prefers_trans)
  next
    case False
    with Cons.prems(1) have "pickNode_loop pin counts ns best bc = Some r"
      by (simp add: pickNode_loop_Cons)
    note IH = Cons.IH [OF this Cons.prems(2)]
    have "prefers counts r n" if "schedulable pin counts n"
    proof -
      from that False obtain b where b: "best = Some b" "\<not> better counts n best bc"
        by (auto simp: better_def)
      with Cons.prems(2) have "prefers counts b n" by (auto simp: prefers_def better_def)
      with IH b(1) show ?thesis by (blast intro: prefers_trans)
    qed
    with IH show ?thesis by auto
  qed
qed

lemma pickNode_picks:
  assumes "pickNode pin nodes counts = (name, reason)" and "name \<noteq> []"
  shows "\<exists>n \<in> set nodes. schedulable pin counts n \<and> node_name n = name \<and>
    (\<forall>m \<in> set nodes. schedulable pin counts m \<longrightarrow> prefers counts n m)"
proof -
  from assms obtain b where "pickNode_loop pin counts nodes None 0 = Some b" "node_name b = name"
    by (auto simp: pickNode_def split: option.splits if_splits)
  with pickNode_loop_best [of pin counts nodes None 0 b] show ?thesis by auto
qed

subsection \<open>A pass keeps every node within its capacity\<close>

text \<open>The names of the instances a store view holds bound to a node.\<close>

definition bound ::
    "(string \<times> string \<Rightarrow> (Object \<times> int) option) \<Rightarrow> string \<Rightarrow> string set" where
  "bound vw n = {nm. \<exists>x v. vw (KindInstance, nm) = Some (x, v) \<and> inst_node x = n}"

definition node_cap ::
    "(string \<times> string \<Rightarrow> (Object \<times> int) option) \<Rightarrow> string \<Rightarrow> int" where
  "node_cap vw n = (case vw (KindNode, n) of
     Some (Object_Node nd, _) \<Rightarrow>
       if nst_phase (n_Status nd) = NODE_PHASE_READY \<and> \<not> nst_unschedulable (n_Status nd)
       then ns_maxInstances (n_Spec nd) else 0
   | _ \<Rightarrow> 0)"

lemma inst_node_upd_Meta [simp]: "inst_node (upd_Meta f x) = inst_node x"
  by (cases x) (simp_all add: inst_node_def)

lemma inst_node_stamped: "stamped x v x' \<Longrightarrow> inst_node x' = inst_node x"
  by (auto simp: stamped_def)

lemma bound_put_subset:
  "n \<noteq> inst_node x \<Longrightarrow> bound (vw((KindInstance, nm) \<mapsto> (x, v))) n \<subseteq> bound vw n"
  by (auto simp: bound_def split: if_splits)

lemma bound_put_node:
  "bound (vw((KindInstance, nm) \<mapsto> (x, v))) n \<subseteq> insert nm (bound vw n)"
  by (auto simp: bound_def split: if_splits)

definition counted :: "(string \<times> string \<Rightarrow> (Object \<times> int) option) \<Rightarrow> (string \<Rightarrow> int) \<Rightarrow> bool" where
  "counted vw counts \<longleftrightarrow> (\<forall>n. n \<noteq> [] \<longrightarrow> finite (bound vw n) \<and> int (card (bound vw n)) \<le> counts n)"

lemma counted_put_same:
  assumes "counted vw counts" and "inst_node x = []"
  shows "counted (vw((KindInstance, nm) \<mapsto> (x, v))) counts"
  unfolding counted_def
proof (intro allI impI)
  fix n :: string assume n: "n \<noteq> []"
  with assms bound_put_subset [of n x vw nm v]
  have "finite (bound vw n)" "int (card (bound vw n)) \<le> counts n"
    "bound (vw((KindInstance, nm) \<mapsto> (x, v))) n \<subseteq> bound vw n"
    by (auto simp: counted_def)
  then show "finite (bound (vw((KindInstance, nm) \<mapsto> (x, v))) n) \<and>
      int (card (bound (vw((KindInstance, nm) \<mapsto> (x, v))) n)) \<le> counts n"
    using card_mono [of "bound vw n"] finite_subset by (metis of_nat_mono order_trans)
qed

lemma counted_put_bound:
  assumes "counted vw counts"
  shows "counted (vw((KindInstance, nm) \<mapsto> (x, v))) (counts(inst_node x := counts (inst_node x) + 1))"
  unfolding counted_def
proof (intro allI impI)
  fix n :: string assume n: "n \<noteq> []"
  let ?vw = "vw((KindInstance, nm) \<mapsto> (x, v))"
  from n assms have fin: "finite (bound vw n)" and le: "int (card (bound vw n)) \<le> counts n"
    by (auto simp: counted_def)
  have fin': "finite (bound ?vw n)"
    using finite_subset [OF bound_put_node] fin by simp
  moreover have "int (card (bound ?vw n)) \<le> (counts(inst_node x := counts (inst_node x) + 1)) n"
  proof (cases "n = inst_node x")
    case True
    have "card (bound ?vw n) \<le> card (insert nm (bound vw n))"
      using fin by (intro card_mono bound_put_node) simp
    also have "\<dots> \<le> card (bound vw n) + 1"
      using fin by (simp add: card_insert_if)
    finally show ?thesis using le True by simp
  next
    case False
    with fin have "card (bound ?vw n) \<le> card (bound vw n)"
      by (intro card_mono bound_put_subset)
    with le False show ?thesis by simp
  qed
  ultimately show "finite (bound ?vw n) \<and>
      int (card (bound ?vw n)) \<le> (counts(inst_node x := counts (inst_node x) + 1)) n" by blast
qed

lemma counted_mono: "counted vw counts \<Longrightarrow> counted vw (counts(n := counts n + 1))"
  by (auto simp: counted_def)

text \<open>What one binding or one explanation may do to the view: nothing, or one instance entry.\<close>

definition put_inst :: "('k \<rightharpoonup> Object \<times> int) \<Rightarrow> 'k \<Rightarrow> ('k \<rightharpoonup> Object \<times> int) \<Rightarrow> string \<Rightarrow> bool" where
  "put_inst vw q vw' node \<longleftrightarrow> vw' = vw \<or> (\<exists>x v. vw' = vw(q \<mapsto> (x, v)) \<and> inst_node x = node)"

context store_contract
begin

lemma put_inst_view:
  assumes "ok s" and "st_Put S (Object_Instance i) e s = (r, s')"
  shows "ok s' \<and> put_inst (view s) (KindInstance, m_name (i_Meta i)) (view s') (is_node (i_Spec i)) \<and>
    (\<forall>f. r = Inl f \<longrightarrow> view s' = view s)"
proof (cases r)
  case (Inl f)
  with put_refused [OF assms(1)] assms(2) show ?thesis by (auto simp: put_inst_def)
next
  case (Inr v)
  with put_done [OF assms(1), of "Object_Instance i" e v s'] assms(2)
  obtain x' where x': "ok s'" "stamped (Object_Instance i) v x'"
    "view s' = (view s)((KindInstance, m_name (i_Meta i)) \<mapsto> (x', v))"
    by (auto simp: key_of_def object_name_def)
  from inst_node_stamped [OF x'(2)] have "inst_node x' = is_node (i_Spec i)"
    by (simp add: inst_node_def)
  with x' Inr show ?thesis by (auto simp: put_inst_def)
qed

lemma sched_bind_view:
  assumes "ok s" and "sched_bind S obj node s = Some (e, s')"
  shows "ok s' \<and> (\<exists>nm. put_inst (view s) (KindInstance, nm) (view s') node) \<and>
    (e \<noteq> None \<longrightarrow> view s' = view s)"
proof -
  from assms(2) obtain inst spec where obj: "obj = Object_Instance inst" "i_spec inst = Some spec"
    by (auto simp: sched_bind_def split: Object.splits option.splits)
  define st where "st = (case i_status inst of
      None \<Rightarrow> zero_InstanceStatus\<lparr>ist_phase := INSTANCE_PHASE_PENDING\<rparr> | Some st \<Rightarrow> st)"
  define i1 where "i1 = inst\<lparr>i_spec := Some (spec\<lparr>is_node := node\<rparr>),
      i_status := Some (st\<lparr>ist_message := []\<rparr>)\<rparr>"
  obtain r t where run: "st_Put S (Object_Instance i1) (m_resourceVersion (i_Meta inst)) s = (r, t)"
    by fastforce
  have eq: "sched_bind S obj node s = (case (r, t) of
       (Inl ErrConflict, s') \<Rightarrow> Some (None, s')
     | (Inl err, s') \<Rightarrow> Some (Some err, s')
     | (Inr _, s') \<Rightarrow> Some (None, s'))"
    unfolding run [symmetric] i1_def st_def sched_bind_def obj by (simp add: obj(2) Let_def)
  with assms(2) have "s' = t" "e \<noteq> None \<longrightarrow> (\<exists>f. r = Inl f)"
    by (auto split: sum.splits StoreErr.splits)
  with put_inst_view [OF assms(1) run] show ?thesis
    by (auto simp: i1_def)
qed

lemma explainPending_view:
  assumes "ok s" and "explainPending S obj reason s = (e, s')" and "inst_node obj = []"
  shows "ok s' \<and> (\<exists>nm. put_inst (view s) (KindInstance, nm) (view s') [])"
proof (cases "ist_message (i_Status (GetInstance obj)) = reason \<and>
    ist_phase (i_Status (GetInstance obj)) = INSTANCE_PHASE_PENDING")
  case True
  with assms show ?thesis by (auto simp: explainPending_def Let_def put_inst_def)
next
  case False
  define i1 where "i1 = (GetInstance obj)\<lparr>i_status := Some (i_Status (GetInstance obj)
      \<lparr>ist_phase := INSTANCE_PHASE_PENDING, ist_message := reason\<rparr>)\<rparr>"
  obtain r t where run: "st_Put S (Object_Instance i1)
      (m_resourceVersion (i_Meta (GetInstance obj))) s = (r, t)" by fastforce
  from False assms(2) have "s' = t"
    unfolding explainPending_def Let_def i1_def [symmetric] run
    by (auto split: sum.splits StoreErr.splits)
  with put_inst_view [OF assms(1) run] assms(3) show ?thesis
    by (auto simp: i1_def inst_node_def)
qed

end

lemma countInstances_eq:
  "countInstances os counts pend =
    ((\<lambda>n. if n = [] then counts n else counts n + int (length (filter (\<lambda>o'. inst_node o' = n) os))),
     pend @ filter (\<lambda>o'. inst_node o' = []) os)"
  by (induction os arbitrary: counts pend) (auto simp: fun_eq_iff Let_def)

context store_contract
begin

lemma listed_bound:
  assumes "ok s" and "st_List S KindInstance s = (Inr (xs, v), s')"
  shows "finite (bound (view s) n) \<and>
    card (bound (view s) n) = length (filter (\<lambda>o'. inst_node o' = n) xs)"
proof -
  note listed = listed_view [OF assms kinds_in(5)]
  let ?ys = "filter (\<lambda>o'. inst_node o' = n) xs"
  have "bound (view s) n = object_name ` set ?ys"
    using listed(1) view_ok [OF assms(1)] unfolding bound_def by fastforce
  moreover have "distinct (map object_name ?ys)"
    using listed(2) by (simp add: distinct_map_filter)
  ultimately show ?thesis
    using distinct_card [of "map object_name ?ys"] by simp
qed

lemma sched_loop_capacity:
  assumes "ok s" and "counted (view s) counts"
    and "\<forall>o' \<in> set os. inst_node o' = []"
    and "\<forall>nd \<in> set nodes. \<forall>pin cs. schedulable pin cs nd \<longrightarrow> ns_maxInstances (n_Spec nd) \<le> cap (node_name nd)"
    and "sched_loop S pins nodes counts errs os s = (r, s')"
  shows "ok s' \<and> counted (view s') (\<lambda>n. max (counts n) (cap n))"
  using assms
proof (induction os arbitrary: counts errs s)
  case Nil
  then have "s' = s" by simp
  with Nil show ?case by (force simp: counted_def)
next
  case (Cons obj os)
  obtain name reason where pick:
    "pickNode (pins (is_workload (i_Spec (GetInstance obj)))) nodes counts = (name, reason)"
    by fastforce
  note run = Cons.prems(5) [unfolded sched_loop.simps Let_def pick prod.case]
  from Cons.prems(3) have obj: "inst_node obj = []" and os: "\<forall>o' \<in> set os. inst_node o' = []"
    by simp_all
  note IH = Cons.IH [OF _ _ os Cons.prems(4)]
  show ?case
  proof (cases "name = []")
    case True
    obtain err t where exp: "explainPending S obj reason s = (err, t)" by fastforce
    from explainPending_view [OF Cons.prems(1) exp obj] Cons.prems(2)
    have "ok t" "counted (view t) counts"
      by (auto simp: put_inst_def counted_put_same)
    with IH run True exp show ?thesis by simp
  next
    case False
    from pickNode_picks [OF pick False] Cons.prems(4)
    have full: "counts name + 1 \<le> cap name" by (fastforce simp: schedulable_def)
    have grow: "(\<lambda>n. max ((counts(name := counts name + 1)) n) (cap n)) = (\<lambda>n. max (counts n) (cap n))"
      using full by (auto simp: fun_eq_iff)
    show ?thesis
    proof (cases "sched_bind S obj name s")
      case None
      with run False Cons.prems(1,2) show ?thesis by (force simp: counted_def)
    next
      case (Some et)
      obtain e t where et: "et = (e, t)" by fastforce
      note v = sched_bind_view [OF Cons.prems(1) Some [unfolded et]]
      show ?thesis
      proof (cases e)
        case None
        from v Cons.prems(2) have "ok t" "counted (view t) (counts(name := counts name + 1))"
          unfolding put_inst_def using counted_mono counted_put_bound by fastforce+
        moreover have "sched_loop S pins nodes (counts(name := counts name + 1)) errs os t = (r, s')"
          using run False Some et None by simp
        ultimately have "ok s' \<and> counted (view s')
            (\<lambda>n. max ((counts(name := counts name + 1)) n) (cap n))" by (rule IH)
        then show ?thesis unfolding grow .
      next
        case (Some f)
        with v have "ok t" "view t = view s" by auto
        with IH [of t counts] Cons.prems(2) run False \<open>sched_bind S obj name s = Some et\<close> et Some
        show ?thesis by simp
      qed
    qed
  qed
qed

end

context store_contract
begin

lemma sched_reconcile_capacity:
  assumes "ok s" and "sched_reconcile S s = (r, s')" and "n \<noteq> []"
    and "finite (bound (view s) n)"
  shows "ok s' \<and> int (card (bound (view s') n)) \<le> max (int (card (bound (view s) n))) (node_cap (view s) n)"
proof -
  obtain ri s1 where li: "st_List S KindInstance s = (ri, s1)" by fastforce
  obtain rn s2 where ln: "st_List S KindNode s1 = (rn, s2)" by fastforce
  obtain rw s3 where lw: "st_List S KindWorkload s2 = (rw, s3)" by fastforce
  from list_frame [OF assms(1) li] have s1: "ok s1" "view s1 = view s" by auto
  from list_frame [OF s1(1) ln] s1 have s2: "ok s2" "view s2 = view s" by auto
  from list_frame [OF s2(1) lw] s2 have s3: "ok s3" "view s3 = view s" by auto
  note run = assms(2) [unfolded sched_reconcile_def li prod.case]
  show ?thesis
  proof (cases "\<exists>is iv ns nv ws wv. ri = Inr (is, iv) \<and> rn = Inr (ns, nv) \<and> rw = Inr (ws, wv)")
    case False
    with run ln lw s1 s2 s3 have "ok s' \<and> view s' = view s"
      by (auto split: sum.splits prod.splits)
    then show ?thesis by simp
  next
    case True
    then obtain "is" iv ns nv ws wv where res: "ri = Inr (is, iv)" "rn = Inr (ns, nv)" "rw = Inr (ws, wv)"
      by blast
    define counts where "counts = fst (countInstances is (\<lambda>_. 0) [])"
    have loop: "sched_loop S (collectPins ws (\<lambda>_. [])) (map GetNode ns) counts []
        (filter (\<lambda>o'. inst_node o' = []) is) s3 = (r, s')"
      using run res ln lw by (simp add: countInstances_eq counts_def)
    have counts: "m \<noteq> [] \<Longrightarrow> finite (bound (view s) m) \<and> counts m = int (card (bound (view s) m))" for m
      using listed_bound [OF assms(1) li [unfolded res]] by (simp add: counts_def countInstances_eq)
    have cap: "\<forall>nd \<in> set (map GetNode ns). \<forall>pin cs. schedulable pin cs nd \<longrightarrow>
        ns_maxInstances (n_Spec nd) \<le> node_cap (view s) (node_name nd)"
    proof (intro ballI allI impI)
      fix nd pin cs assume nd: "nd \<in> set (map GetNode ns)" "schedulable pin cs nd"
      then obtain x where x: "x \<in> set ns" "nd = GetNode x" by auto
      with listed_entry [OF s1(1) ln [unfolded res] kinds_in(3), of x] s1(2)
      have vx: "view s (KindNode, object_name x) = Some (x, m_resourceVersion (MetaOf x))"
        "KindOf x = KindNode" by simp_all
      then obtain N where "x = Object_Node N"
        using Object_of_kind(2) by blast
      with vx x nd show "ns_maxInstances (n_Spec nd) \<le> node_cap (view s) (node_name nd)"
        by (simp add: node_cap_def schedulable_def node_name_def object_name_def)
    qed
    have "counted (view s3) counts" using counts s3(2) by (simp add: counted_def)
    from sched_loop_capacity [OF s3(1) this _ cap loop]
    have "ok s' \<and> counted (view s') (\<lambda>m. max (counts m) (node_cap (view s) m))" by simp
    with counts assms(3) show ?thesis by (auto simp: counted_def)
  qed
qed

end

lemma bound_mem_emptyI:
  assumes "list_all (\<lambda>nm. inst_node (fst (the (mem_view m (KindInstance, nm)))) \<noteq> n)
    (sorted_keys (mem_objs m KindInstance))"
  shows "bound (mem_view m) n = {}"
proof -
  have "False" if "mem_view m (KindInstance, nm) = Some (x, v)" "inst_node x = n" for nm x v
  proof -
    from that(1) have "nm \<in> fmdom' (mem_objs m KindInstance)"
      by (auto simp: mem_view_def fmlookup_dom'_iff)
    with assms that show False by (auto simp: list_all_iff)
  qed
  then show ?thesis by (auto simp: bound_def)
qed

lemma finite_bound_mem: "finite (bound (mem_view m) n)"
proof (rule finite_subset)
  show "bound (mem_view m) n \<subseteq> fmdom' (mem_objs m KindInstance)"
    by (auto simp: bound_def mem_view_def fmlookup_dom'_iff)
qed simp

text \<open>
  C7. \<open>pickNode\<close> returns the eligible node that runs the fewest instances, the smaller name
  breaking ties, and returns no node exactly when none is eligible (matching the pin, READY,
  not cordoned, below its capacity), with the reason that names the pin or the lack of capacity.
\<close>

theorem pickNode_optimal:
  "(case pickNode pin nodes counts of
     (name, reason) \<Rightarrow>
       if \<exists>n \<in> set nodes. schedulable pin counts n
       then reason = [] \<and> (\<exists>n \<in> set nodes. schedulable pin counts n \<and> node_name n = name \<and>
              (\<forall>m \<in> set nodes. schedulable pin counts m \<longrightarrow>
                 counts name < counts (node_name m) \<or>
                 counts name = counts (node_name m) \<and> name \<le> node_name m))
       else name = [] \<and> (pin = [] \<longrightarrow> reason = MsgNoCapacity) \<and> 
            (pin \<noteq> [] \<longrightarrow> reason = ''pinned node '' @ [CHR 0x22] @ pin @ [CHR 0x22] @ '' is not schedulable''))"
proof (cases "pickNode_loop pin counts nodes None 0")
  case None
  then have no: "\<forall>n \<in> set nodes. \<not> schedulable pin counts n"
    by (simp add: pickNode_loop_None_iff)
  with None show ?thesis by (auto simp: pickNode_def)
next
  case (Some b)
  with pickNode_loop_best [OF Some] have b: "b \<in> set nodes" "schedulable pin counts b"
    "\<forall>m \<in> set nodes. schedulable pin counts m \<longrightarrow> prefers counts b m" by auto
  then show ?thesis using Some by (auto simp: pickNode_def prefers_def)
qed

definition sample_node :: "string \<Rightarrow> int \<Rightarrow> Node" where
  "sample_node n k = \<lparr>n_meta = Some (zero_Meta\<lparr>m_name := n\<rparr>),
     n_spec = Some \<lparr>ns_maxInstances = k\<rparr>,
     n_status = Some (zero_NodeStatus\<lparr>nst_phase := NODE_PHASE_READY\<rparr>)\<rparr>"

lemma pickNode_optimal_witness:
  "pickNode [] [sample_node ''b'' 4, sample_node ''a'' 4, sample_node ''c'' 1] (\<lambda>_. 1) = (''a'', []) \<and>
   schedulable [] (\<lambda>_. 1) (sample_node ''a'' 4)"
proof -
  let ?ns = "[sample_node ''b'' 4, sample_node ''a'' 4, sample_node ''c'' 1]"
  from pickNode_optimal [where pin = "[]" and nodes = ?ns and counts = "\<lambda>_. 1"]
  have "schedulable [] (\<lambda>_. 1) (sample_node ''a'' 4) \<Longrightarrow> snd (pickNode [] ?ns (\<lambda>_. 1)) = []"
    by (simp split: prod.splits if_splits)
  moreover have "schedulable [] (\<lambda>_. 1) (sample_node ''a'' 4)" by code_simp
  moreover have "fst (pickNode [] ?ns (\<lambda>_. 1)) = ''a''" by code_simp
  ultimately show ?thesis by (simp add: prod_eq_iff)
qed

text \<open>
  C8. The scheduler never overcommits: whatever a reachable store holds, after one whole reconcile
  pass (returning or panicking midway) every node has at most the larger of the number of
  instances it already had and its capacity, the capacity of an unknown, cordoned or not READY
  node counting as zero.
\<close>

theorem sched_never_overcommits:
  assumes "sched_reconcile (memory_store now) (run_ops (memory_store now) ops mem_New) = (r, m')"
    and "n \<noteq> []"
  shows "int (card (bound (mem_view m') n)) \<le>
    max (int (card (bound (mem_view (run_ops (memory_store now) ops mem_New)) n)))
      (node_cap (mem_view (run_ops (memory_store now) ops mem_New)) n)"
  using mem.sched_reconcile_capacity [OF mem_reachable_ok assms finite_bound_mem] by simp

definition sample_instance :: "string \<Rightarrow> Object" where
  "sample_instance n = Object_Instance \<lparr>i_meta = Some (zero_Meta\<lparr>m_name := n\<rparr>),
     i_spec = Some (zero_InstanceSpec\<lparr>is_workload := ''web''\<rparr>), i_status = None\<rparr>"

lemma sched_never_overcommits_witness:
  "\<exists>r m'. sched_reconcile (memory_store 7) (run_ops (memory_store 7)
       [OpPut (Object_Node (sample_node ''n1'' 1)) 0, OpPut (sample_instance ''web-1'') 0,
        OpPut (sample_instance ''web-2'') 0] mem_New) = (r, m') \<and>
     int (card (bound (mem_view m') ''n1'')) \<le> 1"
proof -
  let ?m = "run_ops (memory_store 7)
       [OpPut (Object_Node (sample_node ''n1'' 1)) 0, OpPut (sample_instance ''web-1'') 0,
        OpPut (sample_instance ''web-2'') 0] mem_New"
  obtain r m' where run: "sched_reconcile (memory_store 7) ?m = (r, m')" by fastforce
  have "bound (mem_view ?m) ''n1'' = {}"
    by (rule bound_mem_emptyI) code_simp
  moreover have "node_cap (mem_view ?m) ''n1'' = 1" by code_simp
  ultimately show ?thesis
    using sched_never_overcommits [OF run, of "''n1''"] run by auto
qed

end
