(* ===== verification/Klite_NodeController.thy ===== *)
theory Klite_NodeController
  imports Klite_Scheduler
begin

text \<open>
  The node controller of \<open>src/internal/controller/node.go\<close>: silent nodes turn NOT_READY, are
  evacuated after a grace window, drains finish, pending deletions complete. Durations are
  nanoseconds in \<open>int64\<close> arithmetic (\<open>wrap64\<close>); \<open>now\<close> is the Unix time of the pass. The lemmas
  give the phase machine, and bound what a whole pass may delete: a node record only when its
  deletion is pending and no instance is left on it, an instance only when its node has been
  silent for longer than both windows.
\<close>

definition second :: int where "second = 1000000000"

definition heartbeatTimeout :: int where "heartbeatTimeout = 15 * second"
definition evacuateAfter :: int where "evacuateAfter = 30 * second"

lemmas duration_defs = second_def heartbeatTimeout_def evacuateAfter_def

definition phaseTransition :: "NodeStatus \<Rightarrow> int \<Rightarrow> int \<Rightarrow> bool \<Rightarrow> NodeStatus \<times> bool" where
  "phaseTransition st silence cnt pendingDelete =
     (let drainable = (nst_phase st = NODE_PHASE_READY \<or> nst_phase st = NODE_PHASE_DRAINING) in
      if silence > heartbeatTimeout \<and> drainable
        then (st\<lparr>nst_phase := NODE_PHASE_NOT_READY\<rparr>, True)
      else if pendingDelete \<and> (nst_phase st = NODE_PHASE_READY \<or> \<not> nst_unschedulable st)
        then (st\<lparr>nst_phase := NODE_PHASE_DRAINING, nst_unschedulable := True\<rparr>, True)
      else if nst_phase st = NODE_PHASE_DRAINING \<and> cnt = 0
        then (st\<lparr>nst_phase := NODE_PHASE_READY\<rparr>, True)
      else (st, False))"

fun evacuate :: "'s Store \<Rightarrow> string \<Rightarrow> Object list \<Rightarrow> StoreErr list \<Rightarrow> 's \<Rightarrow> StoreErr list \<times> 's" where
  "evacuate S node [] errs s = (errs, s)"
| "evacuate S node (o' # os) errs s =
     (if inst_node o' \<noteq> node then evacuate S node os errs s
      else
        (let inst = GetInstance o';
             name = m_name (i_Meta inst)
         in case st_DeleteIfRevision S KindInstance name (m_resourceVersion (i_Meta inst)) s of
              (Inl ErrNotFound, s') \<Rightarrow> evacuate S node os errs s'
            | (Inl ErrConflict, s') \<Rightarrow> evacuate S node os errs s'
            | (Inl err, s') \<Rightarrow> evacuate S node os (errs @ [err]) s'
            | (Inr _, s') \<Rightarrow> evacuate S node os errs s'))"

definition node_silence :: "int \<Rightarrow> NodeStatus \<Rightarrow> int" where
  "node_silence now st = (if nst_lastHeartbeatUnix st > 0
     then wrap64 (wrap64 (now - nst_lastHeartbeatUnix st) * second) else 0)"

definition pending_delete :: "Node \<Rightarrow> bool" where
  "pending_delete node \<longleftrightarrow> getm [] (fmlookup (m_labels (n_Meta node)) LabelPendingDelete) = ''true''"

text \<open>The status after the pass and whether it must be written.\<close>

definition nextStatus :: "NodeStatus \<Rightarrow> int \<Rightarrow> int \<Rightarrow> bool \<Rightarrow> NodeStatus \<times> bool" where
  "nextStatus st silence cnt pendingDelete =
     (let (st1, dirty) = phaseTransition st silence cnt pendingDelete
      in if wrap32 cnt \<noteq> nst_instanceCount st1
         then (st1\<lparr>nst_instanceCount := wrap32 cnt\<rparr>, True)
         else (st1, dirty))"

definition maybeEvacuate ::
    "'s Store \<Rightarrow> string \<Rightarrow> NodeStatus \<Rightarrow> int \<Rightarrow> Object list \<Rightarrow> 's \<Rightarrow> StoreErr list \<times> 's" where
  "maybeEvacuate S name st silence instObjs s =
     (if nst_phase st = NODE_PHASE_NOT_READY \<and> silence > heartbeatTimeout + evacuateAfter
      then evacuate S name instObjs [] s else ([], s))"

definition reconcileNode ::
    "'s Store \<Rightarrow> int \<Rightarrow> Object \<Rightarrow> int \<Rightarrow> Object list \<Rightarrow> 's \<Rightarrow> StoreErr list \<times> 's" where
  "reconcileNode S now obj cnt instObjs s =
     (let node = GetNode obj;
          name = node_name node;
          pendingDelete = pending_delete node;
          rev = m_resourceVersion (n_Meta node) in
      if pendingDelete \<and> cnt = 0 then
        (case st_DeleteIfRevision S KindNode name rev s of
           (Inl ErrNotFound, s') \<Rightarrow> ([], s')
         | (Inl ErrConflict, s') \<Rightarrow> ([], s')
         | (Inl err, s') \<Rightarrow> ([err], s')
         | (Inr _, s') \<Rightarrow> ([], s'))
      else
        (let silence = node_silence now (n_Status node);
             (st, dirty) = nextStatus (n_Status node) silence cnt pendingDelete
         in if dirty then
              (case st_Put S (Object_Node (node\<lparr>n_status := Some st\<rparr>)) rev s of
                 (Inl ErrConflict, s') \<Rightarrow> maybeEvacuate S name st silence instObjs s'
               | (Inl err, s') \<Rightarrow> ([err], s')
               | (Inr _, s') \<Rightarrow> maybeEvacuate S name st silence instObjs s')
            else maybeEvacuate S name st silence instObjs s))"

fun reconcileNodes ::
    "'s Store \<Rightarrow> int \<Rightarrow> (string \<Rightarrow> int) \<Rightarrow> Object list \<Rightarrow> Object list \<Rightarrow> StoreErr list \<Rightarrow> 's \<Rightarrow>
     StoreErr list \<times> 's" where
  "reconcileNodes S now counts instObjs [] errs s = (errs, s)"
| "reconcileNodes S now counts instObjs (o' # os) errs s =
     (let (es, s') = reconcileNode S now o' (counts (node_name (GetNode o'))) instObjs s
      in reconcileNodes S now counts instObjs os (errs @ es) s')"

definition node_reconcile :: "'s Store \<Rightarrow> int \<Rightarrow> 's \<Rightarrow> StoreErr list \<times> 's" where
  "node_reconcile S now s0 = (case st_List S KindNode s0 of
     (Inl err, s1) \<Rightarrow> ([err], s1)
   | (Inr (nodeObjs, _), s1) \<Rightarrow>
     (case st_List S KindInstance s1 of
        (Inl err, s2) \<Rightarrow> ([err], s2)
      | (Inr (instObjs, _), s2) \<Rightarrow>
        (let counts = fst (countInstances instObjs (\<lambda>_. 0) [])
         in reconcileNodes S now counts instObjs nodeObjs [] s2)))"

subsection \<open>What a pass may change\<close>

text \<open>
  \<open>node_change now vw q e\<close>: the entry \<open>e\<close> is one the controller may leave under key \<open>q\<close> of a store
  that showed \<open>vw\<close> when the pass began.
\<close>

definition lost :: "int \<Rightarrow> (string \<times> string \<Rightarrow> (Object \<times> int) option) \<Rightarrow> string \<Rightarrow> bool" where
  "lost now vw n \<longleftrightarrow> (\<exists>N v. vw (KindNode, n) = Some (Object_Node N, v) \<and>
     node_silence now (n_Status N) > heartbeatTimeout + evacuateAfter)"

definition node_change ::
    "int \<Rightarrow> (string \<times> string \<Rightarrow> (Object \<times> int) option) \<Rightarrow> string \<times> string \<Rightarrow> (Object \<times> int) option \<Rightarrow> bool" where
  "node_change now vw q e \<longleftrightarrow> e = vw q \<or>
     (\<exists>N v. fst q = KindNode \<and> vw q = Some (Object_Node N, v) \<and>
        (e = None \<and> pending_delete N \<and> bound vw (snd q) = {} \<or>
         (\<exists>N' v'. e = Some (Object_Node N', v') \<and> n_spec N' = n_spec N \<and>
            m_name (n_Meta N') = m_name (n_Meta N) \<and> m_labels (n_Meta N') = m_labels (n_Meta N) \<and>
            nst_nodeIndex (n_Status N') = nst_nodeIndex (n_Status N)))) \<or>
     (\<exists>i v. fst q = KindInstance \<and> vw q = Some (Object_Instance i, v) \<and> e = None \<and>
        lost now vw (is_node (i_Spec i)))"

definition node_pass :: "int \<Rightarrow> (string \<times> string \<Rightarrow> (Object \<times> int) option) \<Rightarrow>
    (string \<times> string \<Rightarrow> (Object \<times> int) option) \<Rightarrow> bool" where
  "node_pass now vw vw' \<longleftrightarrow> (\<forall>q. node_change now vw q (vw' q))"

lemma node_pass_refl: "node_pass now vw vw"
  by (simp add: node_pass_def node_change_def)

lemma node_pass_upd: "node_pass now vw vw' \<Longrightarrow> node_change now vw q e \<Longrightarrow> node_pass now vw (vw'(q := e))"
  by (simp add: node_pass_def)

lemma stamped_Node:
  assumes "stamped (Object_Node N) v x'"
  shows "\<exists>N'. x' = Object_Node N' \<and> n_spec N' = n_spec N \<and> n_status N' = n_status N \<and>
    m_name (n_Meta N') = m_name (n_Meta N) \<and> m_labels (n_Meta N') = m_labels (n_Meta N)"
  using assms by (auto simp: stamped_def)

lemma phaseTransition_phase:
  "nst_phase (fst (phaseTransition st silence cnt pd)) = NODE_PHASE_NOT_READY \<Longrightarrow>
     nst_phase st = NODE_PHASE_NOT_READY \<or>
     silence > heartbeatTimeout \<and> nst_phase st \<in> {NODE_PHASE_READY, NODE_PHASE_DRAINING}"
  by (auto simp: phaseTransition_def Let_def split: if_splits)

lemma nextStatus_index:
  "nextStatus st silence cnt pd = (st', d) \<Longrightarrow> nst_nodeIndex st' = nst_nodeIndex st"
  by (auto simp: nextStatus_def phaseTransition_def Let_def split: if_splits)

context store_contract
begin

lemma evacuate_pass:
  assumes "ok s" and "node_pass now vw (view s)" and "lost now vw node"
    and "\<forall>o' \<in> set os. vw (KindInstance, object_name o') = Some (o', m_resourceVersion (MetaOf o'))
           \<and> KindOf o' = KindInstance"
    and "evacuate S node os errs s = (es, s')"
  shows "ok s' \<and> node_pass now vw (view s')"
  using assms
proof (induction os arbitrary: errs s)
  case (Cons o' os)
  obtain i where i: "o' = Object_Instance i"
    using Cons.prems(4) Object_of_kind(1) [of o'] by auto
  show ?case
  proof (cases "inst_node o' = node")
    case False
    with Cons show ?thesis by simp
  next
    case True
    obtain r t where del:
      "st_DeleteIfRevision S KindInstance (m_name (i_Meta i)) (m_resourceVersion (i_Meta i)) s = (r, t)"
      by fastforce
    have "ok t \<and> node_pass now vw (view t)"
    proof (cases r)
      case (Inl f)
      with delete_if_refused [OF Cons.prems(1)] del Cons.prems(2) show ?thesis by metis
    next
      case (Inr u)
      from delete_if_done [OF Cons.prems(1) del [unfolded Inr]]
      have t: "ok t" "view t = (view s)((KindInstance, m_name (i_Meta i)) := None)" by auto
      have "node_change now vw (KindInstance, m_name (i_Meta i)) None"
        using Cons.prems(3,4) True i by (auto simp: node_change_def object_name_def inst_node_def)
      with t node_pass_upd [OF Cons.prems(2)] show ?thesis by simp
    qed
    moreover have "\<exists>errs'. evacuate S node os errs' t = (es, s')"
      using Cons.prems(5) True i del by (auto split: sum.splits StoreErr.splits)
    ultimately show ?thesis using Cons.IH Cons.prems(3,4) by auto
  qed
qed auto

end

context store_contract
begin

lemma reconcileNode_pass:
  assumes "ok s" and "node_pass now vw (view s)"
    and N: "vw (KindNode, node_name N) = Some (Object_Node N, v)"
    and empty: "cnt = 0 \<Longrightarrow> bound vw (node_name N) = {}"
    and insts: "\<forall>o' \<in> set os. vw (KindInstance, object_name o') = Some (o', m_resourceVersion (MetaOf o'))
           \<and> KindOf o' = KindInstance"
    and run: "reconcileNode S now (Object_Node N) cnt os s = (es, s')"
  shows "ok s' \<and> node_pass now vw (view s')"
proof (cases "pending_delete N \<and> cnt = 0")
  case True
  obtain r t where del:
    "st_DeleteIfRevision S KindNode (node_name N) (m_resourceVersion (n_Meta N)) s = (r, t)"
    by fastforce
  with run True have "s' = t"
    by (auto simp: reconcileNode_def Let_def split: sum.splits StoreErr.splits)
  moreover have "ok t \<and> node_pass now vw (view t)"
  proof (cases r)
    case (Inl f)
    with delete_if_refused [OF assms(1)] del assms(2) show ?thesis by metis
  next
    case (Inr u)
    from delete_if_done [OF assms(1) del [unfolded Inr]]
    have t: "ok t" "view t = (view s)((KindNode, node_name N) := None)" by auto
    have "node_change now vw (KindNode, node_name N) None"
      using True empty N by (auto simp: node_change_def)
    with t node_pass_upd [OF assms(2)] show ?thesis by simp
  qed
  ultimately show ?thesis by simp
next
  case False
  define silence where "silence = node_silence now (n_Status N)"
  obtain st d where nst: "nextStatus (n_Status N) silence cnt (pending_delete N) = (st, d)"
    by fastforce
  let ?evac = "maybeEvacuate S (node_name N) st silence os"
  have evac: "ok t' \<and> node_pass now vw (view t')"
    if "ok t" "node_pass now vw (view t)" "?evac t = (es', t')" for t es' t'
  proof (cases "silence > heartbeatTimeout + evacuateAfter")
    case True
    with N have "lost now vw (node_name N)" by (auto simp: lost_def silence_def)
    with evacuate_pass [OF that(1,2) _ insts] that show ?thesis
      by (auto simp: maybeEvacuate_def split: if_splits)
  next
    case False
    with that show ?thesis by (auto simp: maybeEvacuate_def)
  qed
  let ?obj = "Object_Node (N\<lparr>n_status := Some st\<rparr>)"
  have body: "(if d then (case st_Put S ?obj (m_resourceVersion (n_Meta N)) s of
        (Inl ErrConflict, s') \<Rightarrow> ?evac s' | (Inl err, s') \<Rightarrow> ([err], s') | (Inr _, s') \<Rightarrow> ?evac s')
      else ?evac s) = (es, s')"
    using run unfolding reconcileNode_def Let_def GetNode.simps if_not_P [OF False]
      silence_def [symmetric] nst prod.case .
  show ?thesis
  proof (cases d)
    case False
    with body have "?evac s = (es, s')" by simp
    with evac [OF assms(1,2)] show ?thesis .
  next
    case True
    obtain r t where put: "st_Put S ?obj (m_resourceVersion (n_Meta N)) s = (r, t)" by fastforce
    have t: "ok t \<and> node_pass now vw (view t)"
    proof (cases r)
      case (Inl f)
      with put_refused [OF assms(1)] put assms(2) show ?thesis by metis
    next
      case (Inr w)
      from put_done [OF assms(1) put [unfolded Inr]]
      obtain x' where x': "ok t" "stamped ?obj w x'"
        "view t = (view s)((KindNode, node_name N) \<mapsto> (x', w))"
        by (auto simp: key_of_def object_name_def node_name_def)
      from stamped_Node [OF x'(2)] have "node_change now vw (KindNode, node_name N) (Some (x', w))"
        using N nextStatus_index [OF nst] by (fastforce simp: node_change_def)
      with x' node_pass_upd [OF assms(2)] show ?thesis by simp
    qed
    from body put True have "?evac t = (es, s') \<or> s' = t"
      by (auto split: sum.splits StoreErr.splits)
    with t evac show ?thesis by blast
  qed
qed

lemma reconcileNodes_pass:
  assumes "ok s" and "node_pass now vw (view s)"
    and "\<forall>o' \<in> set ns. \<exists>N v. o' = Object_Node N \<and> vw (KindNode, node_name N) = Some (o', v)
           \<and> (counts (node_name N) = 0 \<longrightarrow> bound vw (node_name N) = {})"
    and insts: "\<forall>o' \<in> set os. vw (KindInstance, object_name o') = Some (o', m_resourceVersion (MetaOf o'))
           \<and> KindOf o' = KindInstance"
    and "reconcileNodes S now counts os ns errs s = (es, s')"
  shows "ok s' \<and> node_pass now vw (view s')"
  using assms
proof (induction ns arbitrary: errs s)
  case (Cons o' ns)
  then obtain N v where N: "o' = Object_Node N" "vw (KindNode, node_name N) = Some (Object_Node N, v)"
    "counts (node_name N) = 0 \<longrightarrow> bound vw (node_name N) = {}" by auto
  obtain e t where step: "reconcileNode S now (Object_Node N) (counts (node_name N)) os s = (e, t)"
    by fastforce
  from reconcileNode_pass [OF Cons.prems(1,2) N(2) _ insts step] N(3)
  have "ok t" "node_pass now vw (view t)" by auto
  with Cons.IH [of t "errs @ e"] Cons.prems step N(1) show ?case by simp
qed auto

lemma node_reconcile_pass:
  assumes "ok s" and "node_reconcile S now s = (es, s')"
  shows "ok s' \<and> node_pass now (view s) (view s')"
proof -
  obtain rn s1 where ln: "st_List S KindNode s = (rn, s1)" by fastforce
  obtain ri s2 where li: "st_List S KindInstance s1 = (ri, s2)" by fastforce
  from list_frame [OF assms(1) ln] have s1: "ok s1" "view s1 = view s" by auto
  from list_frame [OF s1(1) li] s1 have s2: "ok s2" "view s2 = view s" by auto
  note run = assms(2) [unfolded node_reconcile_def ln prod.case]
  show ?thesis
  proof (cases "\<exists>ns nv is iv. rn = Inr (ns, nv) \<and> ri = Inr (is, iv)")
    case False
    with run li s1 s2 have "ok s' \<and> view s' = view s" by (auto split: sum.splits prod.splits)
    then show ?thesis by (simp add: node_pass_refl)
  next
    case True
    then obtain ns nv "is" iv where res: "rn = Inr (ns, nv)" "ri = Inr (is, iv)" by blast
    define counts where "counts = fst (countInstances is (\<lambda>_. 0) [])"
    have loop: "reconcileNodes S now counts is ns [] s2 = (es, s')"
      using run res li by (simp add: counts_def)
    have "\<exists>N v. x = Object_Node N \<and> view s (KindNode, node_name N) = Some (x, v)
        \<and> (counts (node_name N) = 0 \<longrightarrow> bound (view s) (node_name N) = {})" if "x \<in> set ns" for x
    proof -
      from listed_entry [OF assms(1) ln [unfolded res] kinds_in(3) that]
      have vx: "view s (KindNode, object_name x) = Some (x, m_resourceVersion (MetaOf x))"
        "KindOf x = KindNode" "object_name x \<noteq> []" by (auto simp: valid_name_def)
      then obtain N where N: "x = Object_Node N" using Object_of_kind(2) by blast
      then have "object_name x = node_name N" by (simp add: object_name_def node_name_def)
      with N vx listed_bound [OF s1(1) li [unfolded res], of "node_name N"] s1(2) show ?thesis
        by (auto simp: counts_def countInstances_eq)
    qed
    moreover have "view s (KindInstance, object_name x) = Some (x, m_resourceVersion (MetaOf x)) \<and>
        KindOf x = KindInstance" if "x \<in> set is" for x
      using listed_entry [OF s1(1) li [unfolded res] kinds_in(5) that] s1(2) by simp
    ultimately show ?thesis
      using reconcileNodes_pass [OF s2(1), of now "view s" ns counts "is"] s2(2) loop
      by (simp add: node_pass_refl)
  qed
qed

end

subsection \<open>Properties\<close>

lemma node_silence_exact:
  assumes "0 < nst_lastHeartbeatUnix st" and "\<bar>now - nst_lastHeartbeatUnix st\<bar> \<le> 9223372036"
  shows "node_silence now st = (now - nst_lastHeartbeatUnix st) * second"
proof -
  from assms(2) have "wrap64 (now - nst_lastHeartbeatUnix st) = now - nst_lastHeartbeatUnix st"
    by (intro wrap64_id) (auto simp: is_int64_def)
  moreover from assms(2) have "wrap64 ((now - nst_lastHeartbeatUnix st) * second) =
      (now - nst_lastHeartbeatUnix st) * second"
    by (intro wrap64_id) (auto simp: is_int64_def second_def)
  ultimately show ?thesis using assms(1) by (simp add: node_silence_def)
qed

text \<open>
  C9. What one node-controller pass over any reachable store deletes is justified by the store it
  started from. A node record disappears only if its deletion was pending and no instance was
  bound to it; an instance disappears only if the node it was bound to had been silent for
  longer than the heartbeat timeout and the evacuation grace together; an instance that stays
  is unchanged; no other kind is touched; a node record that stays keeps its spec, name and labels.
\<close>

theorem node_pass_deletes_justified:
  assumes m0_def: "m0 = run_ops (memory_store t) ops mem_New"
    and "node_reconcile (memory_store t) now m0 = (errs, m1)"
  shows "(\<forall>n N v. mem_view m0 (KindNode, n) = Some (Object_Node N, v) \<longrightarrow> mem_view m1 (KindNode, n) = None \<longrightarrow>
            pending_delete N \<and> bound (mem_view m0) n = {}) \<and>
    (\<forall>n N v N' v'. mem_view m0 (KindNode, n) = Some (Object_Node N, v) \<longrightarrow>
            mem_view m1 (KindNode, n) = Some (Object_Node N', v') \<longrightarrow>
            n_spec N' = n_spec N \<and> node_name N' = node_name N \<and> m_labels (n_Meta N') = m_labels (n_Meta N)) \<and>
    (\<forall>i I v. mem_view m0 (KindInstance, i) = Some (Object_Instance I, v) \<longrightarrow>
            mem_view m1 (KindInstance, i) = Some (Object_Instance I, v) \<or>
            mem_view m1 (KindInstance, i) = None \<and> lost now (mem_view m0) (is_node (i_Spec I))) \<and>
    (\<forall>k n. k \<noteq> KindNode \<longrightarrow> k \<noteq> KindInstance \<longrightarrow> mem_view m1 (k, n) = mem_view m0 (k, n))"
proof -
  have "node_pass now (mem_view m0) (mem_view m1)"
    using mem.node_reconcile_pass [OF mem_reachable_ok assms(2) [unfolded m0_def]]
    by (simp add: m0_def)
  then have ch: "node_change now (mem_view m0) q (mem_view m1 q)" for q
    unfolding node_pass_def by blast
  have kinds: "KindNode \<noteq> KindInstance" by (simp add: kind_defs)
  show ?thesis
  proof (intro conjI allI impI)
    fix n N v N' v'
    assume a: "mem_view m0 (KindNode, n) = Some (Object_Node N, v)"
    show "pending_delete N" "bound (mem_view m0) n = {}" if "mem_view m1 (KindNode, n) = None"
      using ch [of "(KindNode, n)"] a kinds that by (auto simp: node_change_def)
    assume "mem_view m1 (KindNode, n) = Some (Object_Node N', v')"
    then show "n_spec N' = n_spec N" "node_name N' = node_name N"
      "m_labels (n_Meta N') = m_labels (n_Meta N)"
      using ch [of "(KindNode, n)"] a kinds by (auto simp: node_change_def node_name_def)
  next
    fix i I v
    assume a: "mem_view m0 (KindInstance, i) = Some (Object_Instance I, v)"
    then show "mem_view m1 (KindInstance, i) = Some (Object_Instance I, v) \<or>
        mem_view m1 (KindInstance, i) = None \<and> lost now (mem_view m0) (is_node (i_Spec I))"
      using ch [of "(KindInstance, i)"] kinds by (auto simp: node_change_def)
  next
    fix k n
    assume "k \<noteq> KindNode" "k \<noteq> KindInstance"
    then show "mem_view m1 (k, n) = mem_view m0 (k, n)"
      using ch [of "(k, n)"] by (auto simp: node_change_def)
  qed
qed

definition sample_leaving :: Node where
  "sample_leaving = (sample_node ''n1'' 4)\<lparr>n_meta := Some (zero_Meta\<lparr>m_name := ''n1'',
     m_labels := fmap_of_list [(LabelPendingDelete, ''true'')]\<rparr>)\<rparr>"

lemma node_pass_deletes_justified_witness:
  "\<exists>errs m1 N v. node_reconcile (memory_store 7) 100
      (run_ops (memory_store 7) [OpPut (Object_Node sample_leaving) 0] mem_New) = (errs, m1) \<and>
    mem_view (run_ops (memory_store 7) [OpPut (Object_Node sample_leaving) 0] mem_New) (KindNode, ''n1'')
      = Some (Object_Node N, v) \<and>
    mem_view m1 (KindNode, ''n1'') = None \<and> pending_delete N"
proof -
  let ?m = "run_ops (memory_store 7) [OpPut (Object_Node sample_leaving) 0] mem_New"
  obtain errs m1 where run: "node_reconcile (memory_store 7) 100 ?m = (errs, m1)" by fastforce
  have "case mem_view ?m (KindNode, ''n1'') of Some (Object_Node N, v) \<Rightarrow> True | _ \<Rightarrow> False"
    by code_simp
  then obtain N v where N: "mem_view ?m (KindNode, ''n1'') = Some (Object_Node N, v)"
    by (auto split: option.splits prod.splits Object.splits)
  have "mem_view (snd (node_reconcile (memory_store 7) 100 ?m)) (KindNode, ''n1'') = None"
    by code_simp
  with run have gone: "mem_view m1 (KindNode, ''n1'') = None" by simp
  from node_pass_deletes_justified [OF refl run] N gone have "pending_delete N" by blast
  with run N gone show ?thesis by blast
qed

text \<open>
  The phase machine of a node. A pass reports a change exactly when the status changed; a node
  is NOT_READY afterwards exactly when it went silent while READY or DRAINING, or already was
  and no pending delete of an uncordoned node overrides it; it becomes READY only by finishing a
  drain with no instance left; and the cordon, once set, is never lifted by the controller.
\<close>

theorem phaseTransition_machine:
  "(snd (phaseTransition st silence cnt pd) \<longleftrightarrow> fst (phaseTransition st silence cnt pd) \<noteq> st) \<and>
   (nst_phase (fst (phaseTransition st silence cnt pd)) = NODE_PHASE_NOT_READY \<longleftrightarrow>
     heartbeatTimeout < silence \<and> nst_phase st \<in> {NODE_PHASE_READY, NODE_PHASE_DRAINING} \<or>
     nst_phase st = NODE_PHASE_NOT_READY \<and> (pd = False \<or> nst_unschedulable st)) \<and>
   (nst_phase (fst (phaseTransition st silence cnt pd)) = NODE_PHASE_READY \<longleftrightarrow>
     silence \<le> heartbeatTimeout \<and> (nst_phase st = NODE_PHASE_READY \<and> pd = False \<or>
       nst_phase st = NODE_PHASE_DRAINING \<and> cnt = 0 \<and> (pd = False \<or> nst_unschedulable st))) \<and>
   (nst_unschedulable (fst (phaseTransition st silence cnt pd)) \<longleftrightarrow>
     nst_unschedulable st \<or> pd \<and>
       \<not> (heartbeatTimeout < silence \<and> nst_phase st \<in> {NODE_PHASE_READY, NODE_PHASE_DRAINING}))"
  by (cases st; cases "nst_phase st"; auto simp: phaseTransition_def Let_def)

end
