(* ===== verification/Klite_Rollout.thy ===== *)
theory Klite_Rollout
  imports Klite_NodeController "HOL-Library.Product_Lexorder"
begin

text \<open>
  The workload controller of \<open>src/internal/controller/workload.go\<close> and \<open>rollout.go\<close>: instances
  materialised from workload specs and the surge-first rollout. The controller's own state, the
  drain deadlines by instance uid, is threaded next to the store, with the number of random
  suffixes drawn so far; \<open>rnd\<close> gives the draws of \<open>crypto/rand\<close>, \<open>marshal\<close> the deterministic
  protobuf encoding \<open>TemplateHash\<close> digests, and \<open>now\<close> the time of the pass in nanoseconds.
  \<open>retire\<close> writes through the shared \<open>*Instance\<close> pointer, so it also returns the instance it
  left behind, and \<open>updateStatus\<close> counts over the mutated list. The replica count is taken to be
  non-negative, which \<open>Validate\<close> enforces (a negative one would slice out of range).
\<close>

datatype WlErr =
  WlStore StoreErr
| WlContainers string
| WlHash string
| WlColliding string

record 's wstate =
  wc_st :: 's
  wc_deadlines :: "string \<Rightarrow> int option"
  wc_draws :: nat

type_synonym draws = "nat \<Rightarrow> 8 word \<times> 8 word"

definition casRetries :: nat where "casRetries = 5"

definition inst_name :: "Instance \<Rightarrow> string" where "inst_name i = m_name (i_Meta i)"

definition inst_phase :: "Instance \<Rightarrow> InstancePhase" where "inst_phase i = ist_phase (i_Status i)"

definition wl_ignore :: "StoreErr \<Rightarrow> WlErr list" where
  "wl_ignore e = (case e of ErrNotFound \<Rightarrow> [] | ErrConflict \<Rightarrow> [] | _ \<Rightarrow> [WlStore e])"

subsection \<open>Instances\<close>

definition hexByte :: "8 word \<Rightarrow> string" where
  "hexByte b = [digit_char (unat b div 16), digit_char (unat b mod 16)]"

definition hexSuffix :: "draws \<Rightarrow> nat \<Rightarrow> string" where
  "hexSuffix rnd k = hexByte (fst (rnd k)) @ hexByte (snd (rnd k))"

definition new_instance :: "Workload \<Rightarrow> string \<Rightarrow> string \<Rightarrow> Instance" where
  "new_instance w hash name =
     (let spec = w_Spec w; tpl = ws_Template spec in
      \<lparr>i_meta = Some (zero_Meta\<lparr>m_name := name, m_labels := t_labels tpl\<rparr>),
       i_spec = Some \<lparr>is_workload = m_name (w_Meta w), is_node = [],
                      is_container = Some (t_containers tpl ! 0),
                      is_templateHash = hash, is_drain = ws_drain spec\<rparr>,
       i_status = Some (zero_InstanceStatus\<lparr>ist_phase := INSTANCE_PHASE_PENDING\<rparr>)\<rparr>)"

fun createInstance_loop ::
    "'s Store \<Rightarrow> draws \<Rightarrow> nat \<Rightarrow> Workload \<Rightarrow> string \<Rightarrow> 's wstate \<Rightarrow> WlErr list \<times> 's wstate" where
  "createInstance_loop S rnd 0 w hash c = ([WlColliding (m_name (w_Meta w))], c)"
| "createInstance_loop S rnd (Suc k) w hash c =
     (let name = m_name (w_Meta w) @ ''-'' @ hexSuffix rnd (wc_draws c);
          c1 = c\<lparr>wc_draws := wc_draws c + 1\<rparr>
      in case st_Put S (Object_Instance (new_instance w hash name)) RevCreate (wc_st c1) of
           (Inr _, s') \<Rightarrow> ([], c1\<lparr>wc_st := s'\<rparr>)
         | (Inl ErrAlreadyExists, s') \<Rightarrow> createInstance_loop S rnd k w hash (c1\<lparr>wc_st := s'\<rparr>)
         | (Inl err, s') \<Rightarrow> ([WlStore err], c1\<lparr>wc_st := s'\<rparr>))"

definition createInstance ::
    "'s Store \<Rightarrow> draws \<Rightarrow> Workload \<Rightarrow> string \<Rightarrow> 's wstate \<Rightarrow> WlErr list \<times> 's wstate" where
  "createInstance S rnd w hash c = createInstance_loop S rnd casRetries w hash c"

definition deleteInstance :: "'s Store \<Rightarrow> Instance \<Rightarrow> 's wstate \<Rightarrow> WlErr list \<times> 's wstate" where
  "deleteInstance S inst c =
     (case st_DeleteIfRevision S KindInstance (inst_name inst) (m_resourceVersion (i_Meta inst)) (wc_st c) of
        (Inl err, s') \<Rightarrow> (wl_ignore err, c\<lparr>wc_st := s'\<rparr>)
      | (Inr _, s') \<Rightarrow> ([], c\<lparr>wc_st := s'\<rparr>))"

definition newer_key :: "Instance \<Rightarrow> int \<times> int \<times> string" where
  "newer_key i = (m_createdUnix (i_Meta i), m_resourceVersion (i_Meta i), inst_name i)"

definition sortNewestFirst :: "Instance list \<Rightarrow> Instance list" where
  "sortNewestFirst instances = rev (sort_key newer_key instances)"

subsection \<open>Classification\<close>

record groups =
  fresh :: "Instance list"
  retiring :: "Instance list"
  doomed :: "Instance list"
  draining :: "Instance list"

fun classify_loop :: "string \<Rightarrow> (string \<Rightarrow> bool) \<Rightarrow> Instance list \<Rightarrow> groups \<Rightarrow> groups" where
  "classify_loop hash drainingNodes [] g = g"
| "classify_loop hash drainingNodes (inst # insts) g =
     classify_loop hash drainingNodes insts
       (if inst_phase inst = INSTANCE_PHASE_DRAINING then g\<lparr>draining := draining g @ [inst]\<rparr>
        else if is_templateHash (i_Spec inst) = hash \<and> \<not> drainingNodes (is_node (i_Spec inst))
          then g\<lparr>fresh := fresh g @ [inst]\<rparr>
        else if inst_phase inst = INSTANCE_PHASE_READY then g\<lparr>retiring := retiring g @ [inst]\<rparr>
        else g\<lparr>doomed := doomed g @ [inst]\<rparr>)"

definition classify :: "string \<Rightarrow> Instance list \<Rightarrow> (string \<Rightarrow> bool) \<Rightarrow> groups" where
  "classify hash instances drainingNodes =
     (let g = classify_loop hash drainingNodes instances
                \<lparr>fresh = [], retiring = [], doomed = [], draining = []\<rparr>
      in g\<lparr>fresh := sortNewestFirst (fresh g), retiring := sortNewestFirst (retiring g)\<rparr>)"

subsection \<open>Draining and retiring\<close>

definition drainTimeout :: "Instance \<Rightarrow> int" where
  "drainTimeout inst =
     (let s = drainTimeoutSeconds (is_Drain (i_Spec inst))
      in if s > 0 then s * second else DefaultDrainTimeoutSeconds * second)"

definition retired :: "string \<Rightarrow> Instance \<Rightarrow> Instance" where
  "retired reason inst = inst\<lparr>i_status := Some ((i_Status inst)
     \<lparr>ist_phase := INSTANCE_PHASE_DRAINING, ist_message := reason\<rparr>)\<rparr>"

definition retire ::
    "'s Store \<Rightarrow> int \<Rightarrow> Instance \<Rightarrow> string \<Rightarrow> 's wstate \<Rightarrow> WlErr list \<times> Instance \<times> 's wstate" where
  "retire S now inst reason c =
     (if inst_phase inst \<noteq> INSTANCE_PHASE_READY
      then (let (errs, c') = deleteInstance S inst c in (errs, inst, c'))
      else
        (let inst1 = retired reason inst
         in case st_Put S (Object_Instance inst1) (m_resourceVersion (i_Meta inst)) (wc_st c) of
              (Inl ErrConflict, s') \<Rightarrow> ([], inst1, c\<lparr>wc_st := s'\<rparr>)
            | (Inl err, s') \<Rightarrow> ([WlStore err], inst1, c\<lparr>wc_st := s'\<rparr>)
            | (Inr _, s') \<Rightarrow> ([], inst1, c\<lparr>wc_st := s', wc_deadlines :=
                (wc_deadlines c)(m_uid (i_Meta inst) \<mapsto> now + drainTimeout inst)\<rparr>)))"

fun expireDrains ::
    "'s Store \<Rightarrow> int \<Rightarrow> Instance list \<Rightarrow> WlErr list \<Rightarrow> 's wstate \<Rightarrow> WlErr list \<times> 's wstate" where
  "expireDrains S now [] errs c = (errs, c)"
| "expireDrains S now (inst # insts) errs c =
     (let uid = m_uid (i_Meta inst) in
      case wc_deadlines c uid of
        None \<Rightarrow> expireDrains S now insts errs
          (c\<lparr>wc_deadlines := (wc_deadlines c)(uid \<mapsto> now + drainTimeout inst)\<rparr>)
      | Some deadline \<Rightarrow>
          if \<not> now < deadline
          then (let (es, c') = deleteInstance S inst c in expireDrains S now insts (errs @ es) c')
          else expireDrains S now insts errs c)"

fun surgeBlocked :: "Instance list \<Rightarrow> bool" where
  "surgeBlocked [] = False"
| "surgeBlocked (inst # insts) =
     (if is_node (i_Spec inst) \<noteq> [] then surgeBlocked insts
      else
        (let msg = ist_message (i_Status inst)
         in if msg = MsgNoCapacity \<or> HasPrefix msg ''pinned node '' then True
            else surgeBlocked insts))"

subsection \<open>advance\<close>

fun deleteAll :: "'s Store \<Rightarrow> Instance list \<Rightarrow> WlErr list \<Rightarrow> 's wstate \<Rightarrow> WlErr list \<times> 's wstate" where
  "deleteAll S [] errs c = (errs, c)"
| "deleteAll S (inst # insts) errs c =
     (let (es, c') = deleteInstance S inst c in deleteAll S insts (errs @ es) c')"

fun retireAll ::
    "'s Store \<Rightarrow> int \<Rightarrow> Instance list \<Rightarrow> string \<Rightarrow> WlErr list \<Rightarrow> Instance list \<Rightarrow> 's wstate \<Rightarrow>
     WlErr list \<times> Instance list \<times> 's wstate" where
  "retireAll S now [] reason errs muts c = (errs, muts, c)"
| "retireAll S now (inst # insts) reason errs muts c =
     (let (es, inst', c') = retire S now inst reason c
      in retireAll S now insts reason (errs @ es) (muts @ [inst']) c')"

fun createMany ::
    "'s Store \<Rightarrow> draws \<Rightarrow> nat \<Rightarrow> Workload \<Rightarrow> string \<Rightarrow> WlErr list \<Rightarrow> 's wstate \<Rightarrow> WlErr list \<times> 's wstate" where
  "createMany S rnd 0 w hash errs c = (errs, c)"
| "createMany S rnd (Suc k) w hash errs c =
     (let (es, c') = createInstance S rnd w hash c in createMany S rnd k w hash (errs @ es) c')"

definition ready_count :: "Instance list \<Rightarrow> int" where
  "ready_count insts = int (length (filter (\<lambda>i. inst_phase i = INSTANCE_PHASE_READY) insts))"

definition rollStep ::
    "'s Store \<Rightarrow> draws \<Rightarrow> int \<Rightarrow> Workload \<Rightarrow> string \<Rightarrow> int \<Rightarrow> groups \<Rightarrow> 's wstate \<Rightarrow>
     WlErr list \<times> Instance list \<times> 's wstate" where
  "rollStep S rnd now w hash replicas g c =
     (let ready = ready_count (fresh g);
          nf = int (length (fresh g));
          nr = int (length (retiring g)) in
      if nf + nr = replicas \<and> ready = nf then
        (let (es, c') = createInstance S rnd w hash c in (es, [], c'))
      else if nf + nr > replicas \<and> ready \<ge> min replicas nf then
        (let (es, inst', c') = retire S now (retiring g ! 0) ''rollout'' c in (es, [inst'], c'))
      else if nf + nr > replicas \<and> surgeBlocked (fresh g) then
        (let (es, inst', c') = retire S now (retiring g ! 0)
               ''drain-first fallback: no capacity to surge'' c in (es, [inst'], c'))
      else ([], [], c))"

definition advance ::
    "'s Store \<Rightarrow> draws \<Rightarrow> int \<Rightarrow> Workload \<Rightarrow> string \<Rightarrow> Instance list \<Rightarrow> (string \<Rightarrow> bool) \<Rightarrow> 's wstate \<Rightarrow>
     WlErr list \<times> Instance list \<times> 's wstate" where
  "advance S rnd now w hash instances drainingNodes c =
     (let g = classify hash instances drainingNodes;
          replicas = ws_replicas (w_Spec w);
          (errs1, c1) = deleteAll S (doomed g) [] c;
          (errs2, c2) = expireDrains S now (draining g) [] c1;
          surplus = int (length (fresh g)) - replicas;
          missing = replicas - int (length (fresh g)) - int (length (retiring g)) in
      if surplus > 0 then
        retireAll S now (take (nat surplus) (fresh g)) ''scale-down'' (errs1 @ errs2) [] c2
      else if missing > 0 then
        (let (errs, c3) = createMany S rnd (nat missing) w hash (errs1 @ errs2) c2 in (errs, [], c3))
      else if retiring g = [] \<or> draining g \<noteq> [] then (errs1 @ errs2, [], c2)
      else
        (let (errs3, muts, c3) = rollStep S rnd now w hash replicas g c2
         in (errs1 @ errs2 @ errs3, muts, c3)))"

subsection \<open>Status and reconcile\<close>

text \<open>The instance list as it stands after \<open>advance\<close> wrote through its pointers.\<close>

definition mutated :: "Instance list \<Rightarrow> Instance list \<Rightarrow> Instance list" where
  "mutated muts instances =
     map (\<lambda>i. case find (\<lambda>j. inst_name j = inst_name i) muts of Some j \<Rightarrow> j | None \<Rightarrow> i) instances"

definition updateStatus ::
    "'s Store \<Rightarrow> Object \<Rightarrow> string \<Rightarrow> Instance list \<Rightarrow> 's wstate \<Rightarrow> WlErr list \<times> 's wstate" where
  "updateStatus S obj hash instances c =
     (let w = GetWorkload obj;
          next' = \<lparr>wst_readyInstances = wrap32 (ready_count instances),
                  wst_totalInstances = wrap32 (int (length instances)),
                  wst_templateHash = hash\<rparr> in
      if w_status w = Some next' then ([], c)
      else case st_Put S (Object_Workload (w\<lparr>w_status := Some next'\<rparr>))
                 (m_resourceVersion (w_Meta w)) (wc_st c) of
             (Inl ErrConflict, s') \<Rightarrow> ([], c\<lparr>wc_st := s'\<rparr>)
           | (Inl err, s') \<Rightarrow> ([WlStore err], c\<lparr>wc_st := s'\<rparr>)
           | (Inr _, s') \<Rightarrow> ([], c\<lparr>wc_st := s'\<rparr>))"

definition reconcileWorkload ::
    "'s Store \<Rightarrow> draws \<Rightarrow> (Template \<Rightarrow> 8 word list option) \<Rightarrow> int \<Rightarrow> Object \<Rightarrow> Instance list \<Rightarrow>
     (string \<Rightarrow> bool) \<Rightarrow> 's wstate \<Rightarrow> WlErr list \<times> 's wstate" where
  "reconcileWorkload S rnd marshal now obj instances drainingNodes c =
     (let w = GetWorkload obj; name = m_name (w_Meta w) in
      if length (t_containers (ws_Template (w_Spec w))) \<noteq> 1 then ([WlContainers name], c)
      else case TemplateHash marshal (ws_Template (w_Spec w)) of
        None \<Rightarrow> ([WlHash name], c)
      | Some hash \<Rightarrow>
        (let (errs1, muts, c1) = advance S rnd now w hash instances drainingNodes c;
             (errs2, c2) = updateStatus S obj hash (mutated muts instances) c1
         in (errs1 @ errs2, c2)))"

fun drainingNodes_loop :: "Object list \<Rightarrow> (string \<Rightarrow> bool) \<Rightarrow> (string \<Rightarrow> bool)" where
  "drainingNodes_loop [] out = out"
| "drainingNodes_loop (o' # os) out = drainingNodes_loop os
     (if nst_phase (n_Status (GetNode o')) = NODE_PHASE_DRAINING
      then out(node_name (GetNode o') := True) else out)"

definition drainingNodes :: "'s Store \<Rightarrow> 's wstate \<Rightarrow> (StoreErr + (string \<Rightarrow> bool)) \<times> 's wstate" where
  "drainingNodes S c = (case st_List S KindNode (wc_st c) of
     (Inl err, s') \<Rightarrow> (Inl err, c\<lparr>wc_st := s'\<rparr>)
   | (Inr (nodeObjs, _), s') \<Rightarrow> (Inr (drainingNodes_loop nodeObjs (\<lambda>_. False)), c\<lparr>wc_st := s'\<rparr>))"

fun reconcileWorkloads ::
    "'s Store \<Rightarrow> draws \<Rightarrow> (Template \<Rightarrow> 8 word list option) \<Rightarrow> int \<Rightarrow> Object list \<Rightarrow> Instance list \<Rightarrow>
     (string \<Rightarrow> bool) \<Rightarrow> WlErr list \<Rightarrow> 's wstate \<Rightarrow> WlErr list \<times> 's wstate" where
  "reconcileWorkloads S rnd marshal now [] insts dn errs c = (errs, c)"
| "reconcileWorkloads S rnd marshal now (o' # os) insts dn errs c =
     (let name = m_name (w_Meta (GetWorkload o'));
          (es, c') = reconcileWorkload S rnd marshal now o'
                       (filter (\<lambda>i. is_workload (i_Spec i) = name) insts) dn c
      in reconcileWorkloads S rnd marshal now os insts dn (errs @ es) c')"

text \<open>
  \<open>byWorkload\<close> groups the listed instances by workload in listing order: the group of a name is
  the filter above. The orphans are deleted group by group in Go's unspecified map order; the
  model takes the listing order, and since their names are distinct the store ends up holding
  the same objects in every order.
\<close>

definition wl_reconcile ::
    "'s Store \<Rightarrow> draws \<Rightarrow> (Template \<Rightarrow> 8 word list option) \<Rightarrow> int \<Rightarrow> 's wstate \<Rightarrow> WlErr list \<times> 's wstate" where
  "wl_reconcile S rnd marshal now c0 = (case st_List S KindWorkload (wc_st c0) of
     (Inl err, s1) \<Rightarrow> ([WlStore err], c0\<lparr>wc_st := s1\<rparr>)
   | (Inr (wls, _), s1) \<Rightarrow>
     (case st_List S KindInstance s1 of
        (Inl err, s2) \<Rightarrow> ([WlStore err], c0\<lparr>wc_st := s2\<rparr>)
      | (Inr (instObjs, _), s2) \<Rightarrow>
        (case drainingNodes S (c0\<lparr>wc_st := s2\<rparr>) of
           (Inl err, c3) \<Rightarrow> ([WlStore err], c3)
         | (Inr dn, c3) \<Rightarrow>
           (let insts = map GetInstance instObjs;
                uids = map (\<lambda>i. m_uid (i_Meta i)) insts;
                c4 = c3\<lparr>wc_deadlines := (\<lambda>uid. if uid \<in> set uids then wc_deadlines c3 uid else None)\<rparr>;
                (errs1, c5) = reconcileWorkloads S rnd marshal now wls insts dn [] c4;
                live = map (\<lambda>o'. m_name (w_Meta (GetWorkload o'))) wls
            in deleteAll S (filter (\<lambda>i. is_workload (i_Spec i) \<notin> set live) insts) errs1 c5))))"

subsection \<open>Classification is a partition\<close>

definition is_draining :: "Instance \<Rightarrow> bool" where
  "is_draining i \<longleftrightarrow> inst_phase i = INSTANCE_PHASE_DRAINING"

definition is_fresh :: "string \<Rightarrow> (string \<Rightarrow> bool) \<Rightarrow> Instance \<Rightarrow> bool" where
  "is_fresh hash dn i \<longleftrightarrow> \<not> is_draining i \<and> is_templateHash (i_Spec i) = hash \<and> \<not> dn (is_node (i_Spec i))"

definition is_ready :: "Instance \<Rightarrow> bool" where
  "is_ready i \<longleftrightarrow> inst_phase i = INSTANCE_PHASE_READY"

definition is_stale :: "string \<Rightarrow> (string \<Rightarrow> bool) \<Rightarrow> Instance \<Rightarrow> bool" where
  "is_stale hash dn i \<longleftrightarrow> \<not> is_draining i \<and> \<not> is_fresh hash dn i"

lemmas is_group_defs = is_draining_def is_fresh_def is_ready_def is_stale_def

lemma classify_loop_eq:
  "classify_loop hash dn insts g = g\<lparr>
     fresh := fresh g @ filter (is_fresh hash dn) insts,
     retiring := retiring g @ filter (\<lambda>i. is_stale hash dn i \<and> is_ready i) insts,
     doomed := doomed g @ filter (\<lambda>i. is_stale hash dn i \<and> \<not> is_ready i) insts,
     draining := draining g @ filter is_draining insts\<rparr>"
  by (induction insts arbitrary: g) (simp_all add: is_group_defs)

lemma mset_sortNewestFirst [simp]: "mset (sortNewestFirst xs) = mset xs"
  by (simp add: sortNewestFirst_def)

lemma set_sortNewestFirst [simp]: "set (sortNewestFirst xs) = set xs"
  by (simp add: sortNewestFirst_def)

lemma length_sortNewestFirst [simp]: "length (sortNewestFirst xs) = length xs"
  by (simp add: sortNewestFirst_def)

lemma classify_simps [simp]:
  "fresh (classify hash insts dn) = sortNewestFirst (filter (is_fresh hash dn) insts)"
  "retiring (classify hash insts dn) = sortNewestFirst (filter (\<lambda>i. is_stale hash dn i \<and> is_ready i) insts)"
  "doomed (classify hash insts dn) = filter (\<lambda>i. is_stale hash dn i \<and> \<not> is_ready i) insts"
  "draining (classify hash insts dn) = filter is_draining insts"
  by (simp_all add: classify_def classify_loop_eq)

lemma ready_count_mset: "mset xs = mset ys \<Longrightarrow> ready_count xs = ready_count ys"
  unfolding ready_count_def by (metis mset_filter size_mset)

lemma ready_count_sort [simp]: "ready_count (sortNewestFirst xs) = ready_count xs"
  by (rule ready_count_mset) simp

lemma ready_count_split:
  "ready_count insts = ready_count (fresh (classify hash insts dn)) +
     int (length (retiring (classify hash insts dn)))"
  unfolding classify_simps ready_count_sort length_sortNewestFirst
  by (induction insts) (auto simp: ready_count_def is_group_defs)

lemma ready_count_le: "ready_count xs \<le> int (length xs)"
  by (simp add: ready_count_def)

subsection \<open>What a pass over one workload may change\<close>

definition of_wl :: "string \<Rightarrow> Instance \<Rightarrow> bool" where
  "of_wl w i \<longleftrightarrow> is_workload (i_Spec i) = w"

definition deletable :: "int \<Rightarrow> (string \<Rightarrow> int option) \<Rightarrow> string \<Rightarrow> (Object \<times> int) option \<Rightarrow> bool" where
  "deletable now dl w e \<longleftrightarrow> (\<exists>i v. e = Some (Object_Instance i, v) \<and> of_wl w i \<and> \<not> is_ready i \<and>
     (is_draining i \<longrightarrow> (\<exists>d. dl (m_uid (i_Meta i)) = Some d \<and> d \<le> now)))"

definition wl_change ::
    "int \<Rightarrow> (string \<Rightarrow> int option) \<Rightarrow> string \<Rightarrow> string set \<Rightarrow>
     (string \<times> string \<Rightarrow> (Object \<times> int) option) \<Rightarrow> string \<times> string \<Rightarrow> (Object \<times> int) option \<Rightarrow> bool" where
  "wl_change now dl w D vw q e \<longleftrightarrow> e = vw q \<or> (fst q = KindInstance \<and>
     (e = None \<and> deletable now dl w (vw q) \<or>
      (\<exists>i v i' v'. vw q = Some (Object_Instance i, v) \<and> of_wl w i \<and> is_ready i \<and> snd q \<in> D \<and>
         e = Some (Object_Instance i', v') \<and> is_draining i' \<and> i_spec i' = i_spec i) \<or>
      (\<exists>i' v'. (vw q = None \<or> deletable now dl w (vw q)) \<and> e = Some (Object_Instance i', v') \<and>
         of_wl w i' \<and> inst_phase i' = INSTANCE_PHASE_PENDING)))"

definition wl_pass where
  "wl_pass now dl w D vw vw' \<longleftrightarrow> (\<forall>q. wl_change now dl w D vw q (vw' q))"

lemma wl_pass_refl: "wl_pass now dl w D vw vw"
  by (simp add: wl_pass_def wl_change_def)

lemma wl_pass_upd:
  "wl_pass now dl w D vw vw' \<Longrightarrow> wl_change now dl w D vw q e \<Longrightarrow> wl_pass now dl w D vw (vw'(q := e))"
  by (simp add: wl_pass_def)

lemma wl_pass_None:
  assumes "wl_pass now dl w D vw vw'" and "vw' q = None" and "vw q \<noteq> None"
  shows "deletable now dl w (vw q)"
proof -
  from assms(1) have "wl_change now dl w D vw q (vw' q)"
    unfolding wl_pass_def by blast
  with assms(2,3) show ?thesis by (auto simp: wl_change_def)
qed

lemma stamped_Instance:
  assumes "stamped (Object_Instance i) v x'"
  shows "\<exists>i'. x' = Object_Instance i' \<and> i_spec i' = i_spec i \<and> i_status i' = i_status i"
  using assms by (auto simp: stamped_def)

lemma drainTimeout_pos: "0 < drainTimeout i"
  by (simp add: drainTimeout_def Let_def second_def DefaultDrainTimeoutSeconds_def)

text \<open>Deadlines that have passed were known before the pass: new ones lie in the future.\<close>

definition dl_ok :: "int \<Rightarrow> (string \<Rightarrow> int option) \<Rightarrow> (string \<Rightarrow> int option) \<Rightarrow> bool" where
  "dl_ok now dl dl' \<longleftrightarrow> (\<forall>u d. dl' u = Some d \<longrightarrow> d \<le> now \<longrightarrow> dl u = Some d)"

lemma dl_ok_refl: "dl_ok now dl dl"
  by (simp add: dl_ok_def)

lemma dl_ok_new: "dl_ok now dl dl' \<Longrightarrow> dl_ok now dl (dl'(u \<mapsto> now + drainTimeout i))"
  using drainTimeout_pos [of i] by (auto simp: dl_ok_def)

definition listed :: "(string \<times> string \<Rightarrow> (Object \<times> int) option) \<Rightarrow> string \<Rightarrow> Instance \<Rightarrow> bool" where
  "listed vw w i \<longleftrightarrow> of_wl w i \<and> (\<exists>v. vw (KindInstance, inst_name i) = Some (Object_Instance i, v))"

lemma listed_deletable:
  assumes "listed vw w i" and "\<not> is_ready i"
    and "is_draining i \<Longrightarrow> \<exists>d. dl (m_uid (i_Meta i)) = Some d \<and> d \<le> now"
  shows "deletable now dl w (vw (KindInstance, inst_name i))"
  using assms by (auto simp: listed_def deletable_def)

context store_contract
begin

definition wl_inv where
  "wl_inv now dl w D vw c \<longleftrightarrow> ok (wc_st c) \<and> wl_pass now dl w D vw (view (wc_st c)) \<and>
     dl_ok now dl (wc_deadlines c)"

lemma wl_inv_same_view:
  "wl_inv now dl w D vw c \<Longrightarrow> ok s' \<Longrightarrow> view s' = view (wc_st c) \<Longrightarrow>
   wl_inv now dl w D vw (c\<lparr>wc_st := s'\<rparr>)"
  by (simp add: wl_inv_def)

lemma wl_inv_upd:
  "wl_inv now dl w D vw c \<Longrightarrow> ok s' \<Longrightarrow> view s' = (view (wc_st c))(q := e) \<Longrightarrow>
   wl_change now dl w D vw q e \<Longrightarrow> wl_inv now dl w D vw (c\<lparr>wc_st := s'\<rparr>)"
  by (simp add: wl_inv_def wl_pass_upd)

lemma deleteInstance_inv:
  assumes inv: "wl_inv now dl w D vw c" and del: "deletable now dl w (vw (KindInstance, inst_name i))"
    and run: "deleteInstance S i c = (es, c')"
  shows "wl_inv now dl w D vw c' \<and> wc_deadlines c' = wc_deadlines c"
proof -
  obtain r t where d: "st_DeleteIfRevision S KindInstance (inst_name i) (m_resourceVersion (i_Meta i)) (wc_st c)
      = (r, t)" by fastforce
  from run d have c': "c' = c\<lparr>wc_st := t\<rparr>"
    by (auto simp: deleteInstance_def split: sum.splits)
  have ok: "ok (wc_st c)" using inv by (simp add: wl_inv_def)
  show ?thesis
  proof (cases r)
    case (Inl f)
    from delete_if_refused [OF ok d [unfolded Inl]] have "ok t" "view t = view (wc_st c)" by auto
    with wl_inv_same_view [OF inv] c' show ?thesis by simp
  next
    case (Inr u)
    from delete_if_done [OF ok d [unfolded Inr]]
    have t: "ok t" "view t = (view (wc_st c))((KindInstance, inst_name i) := None)" by auto
    have "wl_change now dl w D vw (KindInstance, inst_name i) None"
      using del by (simp add: wl_change_def)
    with wl_inv_upd [OF inv t] c' show ?thesis by simp
  qed
qed

lemma deleteAll_inv:
  assumes "wl_inv now dl w D vw c"
    and "\<forall>i \<in> set is. deletable now dl w (vw (KindInstance, inst_name i))"
    and "deleteAll S is errs c = (es, c')"
  shows "wl_inv now dl w D vw c' \<and> wc_deadlines c' = wc_deadlines c"
  using assms
proof (induction "is" arbitrary: errs c)
  case (Cons i "is")
  obtain e c1 where d: "deleteInstance S i c = (e, c1)" by fastforce
  from deleteInstance_inv [OF Cons.prems(1) _ d] Cons.prems(2)
  have c1: "wl_inv now dl w D vw c1" "wc_deadlines c1 = wc_deadlines c" by auto
  from Cons.prems(3) d have "deleteAll S is (errs @ e) c1 = (es, c')" by simp
  from Cons.IH [OF c1(1) _ this] Cons.prems(2) c1(2) show ?case by simp
qed simp

lemma expireDrains_inv:
  assumes "wl_inv now dl w D vw c"
    and "\<forall>i \<in> set is. listed vw w i \<and> is_draining i"
    and "expireDrains S now is errs c = (es, c')"
  shows "wl_inv now dl w D vw c'"
  using assms
proof (induction "is" arbitrary: errs c)
  case (Cons i "is")
  let ?u = "m_uid (i_Meta i)"
  from Cons.prems(2) have i: "listed vw w i" "is_draining i"
    and rest: "\<forall>j \<in> set is. listed vw w j \<and> is_draining j" by auto
  show ?case
  proof (cases "wc_deadlines c ?u")
    case None
    let ?c = "c\<lparr>wc_deadlines := (wc_deadlines c)(?u \<mapsto> now + drainTimeout i)\<rparr>"
    have "wl_inv now dl w D vw ?c"
      using Cons.prems(1) by (simp add: wl_inv_def dl_ok_new)
    moreover have "expireDrains S now is errs ?c = (es, c')"
      using Cons.prems(3) None by (simp add: Let_def)
    ultimately show ?thesis using Cons.IH rest by blast
  next
    case (Some d)
    show ?thesis
    proof (cases "now < d")
      case True
      with Cons.prems(3) Some have "expireDrains S now is errs c = (es, c')" by (simp add: Let_def)
      then show ?thesis using Cons.IH Cons.prems(1) rest by blast
    next
      case False
      with Some Cons.prems(1) have "dl ?u = Some d \<and> d \<le> now"
        by (simp add: wl_inv_def dl_ok_def)
      with i have "deletable now dl w (vw (KindInstance, inst_name i))"
        by (intro listed_deletable) (auto simp: is_group_defs)
      moreover obtain e c1 where d: "deleteInstance S i c = (e, c1)" by fastforce
      ultimately have "wl_inv now dl w D vw c1"
        using deleteInstance_inv [OF Cons.prems(1)] by blast
      moreover have "expireDrains S now is (errs @ e) c1 = (es, c')"
        using Cons.prems(3) Some False d by (simp add: Let_def)
      ultimately show ?thesis using Cons.IH rest by blast
    qed
  qed
qed simp

lemma retire_inv:
  assumes inv: "wl_inv now dl w D vw c" and i: "listed vw w i" "\<not> is_draining i"
    and D: "is_ready i \<Longrightarrow> inst_name i \<in> D"
    and run: "retire S now i reason c = (es, i', c')"
  shows "wl_inv now dl w D vw c'"
proof (cases "is_ready i")
  case False
  obtain e c1 where d: "deleteInstance S i c = (e, c1)" by fastforce
  from i False have "deletable now dl w (vw (KindInstance, inst_name i))"
    by (intro listed_deletable) auto
  from deleteInstance_inv [OF inv this d] run d False show ?thesis
    by (simp add: retire_def is_ready_def)
next
  case True
  have ok: "ok (wc_st c)" using inv by (simp add: wl_inv_def)
  obtain r t where p: "st_Put S (Object_Instance (retired reason i)) (m_resourceVersion (i_Meta i)) (wc_st c)
      = (r, t)" by fastforce
  show ?thesis
  proof (cases r)
    case (Inl f)
    with run p True have "c' = c\<lparr>wc_st := t\<rparr>"
      by (auto simp: retire_def is_ready_def Let_def split: StoreErr.splits)
    moreover from put_refused [OF ok p [unfolded Inl]] have "ok t" "view t = view (wc_st c)" by auto
    ultimately show ?thesis using wl_inv_same_view [OF inv] by simp
  next
    case (Inr v)
    from put_done [OF ok p [unfolded Inr]] obtain x' where x': "ok t"
      "stamped (Object_Instance (retired reason i)) v x'"
      "view t = (view (wc_st c))((KindInstance, inst_name i) \<mapsto> (x', v))"
      by (auto simp: key_of_def object_name_def retired_def inst_name_def)
    from stamped_Instance [OF x'(2)] obtain j where j: "x' = Object_Instance j" "i_spec j = i_spec i"
      "is_draining j" by (auto simp: retired_def is_draining_def inst_phase_def)
    have "wl_change now dl w D vw (KindInstance, inst_name i) (Some (x', v))"
      using i True D j by (auto simp: wl_change_def listed_def)
    from wl_inv_upd [OF inv x'(1,3) this] have "wl_inv now dl w D vw (c\<lparr>wc_st := t\<rparr>)" .
    moreover from run p True Inr have "c' = c\<lparr>wc_st := t, wc_deadlines :=
        (wc_deadlines c)(m_uid (i_Meta i) \<mapsto> now + drainTimeout i)\<rparr>"
      by (simp add: retire_def is_ready_def Let_def)
    ultimately show ?thesis by (simp add: wl_inv_def dl_ok_new)
  qed
qed

lemma retireAll_inv:
  assumes "wl_inv now dl w D vw c"
    and "\<forall>i \<in> set is. listed vw w i \<and> \<not> is_draining i \<and> inst_name i \<in> D"
    and "retireAll S now is reason errs muts c = (es, ms, c')"
  shows "wl_inv now dl w D vw c'"
  using assms
proof (induction "is" arbitrary: errs muts c)
  case (Cons i "is")
  obtain e j c1 where r: "retire S now i reason c = (e, j, c1)" by (cases "retire S now i reason c")
  from retire_inv [OF Cons.prems(1) _ _ _ r] Cons.prems(2) have "wl_inv now dl w D vw c1" by auto
  moreover from Cons.prems(3) r
  have "retireAll S now is reason (errs @ e) (muts @ [j]) c1 = (es, ms, c')" by simp
  ultimately show ?case using Cons.IH Cons.prems(2) by simp
qed simp

end

lemma new_instance_simps [simp]:
  "inst_name (new_instance w hash n) = n"
  "of_wl x (new_instance w hash n) \<longleftrightarrow> m_name (w_Meta w) = x"
  "inst_phase (new_instance w hash n) = INSTANCE_PHASE_PENDING"
  by (simp_all add: new_instance_def Let_def inst_name_def of_wl_def inst_phase_def)

text \<open>The names a pass may move to DRAINING, as the code decides them.\<close>

definition victims :: "int \<Rightarrow> groups \<Rightarrow> string set" where
  "victims replicas g =
     (let nf = int (length (fresh g)); nr = int (length (retiring g)); ready = ready_count (fresh g) in
      if nf > replicas then inst_name ` set (take (nat (nf - replicas)) (fresh g))
      else if nf + nr > replicas \<and> retiring g \<noteq> [] \<and> draining g = [] \<and>
              (ready \<ge> min replicas nf \<or> surgeBlocked (fresh g))
        then {inst_name (retiring g ! 0)}
      else {})"

context store_contract
begin

lemma createInstance_loop_inv:
  assumes "wl_inv now dl (m_name (w_Meta w)) D vw c"
    and "createInstance_loop S rnd k w hash c = (es, c')"
  shows "wl_inv now dl (m_name (w_Meta w)) D vw c'"
  using assms
proof (induction k arbitrary: c)
  case (Suc k)
  let ?n = "m_name (w_Meta w) @ ''-'' @ hexSuffix rnd (wc_draws c)"
  let ?c = "c\<lparr>wc_draws := wc_draws c + 1\<rparr>"
  have inv: "wl_inv now dl (m_name (w_Meta w)) D vw ?c" using Suc.prems(1) by (simp add: wl_inv_def)
  then have ok: "ok (wc_st ?c)" by (simp add: wl_inv_def)
  obtain r t where p: "st_Put S (Object_Instance (new_instance w hash ?n)) RevCreate (wc_st ?c) = (r, t)"
    by fastforce
  show ?case
  proof (cases r)
    case (Inl f)
    from put_refused [OF ok p [unfolded Inl]] have "ok t" "view t = view (wc_st ?c)" by auto
    from wl_inv_same_view [OF inv this] have t: "wl_inv now dl (m_name (w_Meta w)) D vw (?c\<lparr>wc_st := t\<rparr>)" .
    from Suc.prems(2) p Inl
    have "c' = ?c\<lparr>wc_st := t\<rparr> \<or> createInstance_loop S rnd k w hash (?c\<lparr>wc_st := t\<rparr>) = (es, c')"
      by (auto simp: Let_def split: StoreErr.splits)
    with t Suc.IH show ?thesis by blast
  next
    case (Inr v)
    have q: "key_of (Object_Instance (new_instance w hash ?n)) = (KindInstance, ?n)"
      using new_instance_simps(1) [of w hash ?n]
      by (simp add: key_of_def object_name_def inst_name_def)
    from put_done [OF ok p [unfolded Inr]] obtain x' where x': "ok t"
      "stamped (Object_Instance (new_instance w hash ?n)) v x'" "view (wc_st ?c) (KindInstance, ?n) = None"
      "view t = (view (wc_st ?c))((KindInstance, ?n) \<mapsto> (x', v))"
      unfolding q by auto
    from stamped_Instance [OF x'(2)] obtain j where j: "x' = Object_Instance j"
      "of_wl (m_name (w_Meta w)) j" "inst_phase j = INSTANCE_PHASE_PENDING"
      using new_instance_simps(2) [of _ w hash ?n] new_instance_simps(3) [of w hash ?n]
      by (auto simp: of_wl_def inst_phase_def)
    from inv have "wl_pass now dl (m_name (w_Meta w)) D vw (view (wc_st ?c))"
      by (simp only: wl_inv_def)
    note gone = wl_pass_None [OF this, of "(KindInstance, ?n)", OF x'(3)]
    have "wl_change now dl (m_name (w_Meta w)) D vw (KindInstance, ?n) (Some (x', v))"
      unfolding wl_change_def using gone j by (metis fst_conv)
    from wl_inv_upd [OF inv x'(1,4) this] show ?thesis using Suc.prems(2) p Inr by (simp add: Let_def)
  qed
qed simp

lemma createMany_inv:
  assumes "wl_inv now dl (m_name (w_Meta w)) D vw c"
    and "createMany S rnd k w hash errs c = (es, c')"
  shows "wl_inv now dl (m_name (w_Meta w)) D vw c'"
  using assms
proof (induction k arbitrary: errs c)
  case (Suc k)
  obtain e c1 where r: "createInstance S rnd w hash c = (e, c1)" by fastforce
  from createInstance_loop_inv [OF Suc.prems(1)] r
  have "wl_inv now dl (m_name (w_Meta w)) D vw c1" by (simp add: createInstance_def)
  moreover from Suc.prems(2) r have "createMany S rnd k w hash (errs @ e) c1 = (es, c')" by simp
  ultimately show ?case using Suc.IH by blast
qed simp

lemma rollStep_inv:
  assumes inv: "wl_inv now dl (m_name (w_Meta w)) D vw c"
    and g: "retiring g \<noteq> []" "draining g = []" "\<not> int (length (fresh g)) > replicas"
      "\<forall>i \<in> set (retiring g). listed vw (m_name (w_Meta w)) i \<and> \<not> is_draining i"
    and D: "victims replicas g \<subseteq> D"
    and run: "rollStep S rnd now w hash replicas g c = (es, ms, c')"
  shows "wl_inv now dl (m_name (w_Meta w)) D vw c'"
proof -
  let ?nf = "int (length (fresh g))" and ?nr = "int (length (retiring g))"
  let ?v = "retiring g ! 0"
  have v: "listed vw (m_name (w_Meta w)) ?v" "\<not> is_draining ?v"
    using g(1,4) by auto
  have ret: "wl_inv now dl (m_name (w_Meta w)) D vw t"
    if "retire S now ?v reason c = (e, j, t)" "inst_name ?v \<in> D" for reason e j t
    using retire_inv [OF inv v _ that(1)] that(2) by simp
  have crt: "wl_inv now dl (m_name (w_Meta w)) D vw t"
    if "createInstance S rnd w hash c = (e, t)" for e t
    using createInstance_loop_inv [OF inv] that by (simp add: createInstance_def)
  consider (surge) "?nf + ?nr = replicas \<and> ready_count (fresh g) = ?nf"
    | (roll) "\<not> (?nf + ?nr = replicas \<and> ready_count (fresh g) = ?nf)" "?nf + ?nr > replicas"
        "ready_count (fresh g) \<ge> min replicas ?nf \<or> surgeBlocked (fresh g)"
    | (wait) "c' = c"
    using run by (auto simp: rollStep_def Let_def split: if_splits)
  then show ?thesis
  proof cases
    case surge
    with run crt show ?thesis by (auto simp: rollStep_def Let_def split: prod.splits)
  next
    case roll
    then have "inst_name ?v \<in> D" using D g by (auto simp: victims_def Let_def split: if_splits)
    with run roll ret show ?thesis
      by (auto simp: rollStep_def Let_def split: prod.splits if_splits)
  next
    case wait
    with inv show ?thesis by simp
  qed
qed

lemma advance_inv:
  assumes inv: "wl_inv now dl (m_name (w_Meta w)) D vw c"
    and ins: "\<forall>i \<in> set insts. listed vw (m_name (w_Meta w)) i"
    and D: "victims (ws_replicas (w_Spec w)) (classify hash insts dn) \<subseteq> D"
    and run: "advance S rnd now w hash insts dn c = (es, ms, c')"
  shows "wl_inv now dl (m_name (w_Meta w)) D vw c'"
proof -
  define g where "g = classify hash insts dn"
  define replicas where "replicas = ws_replicas (w_Spec w)"
  let ?nf = "int (length (fresh g))" and ?nr = "int (length (retiring g))"
  obtain e1 c1 where r1: "deleteAll S (doomed g) [] c = (e1, c1)" by fastforce
  obtain e2 c2 where r2: "expireDrains S now (draining g) [] c1 = (e2, c2)" by fastforce
  have mem: "\<forall>i \<in> set (fresh g) \<union> set (retiring g). listed vw (m_name (w_Meta w)) i \<and> \<not> is_draining i"
    using ins by (auto simp: g_def is_group_defs)
  have "\<forall>i \<in> set (doomed g). deletable now dl (m_name (w_Meta w)) (vw (KindInstance, inst_name i))"
    using ins by (auto simp: g_def is_stale_def intro!: listed_deletable)
  with deleteAll_inv [OF inv _ r1] have c1: "wl_inv now dl (m_name (w_Meta w)) D vw c1" by simp
  have "\<forall>i \<in> set (draining g). listed vw (m_name (w_Meta w)) i \<and> is_draining i"
    using ins by (simp add: g_def)
  from expireDrains_inv [OF c1 this r2] have c2: "wl_inv now dl (m_name (w_Meta w)) D vw c2" .
  note body = run [unfolded advance_def g_def [symmetric] replicas_def [symmetric] Let_def r1 r2 prod.case]
  show ?thesis
  proof (cases "?nf - replicas > 0")
    case True
    have "\<forall>i \<in> set (take (nat (?nf - replicas)) (fresh g)).
        listed vw (m_name (w_Meta w)) i \<and> \<not> is_draining i \<and> inst_name i \<in> D"
      using mem D True unfolding g_def [symmetric] replicas_def [symmetric] victims_def
      by (auto simp: Let_def dest: in_set_takeD)
    with retireAll_inv [OF c2] body True show ?thesis by simp
  next
    case False
    show ?thesis
    proof (cases "replicas - ?nf - ?nr > 0")
      case True
      with createMany_inv [OF c2] body False show ?thesis by (auto split: prod.splits)
    next
      case miss: False
      show ?thesis
      proof (cases "retiring g = [] \<or> draining g \<noteq> []")
        case True
        with body False miss c2 show ?thesis by simp
      next
        case roll: False
        obtain e3 ms3 c3 where r3: "rollStep S rnd now w hash replicas g c2 = (e3, ms3, c3)"
          by (cases "rollStep S rnd now w hash replicas g c2")
        from rollStep_inv [OF c2 _ _ _ _ _ r3] roll False mem D
        have "wl_inv now dl (m_name (w_Meta w)) D vw c3" by (auto simp: g_def replicas_def)
        with body False miss roll r3 show ?thesis by simp
      qed
    qed
  qed
qed

end

subsection \<open>Serving instances\<close>

definition serving ::
    "(string \<times> string \<Rightarrow> (Object \<times> int) option) \<Rightarrow> string \<Rightarrow> string set" where
  "serving vw w = {nm. \<exists>i v. vw (KindInstance, nm) = Some (Object_Instance i, v) \<and> of_wl w i \<and> is_ready i}"

lemma wl_pass_serving:
  assumes "wl_pass now dl w D vw vw'"
  shows "serving vw w - D \<subseteq> serving vw' w"
proof
  fix nm assume nm: "nm \<in> serving vw w - D"
  then obtain i v where i: "vw (KindInstance, nm) = Some (Object_Instance i, v)" "of_wl w i" "is_ready i"
    by (auto simp: serving_def)
  from assms have "wl_change now dl w D vw (KindInstance, nm) (vw' (KindInstance, nm))"
    unfolding wl_pass_def by blast
  with i nm have "vw' (KindInstance, nm) = vw (KindInstance, nm)"
    by (auto simp: wl_change_def deletable_def)
  with i show "nm \<in> serving vw' w" by (auto simp: serving_def)
qed

lemma finite_serving_mem: "finite (serving (mem_view m) w)"
proof (rule finite_subset)
  show "serving (mem_view m) w \<subseteq> fmdom' (mem_objs m KindInstance)"
    by (auto simp: serving_def mem_view_def fmlookup_dom'_iff)
qed simp

lemma card_diff_ge:
  assumes "finite A" "finite B" "A - D \<subseteq> B" "finite D"
  shows "int (card A) - int (card (A \<inter> D)) \<le> int (card B)"
proof -
  have "card A = card (A - D) + card (A \<inter> D)"
    using assms(1) card_Int_Diff by (metis add.commute)
  moreover have "card (A - D) \<le> card B"
    using assms by (intro card_mono)
  ultimately show ?thesis by linarith
qed

text \<open>How many READY instances the victims are, against what is left.\<close>

lemma victims_leave_enough:
  assumes g: "g = classify hash insts dn" and r: "0 \<le> replicas"
    and calm: "ready_count (fresh g) = int (length (fresh g)) \<or>
      int (length (fresh g)) \<le> replicas \<and> \<not> surgeBlocked (fresh g)"
  shows "min replicas (ready_count insts) \<le> ready_count insts - int (card (victims replicas g))"
proof -
  let ?nf = "int (length (fresh g))" and ?nr = "int (length (retiring g))"
  have split: "ready_count insts = ready_count (fresh g) + ?nr"
    unfolding g by (rule ready_count_split)
  show ?thesis
  proof (cases "?nf > replicas")
    case True
    with calm have "ready_count (fresh g) = ?nf" by auto
    moreover have "card (victims replicas g) \<le> nat (?nf - replicas)"
    proof -
      have "card (victims replicas g) \<le> length (take (nat (?nf - replicas)) (fresh g))"
        using True card_image_le [of "set (take (nat (?nf - replicas)) (fresh g))" inst_name]
          card_length [of "take (nat (?nf - replicas)) (fresh g)"]
        by (simp add: victims_def Let_def)
      also have "\<dots> \<le> nat (?nf - replicas)" by simp
      finally show ?thesis .
    qed
    ultimately show ?thesis using split True by linarith
  next
    case False
    show ?thesis
    proof (cases "victims replicas g = {}")
      case True
      then show ?thesis by simp
    next
      case False
      with \<open>\<not> ?nf > replicas\<close> have v: "?nf + ?nr > replicas"
        "ready_count (fresh g) \<ge> min replicas ?nf \<or> surgeBlocked (fresh g)"
        "card (victims replicas g) = 1"
        by (auto simp: victims_def Let_def split: if_splits)
      with calm \<open>\<not> ?nf > replicas\<close> ready_count_le [of "fresh g"]
      have "ready_count (fresh g) = ?nf" by auto
      with split v show ?thesis by linarith
    qed
  qed
qed

context store_contract
begin

lemma serving_listed:
  assumes "ok s" and "st_List S KindInstance s = (Inr (objs, v), s')"
    and "insts = filter (of_wl w) (map GetInstance objs)"
  shows "serving (view s) w = inst_name ` set (filter is_ready insts)"
    and "distinct (map inst_name insts)" and "\<forall>i \<in> set insts. listed (view s) w i"
proof -
  have obj: "\<exists>i. x = Object_Instance i \<and> view s (KindInstance, inst_name i) = Some (x, m_resourceVersion (MetaOf x))"
    if "x \<in> set objs" for x
    using listed_entry [OF assms(1,2) kinds_in(5) that] Object_of_kind(1) [of x]
    by (metis MetaOf.simps(5) inst_name_def object_name_def)
  have name: "inst_name (GetInstance x) = object_name x" if "x \<in> set objs" for x
    using obj [OF that] by (auto simp: object_name_def inst_name_def)
  then have "map inst_name (map GetInstance objs) = map object_name objs" by simp
  then have d: "distinct (map inst_name (map GetInstance objs))"
    using listed_view(2) [OF assms(1,2) kinds_in(5)] by (simp only:)
  then show "distinct (map inst_name insts)"
    unfolding assms(3) by (rule distinct_map_filter)
  show "\<forall>i \<in> set insts. listed (view s) w i"
    using obj unfolding assms(3) listed_def by fastforce
  show "serving (view s) w = inst_name ` set (filter is_ready insts)"
  proof -
    let ?xs = "map GetInstance objs"
    have A: "i \<in> set ?xs \<and> inst_name i = nm"
      if "view s (KindInstance, nm) = Some (Object_Instance i, v)" for i v nm
    proof -
      note vo = view_ok [OF assms(1) that]
      with that listed_view(1) [OF assms(1,2) kinds_in(5), of "Object_Instance i"]
      have "Object_Instance i \<in> set objs" by simp
      then have "GetInstance (Object_Instance i) \<in> set ?xs" unfolding set_map by (rule imageI)
      with vo show ?thesis by (simp add: object_name_def inst_name_def)
    qed
    have B: "\<exists>v. view s (KindInstance, inst_name i) = Some (Object_Instance i, v)"
      if i: "i \<in> set ?xs" for i
    proof -
      from i obtain x where x: "x \<in> set objs" "i = GetInstance x" by auto
      from obj [OF x(1)] x(2) show ?thesis by auto
    qed
    have "set (filter is_ready insts) = {i \<in> set ?xs. of_wl w i \<and> is_ready i}"
      unfolding assms(3) set_filter by blast
    then show ?thesis unfolding serving_def using A B by blast
  qed
qed

lemma card_serving:
  assumes "ok s" and "st_List S KindInstance s = (Inr (objs, v), s')"
    and "insts = filter (of_wl w) (map GetInstance objs)"
  shows "int (card (serving (view s) w)) = ready_count insts"
proof -
  have "distinct (map inst_name (filter is_ready insts))"
    using serving_listed(2) [OF assms] by (rule distinct_map_filter)
  then have "card (inst_name ` set (filter is_ready insts)) = length (filter is_ready insts)"
    using distinct_card by fastforce
  then show ?thesis
    unfolding serving_listed(1) [OF assms] ready_count_def is_ready_def by simp
qed

end

subsection \<open>Properties\<close>

lemma advance_mem_pass:
  assumes "mem_ok m" and "st_List (memory_store t) KindInstance m = (Inr (objs, rv), m1)"
    and "insts = filter (of_wl (m_name (w_Meta w))) (map GetInstance objs)"
    and "advance (memory_store t) rnd now w hash insts dn
      \<lparr>wc_st = m1, wc_deadlines = dl, wc_draws = k\<rparr> = (es, ms, c')"
  shows "wl_pass now dl (m_name (w_Meta w)) (victims (ws_replicas (w_Spec w)) (classify hash insts dn))
    (mem_view m) (mem_view (wc_st c'))"
proof -
  from mem.list_frame [OF assms(1,2)] have m1: "mem_ok m1" "mem_view m1 = mem_view m" by auto
  have "mem.wl_inv now dl (m_name (w_Meta w))
      (victims (ws_replicas (w_Spec w)) (classify hash insts dn)) (mem_view m)
      \<lparr>wc_st = m1, wc_deadlines = dl, wc_draws = k\<rparr>"
    using m1 by (simp add: mem.wl_inv_def wl_pass_refl dl_ok_refl)
  from mem.advance_inv [OF this mem.serving_listed(3) [OF assms(1-3)] subset_refl assms(4)]
  show ?thesis by (simp add: mem.wl_inv_def)
qed

text \<open>
  C11. A rollout never dips. Take any reachable store, the instances of a workload as a listing gives
  them, and one \<open>advance\<close> of that workload. Unless it is a scale-down with unready fresh
  instances, or the drain-first fallback for a surge that cannot be scheduled, the number of
  READY instances after the pass is at least the smaller of the replica count and the number of
  READY instances before it.
\<close>

theorem rollout_never_dips:
  assumes m: "m = run_ops (memory_store t) ops mem_New"
    and objs: "st_List (memory_store t) KindInstance m = (Inr (objs, rv), m1)"
    and insts: "insts = filter (of_wl (m_name (w_Meta w))) (map GetInstance objs)"
    and run: "advance (memory_store t) rnd now w hash insts dn
      \<lparr>wc_st = m1, wc_deadlines = dl, wc_draws = k\<rparr> = (es, ms, c')"
    and rep: "0 \<le> ws_replicas (w_Spec w)"
    and calm: "ready_count (fresh (classify hash insts dn)) = int (length (fresh (classify hash insts dn))) \<or>
      int (length (fresh (classify hash insts dn))) \<le> ws_replicas (w_Spec w) \<and>
        \<not> surgeBlocked (fresh (classify hash insts dn))"
  shows "min (ws_replicas (w_Spec w)) (int (card (serving (mem_view m) (m_name (w_Meta w)))))
    \<le> int (card (serving (mem_view (wc_st c')) (m_name (w_Meta w))))"
proof -
  let ?w = "m_name (w_Meta w)"
  let ?D = "victims (ws_replicas (w_Spec w)) (classify hash insts dn)"
  have ok: "mem_ok m" unfolding m by (rule mem_reachable_ok)
  have fin: "finite ?D" by (simp add: victims_def Let_def)
  have "int (card (serving (mem_view m) ?w)) - int (card (serving (mem_view m) ?w \<inter> ?D))
      \<le> int (card (serving (mem_view (wc_st c')) ?w))"
    by (intro card_diff_ge finite_serving_mem fin
        wl_pass_serving [OF advance_mem_pass [OF ok objs insts run]])
  moreover have "card (serving (mem_view m) ?w \<inter> ?D) \<le> card ?D"
    using fin by (intro card_mono) auto
  ultimately show ?thesis
    using victims_leave_enough [OF refl rep calm] mem.card_serving [OF ok objs insts] by linarith
qed

definition sample_wl_instance :: "string \<Rightarrow> string \<Rightarrow> InstancePhase \<Rightarrow> int \<Rightarrow> Object" where
  "sample_wl_instance n hash ph created = Object_Instance
     \<lparr>i_meta = Some (zero_Meta\<lparr>m_name := n, m_createdUnix := created\<rparr>),
      i_spec = Some (zero_InstanceSpec\<lparr>is_workload := ''web'', is_node := ''n1'', is_templateHash := hash\<rparr>),
      i_status = Some (zero_InstanceStatus\<lparr>ist_phase := ph\<rparr>)\<rparr>"

definition sample_workload :: "int \<Rightarrow> Workload" where
  "sample_workload k = zero_Workload\<lparr>w_meta := Some (zero_Meta\<lparr>m_name := ''web''\<rparr>),
     w_spec := Some (zero_WorkloadSpec\<lparr>ws_replicas := k\<rparr>)\<rparr>"

definition sample_rollout_ops :: "Op list" where
  "sample_rollout_ops = [OpPut (sample_wl_instance ''web-1'' ''old'' INSTANCE_PHASE_READY 1) 0,
     OpPut (sample_wl_instance ''web-2'' ''new'' INSTANCE_PHASE_READY 2) 0]"

lemma rollout_never_dips_witness:
  "\<exists>m objs rv m1 es ms c'. m = run_ops (memory_store 7) sample_rollout_ops mem_New \<and>
    st_List (memory_store 7) KindInstance m = (Inr (objs, rv), m1) \<and>
    advance (memory_store 7) (\<lambda>_. (0, 0)) 5 (sample_workload 1) ''new''
      (filter (of_wl ''web'') (map GetInstance objs)) (\<lambda>_. False)
      \<lparr>wc_st = m1, wc_deadlines = (\<lambda>_. None), wc_draws = 0\<rparr> = (es, ms, c') \<and>
    min 1 (int (card (serving (mem_view m) ''web''))) \<le> int (card (serving (mem_view (wc_st c')) ''web''))"
proof -
  define m where "m = run_ops (memory_store 7) sample_rollout_ops mem_New"
  define objs where "objs = fst (projr (fst (st_List (memory_store 7) KindInstance m)))"
  define rv where "rv = snd (projr (fst (st_List (memory_store 7) KindInstance m)))"
  define insts where "insts = filter (of_wl ''web'') (map GetInstance objs)"
  define c where "c = \<lparr>wc_st = m, wc_deadlines = (\<lambda>_. None), wc_draws = 0\<rparr>"
  have l: "st_List (memory_store 7) KindInstance m = (Inr (objs, rv), m)"
    unfolding objs_def rv_def by (simp add: memory_store_def mem_List_def bucket_def)
  obtain es ms c' where run: "advance (memory_store 7) (\<lambda>_. (0, 0)) 5 (sample_workload 1) ''new'' insts
      (\<lambda>_. False) c = (es, ms, c')" by (rule prod_cases3)
  have nm: "m_name (w_Meta (sample_workload 1)) = ''web''" "ws_replicas (w_Spec (sample_workload 1)) = 1"
    by (simp_all add: sample_workload_def)
  have "ready_count (fresh (classify ''new'' insts (\<lambda>_. False))) =
      int (length (fresh (classify ''new'' insts (\<lambda>_. False))))"
    unfolding insts_def objs_def m_def by code_simp
  then show ?thesis
    using rollout_never_dips [OF m_def l _ run [unfolded c_def]] run l
    unfolding nm insts_def c_def m_def by auto
qed



text \<open>The READY instances of a workload a listing shows.\<close>

definition listed_ready :: "'s Store \<Rightarrow> string \<Rightarrow> 's \<Rightarrow> int" where
  "listed_ready S w s = ready_count (filter (of_wl w) (map GetInstance
     (fst (projr (fst (st_List S KindInstance s))))))"

definition sample_scale_down_ops :: "Op list" where
  "sample_scale_down_ops = [OpPut (sample_wl_instance ''web-1'' ''new'' INSTANCE_PHASE_PENDING 1) 0,
     OpPut (sample_wl_instance ''web-2'' ''new'' INSTANCE_PHASE_READY 2) 0]"


end
