(* ===== verification/Klite_Alloc.thy ===== *)
theory Klite_Alloc
  imports Klite_Store
begin

text \<open>
  What the VIP controller and the ingress-port controller have in common: both keep one
  allocation object per wanted name, repair duplicate and invalid addresses by releasing the
  object at the listed revision, and fill the gaps with create-only writes of the first free
  address. \<open>alloc_scan\<close> and \<open>alloc_fill\<close> are that shape; the component theories show that their
  models run it. The locale \<open>repair_allocator\<close> states what the shape needs of an address pool
  and proves once what a pass achieves on a reliable store: every allocation left is wanted and
  valid, no address is held twice, and a valid first holder keeps its address.
\<close>

definition release_ignore :: "StoreErr \<Rightarrow> StoreErr list" where
  "release_ignore e = (case e of ErrNotFound \<Rightarrow> [] | ErrConflict \<Rightarrow> [] | _ \<Rightarrow> [e])"

definition release ::
    "'s Store \<Rightarrow> string \<Rightarrow> string \<Rightarrow> int \<Rightarrow> 's \<Rightarrow> StoreErr list \<times> 's" where
  "release S kind name rv s = (case st_DeleteIfRevision S kind name rv s of
     (Inl err, s') \<Rightarrow> (release_ignore err, s')
   | (Inr _, s') \<Rightarrow> ([], s'))"

definition reserve :: "'a option \<Rightarrow> ('a \<Rightarrow> bool) \<Rightarrow> 'a \<Rightarrow> bool" where
  "reserve a used = (case a of None \<Rightarrow> used | Some x \<Rightarrow> used(x := True))"

definition keep ::
    "(Object \<Rightarrow> 'a option) \<Rightarrow> ('w \<Rightarrow> Object \<Rightarrow> bool) \<Rightarrow> (string, 'w) fmap \<Rightarrow> ('a \<Rightarrow> bool) \<Rightarrow> Object \<Rightarrow> bool" where
  "keep addr good want used x \<longleftrightarrow> (\<exists>w a. fmlookup want (object_name x) = Some w \<and> good w x \<and>
     addr x = Some a \<and> \<not> used a)"

fun alloc_scan ::
    "'s Store \<Rightarrow> string \<Rightarrow> (Object \<Rightarrow> 'a option) \<Rightarrow> ('w \<Rightarrow> Object \<Rightarrow> bool) \<Rightarrow> Object list \<Rightarrow>
     (string, 'w) fmap \<Rightarrow> ('a \<Rightarrow> bool) \<Rightarrow> StoreErr list \<Rightarrow> 's \<Rightarrow>
     (string, 'w) fmap \<times> ('a \<Rightarrow> bool) \<times> StoreErr list \<times> 's" where
  "alloc_scan S kind addr good [] want used errs s = (want, used, errs, s)"
| "alloc_scan S kind addr good (x # xs) want used errs s =
     (if keep addr good want used x
      then alloc_scan S kind addr good xs (fmdrop (object_name x) want) (reserve (addr x) used) errs s
      else (let (es, s') = release S kind (object_name x) (m_resourceVersion (MetaOf x)) s
            in alloc_scan S kind addr good xs want (reserve (addr x) used) (errs @ es) s'))"

datatype FillErr = FillStore StoreErr | FillExhausted

fun alloc_fill ::
    "'s Store \<Rightarrow> ('w \<Rightarrow> ('a \<Rightarrow> bool) \<Rightarrow> 'a option) \<Rightarrow> ('w \<Rightarrow> 'a \<Rightarrow> Object) \<Rightarrow> string list \<Rightarrow>
     (string, 'w) fmap \<Rightarrow> ('a \<Rightarrow> bool) \<Rightarrow> FillErr list \<Rightarrow> 's \<Rightarrow> FillErr list \<times> 's" where
  "alloc_fill S pick mk [] want used errs s = (errs, s)"
| "alloc_fill S pick mk (n # ns) want used errs s =
     (let w = the (fmlookup want n) in
      case pick w used of
        None \<Rightarrow> alloc_fill S pick mk ns want used (errs @ [FillExhausted]) s
      | Some a \<Rightarrow>
        (case st_Put S (mk w a) RevCreate s of
           (Inr _, s') \<Rightarrow> alloc_fill S pick mk ns want (used(a := True)) errs s'
         | (Inl ErrAlreadyExists, s') \<Rightarrow> alloc_fill S pick mk ns want (used(a := True)) errs s'
         | (Inl e, s') \<Rightarrow> alloc_fill S pick mk ns want (used(a := True)) (errs @ [FillStore e]) s'))"

lemma fmupd_fmdrop_same: "fmlookup m k = Some v \<Longrightarrow> fmupd k v (fmdrop k m) = m"
  by (rule fmap_ext) auto

lemma fmdrop_absent: "fmlookup m k = None \<Longrightarrow> fmdrop k m = m"
  by (rule fmap_ext) auto

lemma reserve_apply: "reserve a used b \<longleftrightarrow> used b \<or> a = Some b"
  by (auto simp: reserve_def split: option.splits)

locale repair_allocator = reliable_store S view cur ok
  for S :: "'s Store" and view :: "'s \<Rightarrow> string \<times> string \<Rightarrow> (Object \<times> int) option"
    and cur :: "'s \<Rightarrow> int" and ok :: "'s \<Rightarrow> bool" +
  fixes kind :: string
    and addr :: "Object \<Rightarrow> 'a option"
    and good :: "'w \<Rightarrow> Object \<Rightarrow> bool"
    and pick :: "'w \<Rightarrow> ('a \<Rightarrow> bool) \<Rightarrow> 'a option"
    and mk :: "'w \<Rightarrow> 'a \<Rightarrow> Object"
    and wname :: "'w \<Rightarrow> string"
    and cap :: "'w \<Rightarrow> 'a set"
  assumes kind_known: "kind \<in> set Kinds"
    and pick_free: "pick w used = Some a \<Longrightarrow> \<not> used a"
    and pick_none: "pick w used = None \<Longrightarrow> a \<in> cap w \<Longrightarrow> used a"
    and cap_finite: "finite (cap w)"
    and pick_good: "pick w used = Some a \<Longrightarrow> good w (mk w a)"
    and mk_kind: "KindOf (mk w a) = kind"
    and mk_name: "object_name (mk w a) = wname w"
    and mk_addr: "pick w used = Some a \<Longrightarrow> addr (mk w a) = Some a"
    and addr_meta: "addr (upd_Meta f x) = addr x"
    and good_meta: "good w (upd_Meta f x) = good w x"
begin

lemma stamped_addr: "stamped x v x' \<Longrightarrow> addr x' = addr x \<and> good w x' = good w x"
  by (auto simp: stamped_def addr_meta good_meta)

lemma release_listed:
  assumes "ok s" and "view s (kind, n) = Some (x, r)"
  shows "\<exists>s'. release S kind n r s = ([], s') \<and> ok s' \<and> view s' = (view s)((kind, n) := None)"
proof -
  obtain t where t: "st_DeleteIfRevision S kind n r s = (Inr (), t)"
    using delete_if_total [OF assms(1) kind_known assms(2)] by (metis prod.collapse)
  from delete_if_done [OF assms(1) t] Canonical_kind [OF kind_known]
  have "ok t" "view t = (view s)((kind, n) := None)" by auto
  with t show ?thesis by (auto simp: release_def)
qed

lemma scan_pass:
  assumes "ok s"
    and "\<forall>x \<in> set xs. view s (kind, object_name x) = Some (x, m_resourceVersion (MetaOf x))"
    and "distinct (map object_name xs)"
    and "alloc_scan S kind addr good xs want used errs s = (want', used', errs', s')"
  shows "ok s' \<and> errs' = errs \<and> (\<forall>a. used' a \<longleftrightarrow> used a \<or> (\<exists>x \<in> set xs. addr x = Some a)) \<and>
    (\<exists>kept \<subseteq> set xs.
      (\<forall>x \<in> kept. keep addr good want used x) \<and> inj_on addr kept \<and>
      (\<forall>n. fmlookup want' n = (if n \<in> object_name ` kept then None else fmlookup want n)) \<and>
      (\<forall>q. view s' q = (if q \<in> (\<lambda>x. (kind, object_name x)) ` (set xs - kept) then None else view s q)) \<and>
      (\<forall>ys x zs. xs = ys @ x # zs \<longrightarrow> keep addr good want used x \<longrightarrow> (\<forall>y \<in> set ys. addr y \<noteq> addr x) \<longrightarrow> x \<in> kept))"
  using assms
proof (induction xs arbitrary: want used errs s)
  case Nil
  then show ?case by (auto intro!: exI [of _ "{}"])
next
  case (Cons x xs)
  let ?n = "object_name x"
  have nx: "?n \<notin> object_name ` set xs" and d: "distinct (map object_name xs)" using Cons.prems(3) by auto
  show ?case
  proof (cases "keep addr good want used x")
    case True
    with Cons.prems(4) have run: "alloc_scan S kind addr good xs (fmdrop ?n want) (reserve (addr x) used) errs s
        = (want', used', errs', s')" by simp
    have kw: "keep addr good (fmdrop ?n want) (reserve (addr x) used) y \<longleftrightarrow>
        keep addr good want used y \<and> addr y \<noteq> addr x" if "y \<in> set xs" for y
    proof -
      have "object_name y \<noteq> ?n" using that nx by (metis imageI)
      then show ?thesis by (auto simp: keep_def reserve_apply)
    qed
    from Cons.IH [OF Cons.prems(1) _ d run] Cons.prems(2) obtain kept where
      IH: "ok s'" "errs' = errs" "\<forall>a. used' a \<longleftrightarrow> reserve (addr x) used a \<or> (\<exists>y \<in> set xs. addr y = Some a)"
        "kept \<subseteq> set xs" "\<forall>y \<in> kept. keep addr good (fmdrop ?n want) (reserve (addr x) used) y" "inj_on addr kept"
        "\<forall>n. fmlookup want' n = (if n \<in> object_name ` kept then None else fmlookup (fmdrop ?n want) n)"
        "\<forall>q. view s' q = (if q \<in> (\<lambda>x. (kind, object_name x)) ` (set xs - kept) then None else view s q)"
        "\<forall>ys y zs. xs = ys @ y # zs \<longrightarrow> keep addr good (fmdrop ?n want) (reserve (addr x) used) y \<longrightarrow>
           (\<forall>z \<in> set ys. addr z \<noteq> addr y) \<longrightarrow> y \<in> kept"
      by auto
    have x: "x \<notin> set xs" using nx by auto
    have rel: "set (x # xs) - insert x kept = set xs - kept" using x by auto
    have "\<forall>a. used' a \<longleftrightarrow> used a \<or> (\<exists>x \<in> set (x # xs). addr x = Some a)"
      using IH(3) by (auto simp: reserve_apply)
    moreover have "insert x kept \<subseteq> set (x # xs)" using IH(4) by auto
    moreover have "\<forall>y \<in> insert x kept. keep addr good want used y"
      using IH(4,5) kw True by blast
    moreover have "inj_on addr (insert x kept)"
      using IH(4,5,6) kw x by (fastforce simp: inj_on_insert)
    moreover have "\<forall>n. fmlookup want' n = (if n \<in> object_name ` insert x kept then None else fmlookup want n)"
      using IH(7) by auto
    moreover have "\<forall>q. view s' q = (if q \<in> (\<lambda>x. (kind, object_name x)) ` (set (x # xs) - insert x kept)
        then None else view s q)"
      unfolding rel by (rule IH(8))
    moreover have "y \<in> insert x kept" if "x # xs = ys @ y # zs" "keep addr good want used y"
      "\<forall>z \<in> set ys. addr z \<noteq> addr y" for ys y zs
    proof (cases ys)
      case Nil
      with that show ?thesis by simp
    next
      case (Cons z ys')
      with that have "xs = ys' @ y # zs" "addr x \<noteq> addr y" "\<forall>z \<in> set ys'. addr z \<noteq> addr y" by auto
      with IH(9) kw [of y] that(2) show ?thesis by fastforce
    qed
    ultimately show ?thesis using IH(1,2) by blast
  next
    case False
    obtain t where t: "release S kind ?n (m_resourceVersion (MetaOf x)) s = ([], t)" "ok t"
      "view t = (view s)((kind, ?n) := None)"
      using release_listed [OF Cons.prems(1)] Cons.prems(2) by (metis list.set_intros(1))
    from Cons.prems(4) False t(1) have run:
      "alloc_scan S kind addr good xs want (reserve (addr x) used) errs t = (want', used', errs', s')" by simp
    have kw: "keep addr good want (reserve (addr x) used) y \<longleftrightarrow>
        keep addr good want used y \<and> addr y \<noteq> addr x" for y
      by (auto simp: keep_def reserve_apply)
    have "\<forall>y \<in> set xs. view t (kind, object_name y) = Some (y, m_resourceVersion (MetaOf y))"
    proof
      fix y assume y: "y \<in> set xs"
      then have "object_name y \<noteq> ?n" using nx by (metis imageI)
      with y Cons.prems(2) show "view t (kind, object_name y) = Some (y, m_resourceVersion (MetaOf y))"
        unfolding t(3) by simp
    qed
    from Cons.IH [OF t(2) this d run] obtain kept where
      IH: "ok s'" "errs' = errs" "\<forall>a. used' a \<longleftrightarrow> reserve (addr x) used a \<or> (\<exists>y \<in> set xs. addr y = Some a)"
        "kept \<subseteq> set xs" "\<forall>y \<in> kept. keep addr good want (reserve (addr x) used) y" "inj_on addr kept"
        "\<forall>n. fmlookup want' n = (if n \<in> object_name ` kept then None else fmlookup want n)"
        "\<forall>q. view s' q = (if q \<in> (\<lambda>x. (kind, object_name x)) ` (set xs - kept) then None else view t q)"
        "\<forall>ys y zs. xs = ys @ y # zs \<longrightarrow> keep addr good want (reserve (addr x) used) y \<longrightarrow>
           (\<forall>z \<in> set ys. addr z \<noteq> addr y) \<longrightarrow> y \<in> kept"
      by auto
    have x: "x \<notin> set xs" using nx by auto
    have rel: "set (x # xs) - kept = insert x (set xs - kept)" using x IH(4) by auto
    have "\<forall>a. used' a \<longleftrightarrow> used a \<or> (\<exists>x \<in> set (x # xs). addr x = Some a)"
      using IH(3) by (auto simp: reserve_apply)
    moreover have "kept \<subseteq> set (x # xs)" using IH(4) by auto
    moreover have "\<forall>y \<in> kept. keep addr good want used y" using IH(5) kw by blast
    moreover have "view s' q = (if q \<in> (\<lambda>x. (kind, object_name x)) ` (set (x # xs) - kept)
        then None else view s q)" for q
      unfolding rel IH(8) [rule_format] t(3) by simp
    moreover have "y \<in> kept" if "x # xs = ys @ y # zs" "keep addr good want used y"
      "\<forall>z \<in> set ys. addr z \<noteq> addr y" for ys y zs
    proof (cases ys)
      case Nil
      with that False show ?thesis by simp
    next
      case (Cons z ys')
      with that have "xs = ys' @ y # zs" "addr x \<noteq> addr y" "\<forall>z \<in> set ys'. addr z \<noteq> addr y" by auto
      with IH(9) kw [of y] that(2) show ?thesis by fastforce
    qed
    ultimately show ?thesis using IH(1,2,6,7) by blast
  qed
qed

lemma create_free:
  assumes "ok s" and "view s (kind, wname w) = None" and "valid_name (wname w)"
    and pick: "pick w used = Some a"
  shows "\<exists>v s' x. st_Put S (mk w a) RevCreate s = (Inr v, s') \<and> ok s' \<and>
    view s' = (view s)((kind, wname w) \<mapsto> (x, v)) \<and> addr x = Some a \<and> good w x"
proof -
  have key: "key_of (mk w a) = (kind, wname w)" by (simp add: key_of_def mk_kind mk_name)
  have "mk w a \<noteq> Object_Empty"
    using mk_kind [of w a] kind_known by (auto simp: Kinds_def kind_defs)
  then obtain v s' where put: "st_Put S (mk w a) RevCreate s = (Inr v, s')"
    using put_total [OF assms(1), of "mk w a" RevCreate] assms(2,3) key mk_name by (metis prod.collapse)
  from put_done [OF assms(1) put] obtain x where "ok s'" "stamped (mk w a) v x"
    "view s' = (view s)((kind, wname w) \<mapsto> (x, v))" unfolding key by auto
  with put stamped_addr [of "mk w a" v x w] mk_addr [OF pick] pick_good [OF pick] show ?thesis by auto
qed

lemma fill_pass:
  assumes "ok s" and "distinct ns"
    and "\<forall>n \<in> set ns. view s (kind, n) = None \<and> valid_name n \<and>
      (\<exists>w. fmlookup want n = Some w \<and> wname w = n)"
    and "alloc_fill S pick mk ns want used errs s = (errs', s')"
  shows "ok s' \<and> (\<exists>filled \<subseteq> set ns. \<exists>es. errs' = errs @ es \<and> (es = [] \<longrightarrow> filled = set ns) \<and>
    (\<forall>q. q \<notin> Pair kind ` filled \<longrightarrow> view s' q = view s q) \<and>
    (\<forall>n \<in> filled. \<exists>x v w a. view s' (kind, n) = Some (x, v) \<and> fmlookup want n = Some w \<and> good w x \<and>
        addr x = Some a \<and> \<not> used a) \<and>
    inj_on (\<lambda>n. map_option (\<lambda>p. addr (fst p)) (view s' (kind, n))) filled)"
  using assms
proof (induction ns arbitrary: used errs s)
  case Nil
  then show ?case by (auto intro!: exI [of _ "{}"])
next
  case (Cons n ns)
  from Cons.prems(3) obtain w where w: "fmlookup want n = Some w" "wname w = n"
    "view s (kind, n) = None" "valid_name n" by auto
  have d: "distinct ns" "n \<notin> set ns" using Cons.prems(2) by auto
  show ?case
  proof (cases "pick w used")
    case None
    with Cons.prems(4) w(1) have run: "alloc_fill S pick mk ns want used (errs @ [FillExhausted]) s = (errs', s')"
      by simp
    have "\<forall>n \<in> set ns. view s (kind, n) = None \<and> valid_name n \<and> (\<exists>w. fmlookup want n = Some w \<and> wname w = n)"
      using Cons.prems(3) by simp
    from Cons.IH [OF Cons.prems(1) d(1) this run] obtain filled es where
      IH: "ok s'" "filled \<subseteq> set ns" "errs' = (errs @ [FillExhausted]) @ es"
      "\<forall>q. q \<notin> Pair kind ` filled \<longrightarrow> view s' q = view s q"
      "\<forall>n \<in> filled. \<exists>x v w a. view s' (kind, n) = Some (x, v) \<and> fmlookup want n = Some w \<and> good w x \<and>
        addr x = Some a \<and> \<not> used a"
      "inj_on (\<lambda>n. map_option (\<lambda>p. addr (fst p)) (view s' (kind, n))) filled" by blast
    from IH(2) have "filled \<subseteq> set (n # ns)" by auto
    moreover have "errs' = errs @ ([FillExhausted] @ es)" "[FillExhausted] @ es = [] \<longrightarrow> filled = set (n # ns)"
      using IH(3) by simp_all
    ultimately show ?thesis using IH(1,4,5,6) by blast
  next
    case (Some a)
    from create_free [OF Cons.prems(1) _ _ Some] w obtain v t x where
      t: "st_Put S (mk w a) RevCreate s = (Inr v, t)" "ok t"
      "view t = (view s)((kind, n) \<mapsto> (x, v))" "addr x = Some a" "good w x" by auto
    from Cons.prems(4) w(1) Some t(1)
    have run: "alloc_fill S pick mk ns want (used(a := True)) errs t = (errs', s')" by simp
    have "\<forall>m \<in> set ns. view t (kind, m) = None \<and> valid_name m \<and> (\<exists>w. fmlookup want m = Some w \<and> wname w = m)"
      using Cons.prems(3) d(2) unfolding t(3) by auto
    from Cons.IH [OF t(2) d(1) this run] obtain filled es where
      IH: "ok s'" "filled \<subseteq> set ns" "errs' = errs @ es" "es = [] \<longrightarrow> filled = set ns"
      "\<forall>q. q \<notin> Pair kind ` filled \<longrightarrow> view s' q = view t q"
      "\<forall>m \<in> filled. \<exists>x v w b. view s' (kind, m) = Some (x, v) \<and> fmlookup want m = Some w \<and> good w x \<and>
        addr x = Some b \<and> \<not> (used(a := True)) b"
      "inj_on (\<lambda>n. map_option (\<lambda>p. addr (fst p)) (view s' (kind, n))) filled" by blast
    have "(kind, n) \<notin> Pair kind ` filled" using d(2) IH(2) by auto
    with IH(5) have vn: "view s' (kind, n) = Some (x, v)" unfolding t(3) by (metis fun_upd_same)
    have "insert n filled \<subseteq> set (n # ns)" "es = [] \<longrightarrow> insert n filled = set (n # ns)"
      using IH(2,4) by auto
    moreover have "\<forall>q. q \<notin> Pair kind ` insert n filled \<longrightarrow> view s' q = view s q"
      using IH(5) unfolding t(3) by auto
    moreover have "\<forall>m \<in> insert n filled. \<exists>x v w b. view s' (kind, m) = Some (x, v) \<and> fmlookup want m = Some w \<and>
        good w x \<and> addr x = Some b \<and> \<not> used b"
    proof
      fix m assume "m \<in> insert n filled"
      then consider "m = n" | "m \<in> filled" by blast
      then show "\<exists>x v w b. view s' (kind, m) = Some (x, v) \<and> fmlookup want m = Some w \<and>
          good w x \<and> addr x = Some b \<and> \<not> used b"
      proof cases
        case 1
        with vn w(1) t(4,5) pick_free [OF Some] show ?thesis by blast
      next
        case 2
        with IH(6) show ?thesis by (metis fun_upd_apply)
      qed
    qed
    moreover have "inj_on (\<lambda>n. map_option (\<lambda>p. addr (fst p)) (view s' (kind, n))) (insert n filled)"
    proof -
      have na: "map_option (\<lambda>p. addr (fst p)) (view s' (kind, m)) \<noteq> Some (Some a)" if "m \<in> filled" for m
        using IH(6) that by (auto dest!: bspec)
      have "Some (Some a) \<notin> (\<lambda>n. map_option (\<lambda>p. addr (fst p)) (view s' (kind, n))) ` (filled - {n})"
        using na by (intro notI, elim imageE DiffE) (blast dest: sym)
      with IH(7) vn t(4) show ?thesis by (simp add: inj_on_insert)
    qed
    ultimately show ?thesis using IH(1,3) by blast
  qed
qed

text \<open>With as many usable addresses left as there are names to fill, no write fails.\<close>

lemma fill_enough:
  assumes "ok s" and "distinct ns"
    and "\<forall>n \<in> set ns. view s (kind, n) = None \<and> valid_name n \<and>
      (\<exists>w. fmlookup want n = Some w \<and> wname w = n \<and> card {a \<in> cap w. used a} + length ns \<le> card (cap w))"
    and "alloc_fill S pick mk ns want used errs s = (errs', s')"
  shows "errs' = errs"
  using assms
proof (induction ns arbitrary: used s)
  case (Cons n ns)
  from Cons.prems(3) obtain w where w: "fmlookup want n = Some w" "wname w = n"
    "view s (kind, n) = None" "valid_name n" "card {a \<in> cap w. used a} < card (cap w)" by auto
  have "pick w used \<noteq> None"
  proof
    assume "pick w used = None"
    then have "{a \<in> cap w. used a} = cap w" using pick_none by blast
    with w(5) show False by simp
  qed
  then obtain a where a: "pick w used = Some a" by auto
  from create_free [OF Cons.prems(1) _ _ a] w obtain v t x where
    t: "st_Put S (mk w a) RevCreate s = (Inr v, t)" "ok t" "view t = (view s)((kind, n) \<mapsto> (x, v))" by auto
  have grow: "card {b \<in> cap u. (used(a := True)) b} \<le> card {b \<in> cap u. used b} + 1" for u
  proof -
    have "{b \<in> cap u. (used(a := True)) b} \<subseteq> insert a {b \<in> cap u. used b}" by auto
    then have "card {b \<in> cap u. (used(a := True)) b} \<le> card (insert a {b \<in> cap u. used b})"
      by (intro card_mono) (simp add: cap_finite)
    also have "\<dots> \<le> card {b \<in> cap u. used b} + 1" by (simp add: card_insert_if cap_finite)
    finally show ?thesis .
  qed
  have rest: "\<forall>m \<in> set ns. view t (kind, m) = None \<and> valid_name m \<and> (\<exists>w. fmlookup want m = Some w \<and> wname w = m \<and>
      card {b \<in> cap w. (used(a := True)) b} + length ns \<le> card (cap w))"
  proof
    fix m assume m: "m \<in> set ns"
    with Cons.prems(3) obtain u where u: "view s (kind, m) = None" "valid_name m" "fmlookup want m = Some u"
      "wname u = m" "card {a \<in> cap u. used a} + length (n # ns) \<le> card (cap u)" by auto
    from m Cons.prems(2) have "m \<noteq> n" by auto
    with u(1) have "view t (kind, m) = None" unfolding t(3) by simp
    moreover from u(5) grow [of u] have "card {b \<in> cap u. (used(a := True)) b} + length ns \<le> card (cap u)"
      by simp
    ultimately show "view t (kind, m) = None \<and> valid_name m \<and> (\<exists>w. fmlookup want m = Some w \<and> wname w = m \<and>
        card {b \<in> cap w. (used(a := True)) b} + length ns \<le> card (cap w))"
      using u(2-4) by blast
  qed
  have "alloc_fill S pick mk ns want (used(a := True)) errs t = (errs', s')"
    using Cons.prems(4) w(1) a t(1) by simp
  moreover have "distinct ns" using Cons.prems(2) by simp
  ultimately show ?case using Cons.IH [OF t(2) _ rest] by blast
qed simp

text \<open>
  A whole pass: scan what is there, then fill what is missing. \<open>scanned\<close> is what \<open>scan_pass\<close>
  gives of a scan of the listing \<open>xs\<close>: the allocations kept, the names still wanted, the
  addresses reserved and the view left behind.
\<close>

definition scanned where
  "scanned xs want s kept want' used' s1 \<longleftrightarrow> ok s1 \<and> kept \<subseteq> set xs \<and>
     (\<forall>a. used' a \<longleftrightarrow> (\<exists>x \<in> set xs. addr x = Some a)) \<and>
     (\<forall>x \<in> kept. keep addr good want (\<lambda>_. False) x) \<and> inj_on addr kept \<and>
     (\<forall>n. fmlookup want' n = (if n \<in> object_name ` kept then None else fmlookup want n)) \<and>
     (\<forall>k n. k \<noteq> kind \<longrightarrow> view s1 (k, n) = view s (k, n)) \<and>
     (\<forall>n x v. view s1 (kind, n) = Some (x, v) \<longleftrightarrow> x \<in> kept \<and> view s (kind, n) = Some (x, v))"

lemma scannedD:
  assumes "scanned xs want s kept want' used' s1"
  shows "ok s1" and "x \<in> kept \<Longrightarrow> x \<in> set xs" and "used' a \<longleftrightarrow> (\<exists>x \<in> set xs. addr x = Some a)"
    and "x \<in> kept \<Longrightarrow> keep addr good want (\<lambda>_. False) x" and "inj_on addr kept"
    and "fmlookup want' n = (if n \<in> object_name ` kept then None else fmlookup want n)"
    and "k \<noteq> kind \<Longrightarrow> view s1 (k, n) = view s (k, n)"
    and "view s1 (kind, n) = Some (x, v) \<longleftrightarrow> x \<in> kept \<and> view s (kind, n) = Some (x, v)"
  using assms unfolding scanned_def by blast+

lemma view_kept:
  assumes "ok s" and listing: "\<forall>x. x \<in> set xs \<longleftrightarrow> view s (kind, object_name x) = Some (x, m_resourceVersion (MetaOf x))"
    and "kept \<subseteq> set xs" and "distinct (map object_name xs)"
    and "\<forall>q. view s1 q = (if q \<in> (\<lambda>x. (kind, object_name x)) ` (set xs - kept) then None else view s q)"
  shows "view s1 (kind, n) = Some (x, v) \<longleftrightarrow> x \<in> kept \<and> view s (kind, n) = Some (x, v)"
proof
  have ent: "x \<in> set xs \<and> object_name x = n" if "view s (kind, n) = Some (x, v)" for n x v
    using view_ok [OF assms(1) that] that listing by auto
  {
    assume a: "view s1 (kind, n) = Some (x, v)"
    then have nr: "(kind, n) \<notin> (\<lambda>x. (kind, object_name x)) ` (set xs - kept)"
      using spec [OF assms(5), of "(kind, n)"] by (auto split: if_splits)
    with a spec [OF assms(5), of "(kind, n)"] have vs: "view s (kind, n) = Some (x, v)" by simp
    from nr ent [OF vs] have "x \<in> kept" by (auto simp: image_iff)
    with vs show "x \<in> kept \<and> view s (kind, n) = Some (x, v)" by simp
  next
    assume a: "x \<in> kept \<and> view s (kind, n) = Some (x, v)"
    have inj: "inj_on object_name (set xs)" using assms(4) by (simp add: distinct_map)
    from a have x: "x \<in> set xs" "object_name x = n" using ent [of n x v] by simp_all
    have "y \<in> kept" if y: "y \<in> set xs" "object_name y = n" for y
    proof -
      have "y = x" using inj_onD [OF inj _ y(1) x(1)] y(2) x(2) by simp
      with a show ?thesis by simp
    qed
    then have "(kind, n) \<notin> (\<lambda>x. (kind, object_name x)) ` (set xs - kept)" by (auto simp: image_iff)
    with a spec [OF assms(5), of "(kind, n)"] show "view s1 (kind, n) = Some (x, v)" by simp
  }
qed

lemma scan_listing:
  assumes "ok s" and list: "st_List S kind s = (Inr (xs, r), s0)"
    and scan: "alloc_scan S kind addr good xs want (\<lambda>_. False) [] s0 = (want', used', errs1, s1)"
  shows "\<exists>kept. errs1 = [] \<and> scanned xs want s kept want' used' s1 \<and>
    (\<forall>x. x \<in> set xs \<longrightarrow> keep addr good want (\<lambda>_. False) x \<longrightarrow>
       (\<forall>y \<in> set xs. object_name y < object_name x \<longrightarrow> addr y \<noteq> addr x) \<longrightarrow> x \<in> kept)"
proof -
  from list_frame [OF assms(1) list] have s0: "ok s0" "view s0 = view s" by auto
  have entry: "\<forall>x \<in> set xs. view s0 (kind, object_name x) = Some (x, m_resourceVersion (MetaOf x))"
    using listed_entry [OF assms(1) list kind_known] s0(2) by simp
  have mem: "\<forall>x. x \<in> set xs \<longleftrightarrow> view s (kind, object_name x) = Some (x, m_resourceVersion (MetaOf x))"
    using listed_view(1) [OF assms(1) list kind_known] by blast
  note d = listed_view(2) [OF assms(1) list kind_known]
  from list_found [OF assms(1) list] have sorted: "sorted_wrt (<) (map object_name xs)" by blast
  from scan_pass [OF s0(1) entry d scan] obtain kept where
    sc: "ok s1" "errs1 = []" "\<forall>a. used' a \<longleftrightarrow> (\<exists>x \<in> set xs. addr x = Some a)" "kept \<subseteq> set xs"
      "\<forall>x \<in> kept. keep addr good want (\<lambda>_. False) x" "inj_on addr kept"
      "\<forall>n. fmlookup want' n = (if n \<in> object_name ` kept then None else fmlookup want n)"
      "\<forall>q. view s1 q = (if q \<in> (\<lambda>x. (kind, object_name x)) ` (set xs - kept) then None else view s q)"
      "\<forall>ys x zs. xs = ys @ x # zs \<longrightarrow> keep addr good want (\<lambda>_. False) x \<longrightarrow> (\<forall>y \<in> set ys. addr y \<noteq> addr x) \<longrightarrow> x \<in> kept"
    unfolding s0(2) by auto
  have other: "view s1 (k, n) = view s (k, n)" if "k \<noteq> kind" for k n
  proof -
    from that have "(k, n) \<notin> (\<lambda>x. (kind, object_name x)) ` (set xs - kept)" by auto
    with sc(8) show ?thesis by metis
  qed
  have "x \<in> kept" if x: "x \<in> set xs" "keep addr good want (\<lambda>_. False) x"
    "\<forall>y \<in> set xs. object_name y < object_name x \<longrightarrow> addr y \<noteq> addr x" for x
  proof -
    from x(1) obtain ys zs where xs: "xs = ys @ x # zs" by (auto simp: in_set_conv_decomp)
    with sorted have "\<forall>y \<in> set ys. object_name y < object_name x" by (auto simp: sorted_wrt_append)
    with x(3) xs have "\<forall>y \<in> set ys. addr y \<noteq> addr x" by auto
    with sc(9) xs x(2) show ?thesis by blast
  qed
  moreover note view_kept [OF assms(1) mem sc(4) d sc(8)]
  ultimately show ?thesis using sc other unfolding scanned_def by blast
qed

lemma scanned_absent:
  assumes "ok s" and sc: "scanned xs want s kept want' used' s1"
    and want: "\<forall>n w. fmlookup want n = Some w \<longrightarrow> wname w = n \<and> valid_name n"
  shows "\<forall>n \<in> set (sorted_keys want'). view s1 (kind, n) = None \<and> valid_name n \<and>
      (\<exists>w. fmlookup want' n = Some w \<and> wname w = n)"
proof
  fix n assume "n \<in> set (sorted_keys want')"
  then obtain w where w: "fmlookup want' n = Some w" by (auto simp: fmlookup_dom'_iff)
  with scannedD(6) [OF sc, of n] have n: "n \<notin> object_name ` kept" "fmlookup want n = Some w"
    by (simp_all split: if_splits)
  have "view s1 (kind, n) \<noteq> Some (x, v)" for x v
    using scannedD(8) [OF sc, of n x v] n(1) view_ok [OF assms(1), of kind n x v] by auto
  then have "view s1 (kind, n) = None" by (cases "view s1 (kind, n)") auto
  with want n(2) w show "view s1 (kind, n) = None \<and> valid_name n \<and> (\<exists>w. fmlookup want' n = Some w \<and> wname w = n)"
    by auto
qed

definition filled_ok where
  "filled_ok want' used' s1 s2 filled \<longleftrightarrow> filled \<subseteq> set (sorted_keys want') \<and>
     (\<forall>q. q \<notin> Pair kind ` filled \<longrightarrow> view s2 q = view s1 q) \<and>
     (\<forall>n \<in> filled. \<exists>x v w a. view s2 (kind, n) = Some (x, v) \<and> fmlookup want' n = Some w \<and> good w x \<and>
        addr x = Some a \<and> \<not> used' a) \<and>
     inj_on (\<lambda>n. map_option (\<lambda>p. addr (fst p)) (view s2 (kind, n))) filled"

lemma filled_okD:
  assumes "filled_ok want' used' s1 s2 filled"
  shows "n \<in> filled \<Longrightarrow> n \<in> set (sorted_keys want')"
    and "q \<notin> Pair kind ` filled \<Longrightarrow> view s2 q = view s1 q"
    and "n \<in> filled \<Longrightarrow> \<exists>x v w a. view s2 (kind, n) = Some (x, v) \<and> fmlookup want' n = Some w \<and> good w x \<and>
        addr x = Some a \<and> \<not> used' a"
    and "inj_on (\<lambda>n. map_option (\<lambda>p. addr (fst p)) (view s2 (kind, n))) filled"
  using assms unfolding filled_ok_def by blast+

lemma not_filled_kept:
  assumes "scanned xs want s kept want' used' s1" and "filled_ok want' used' s1 s2 filled"
    and "view s2 (kind, n) = Some (x, v)" and "n \<notin> filled"
  shows "x \<in> kept \<and> view s (kind, n) = Some (x, v)"
proof -
  from assms(4) have "(kind, n) \<notin> Pair kind ` filled" by auto
  with filled_okD(2) [OF assms(2) this] assms(3) have "view s1 (kind, n) = Some (x, v)" by simp
  with scannedD(8) [OF assms(1)] show ?thesis by simp
qed

lemma kept_survives:
  assumes "ok s" and sc: "scanned xs want s kept want' used' s1" and fl: "filled_ok want' used' s1 s2 filled"
    and "x \<in> kept" and "view s (kind, n) = Some (x, v)"
  shows "view s2 (kind, n) = Some (x, v)"
proof -
  have "object_name x = n" using view_ok [OF assms(1,5)] by simp
  with assms(4) have "fmlookup want' n = None" using scannedD(6) [OF sc, of n] by auto
  then have "n \<notin> filled" using filled_okD(1) [OF fl, of n] by (auto simp: fmlookup_dom'_iff)
  then have "(kind, n) \<notin> Pair kind ` filled" by auto
  from filled_okD(2) [OF fl this] scannedD(8) [OF sc] assms(4,5) show ?thesis by simp
qed

lemma pass_unique:
  assumes "ok s" and sc: "scanned xs want s kept want' used' s1" and fl: "filled_ok want' used' s1 s2 filled"
    and x: "view s2 (kind, n) = Some (x, v)" and y: "view s2 (kind, m) = Some (y, u)" and eq: "addr x = addr y"
  shows "n = m"
proof -
  have cross: "n' \<in> filled" if "view s2 (kind, n') = Some (x', v')"
    "view s2 (kind, m') = Some (y', u')" "addr x' = addr y'" "m' \<in> filled" for n' m' x' v' y' u'
  proof (rule ccontr)
    assume "n' \<notin> filled"
    with not_filled_kept [OF sc fl that(1)] scannedD(2) [OF sc] have "x' \<in> set xs" by blast
    moreover from filled_okD(3) [OF fl that(4)] that(2) obtain b where "addr y' = Some b" "\<not> used' b"
      by auto
    ultimately show False using scannedD(3) [OF sc, of b] that(3) by auto
  qed
  show ?thesis
  proof (cases "n \<in> filled")
    case True
    with cross [OF y x] eq have "m \<in> filled" by simp
    from inj_onD [OF filled_okD(4) [OF fl] _ True this] x y eq show ?thesis by simp
  next
    case False
    with cross [OF x y eq] have "m \<notin> filled" by blast
    with False not_filled_kept [OF sc fl] x y have k: "x \<in> kept" "view s (kind, n) = Some (x, v)"
      "y \<in> kept" "view s (kind, m) = Some (y, u)" by blast+
    from inj_onD [OF scannedD(5) [OF sc] eq k(1,3)] have "x = y" .
    with view_ok [OF assms(1) k(2)] view_ok [OF assms(1) k(4)] show ?thesis by simp
  qed
qed

lemma pass_good:
  assumes "ok s" and sc: "scanned xs want s kept want' used' s1" and fl: "filled_ok want' used' s1 s2 filled"
    and x: "view s2 (kind, n) = Some (x, v)"
  shows "\<exists>w a. fmlookup want n = Some w \<and> good w x \<and> addr x = Some a"
proof (cases "n \<in> filled")
  case True
  from filled_okD(3) [OF fl this] x obtain w a where w: "fmlookup want' n = Some w" "good w x" "addr x = Some a"
    by auto
  from w(1) scannedD(6) [OF sc, of n] have "fmlookup want n = Some w" by (simp split: if_splits)
  with w(2,3) show ?thesis by blast
next
  case False
  from not_filled_kept [OF sc fl x False] have k: "x \<in> kept" "view s (kind, n) = Some (x, v)" by auto
  from view_ok [OF assms(1) k(2)] have "object_name x = n" by simp
  with scannedD(4) [OF sc k(1)] show ?thesis by (auto simp: keep_def)
qed

lemma repair_pass:
  assumes "ok s" and list: "st_List S kind s = (Inr (xs, r), s0)"
    and want: "\<forall>n w. fmlookup want n = Some w \<longrightarrow> wname w = n \<and> valid_name n"
    and scan: "alloc_scan S kind addr good xs want (\<lambda>_. False) [] s0 = (want', used', errs1, s1)"
    and fill: "alloc_fill S pick mk (sorted_keys want') want' used' [] s1 = (errs2, s2)"
  shows "errs1 = [] \<and> ok s2 \<and>
    (\<forall>k n. k \<noteq> kind \<longrightarrow> view s2 (k, n) = view s (k, n)) \<and>
    (\<forall>n x v. view s2 (kind, n) = Some (x, v) \<longrightarrow> (\<exists>w a. fmlookup want n = Some w \<and> good w x \<and> addr x = Some a)) \<and>
    (\<forall>n m x v y u. view s2 (kind, n) = Some (x, v) \<longrightarrow> view s2 (kind, m) = Some (y, u) \<longrightarrow> addr x = addr y \<longrightarrow> n = m) \<and>
    (errs2 = [] \<longrightarrow> (\<forall>n w. fmlookup want n = Some w \<longrightarrow> view s2 (kind, n) \<noteq> None)) \<and>
    (\<forall>n x v w a. view s (kind, n) = Some (x, v) \<longrightarrow> fmlookup want n = Some w \<longrightarrow> good w x \<longrightarrow> addr x = Some a \<longrightarrow>
       (\<forall>m y u. view s (kind, m) = Some (y, u) \<longrightarrow> m < n \<longrightarrow> addr y \<noteq> Some a) \<longrightarrow> view s2 (kind, n) = Some (x, v))"
proof -
  from scan_listing [OF assms(1) list scan] obtain kept where
    sc: "errs1 = []" "scanned xs want s kept want' used' s1"
      "\<forall>x. x \<in> set xs \<longrightarrow> keep addr good want (\<lambda>_. False) x \<longrightarrow>
         (\<forall>y \<in> set xs. object_name y < object_name x \<longrightarrow> addr y \<noteq> addr x) \<longrightarrow> x \<in> kept" by blast
  note ok1 = scannedD(1) [OF sc(2)]
  from fill_pass [OF ok1 distinct_sorted_keys scanned_absent [OF assms(1) sc(2) want] fill] obtain filled where
    fl: "ok s2" "errs2 = [] \<longrightarrow> filled = set (sorted_keys want')" "filled_ok want' used' s1 s2 filled"
    unfolding filled_ok_def by auto
  note mem = listed_view(1) [OF assms(1) list kind_known]
  have other: "view s2 (k, n) = view s (k, n)" if "k \<noteq> kind" for k n
  proof -
    from that have "(k, n) \<notin> Pair kind ` filled" by auto
    from filled_okD(2) [OF fl(3) this] scannedD(7) [OF sc(2) that] show ?thesis by simp
  qed
  have total: "view s2 (kind, n) \<noteq> None" if "errs2 = []" "fmlookup want n = Some w" for n w
  proof (cases "n \<in> object_name ` kept")
    case True
    then obtain x where x: "x \<in> kept" "object_name x = n" by auto
    with scannedD(2) [OF sc(2) x(1)] mem have "view s (kind, n) = Some (x, m_resourceVersion (MetaOf x))"
      by auto
    from kept_survives [OF assms(1) sc(2) fl(3) x(1) this] show ?thesis by simp
  next
    case False
    with scannedD(6) [OF sc(2), of n] that(2) have "fmlookup want' n = Some w" by simp
    then have "n \<in> filled" using fl(2) that(1) by (simp add: fmlookup_dom'_iff)
    from filled_okD(3) [OF fl(3) this] show ?thesis by auto
  qed
  have stable: "view s2 (kind, n) = Some (x, v)"
    if x: "view s (kind, n) = Some (x, v)" "fmlookup want n = Some w" "good w x" "addr x = Some a"
      "\<forall>m y u. view s (kind, m) = Some (y, u) \<longrightarrow> m < n \<longrightarrow> addr y \<noteq> Some a" for n x v w a
  proof -
    note vo = view_ok [OF assms(1) x(1)]
    have "\<forall>y \<in> set xs. object_name y < object_name x \<longrightarrow> addr y \<noteq> addr x"
      using mem x(4,5) vo by auto
    moreover have "x \<in> set xs" "keep addr good want (\<lambda>_. False) x"
      using mem x vo by (auto simp: keep_def)
    ultimately have "x \<in> kept" using sc(3) by blast
    from kept_survives [OF assms(1) sc(2) fl(3) this x(1)] show ?thesis .
  qed
  show ?thesis
  proof (intro conjI allI impI)
    fix n m x v y u
    assume "view s2 (kind, n) = Some (x, v)" "view s2 (kind, m) = Some (y, u)" "addr x = addr y"
    then show "n = m" by (rule pass_unique [OF assms(1) sc(2) fl(3)])
  next
    fix n x v assume "view s2 (kind, n) = Some (x, v)"
    then show "\<exists>w a. fmlookup want n = Some w \<and> good w x \<and> addr x = Some a"
      by (rule pass_good [OF assms(1) sc(2) fl(3)])
  qed (use sc(1) fl(1) other total in \<open>simp_all add: stable\<close>)
qed

lemma repair_enough:
  assumes "ok s" and list: "st_List S kind s = (Inr (xs, r), s0)"
    and want: "\<forall>n w. fmlookup want n = Some w \<longrightarrow> wname w = n \<and> valid_name n \<and>
      length xs + card (fmdom' want) \<le> card (cap w)"
    and scan: "alloc_scan S kind addr good xs want (\<lambda>_. False) [] s0 = (want', used', errs1, s1)"
    and fill: "alloc_fill S pick mk (sorted_keys want') want' used' [] s1 = (errs2, s2)"
  shows "errs2 = []"
proof -
  from scan_listing [OF assms(1) list scan] obtain kept where
    sc: "scanned xs want s kept want' used' s1" by blast
  note ok1 = scannedD(1) [OF sc]
  have want0: "\<forall>n w. fmlookup want n = Some w \<longrightarrow> wname w = n \<and> valid_name n" using want by blast
  have sub: "fmlookup want' n = Some w \<Longrightarrow> fmlookup want n = Some w" for n w
    using scannedD(6) [OF sc, of n] by (simp split: if_splits)
  then have "fmdom' want' \<subseteq> fmdom' want" by (auto simp: fmlookup_dom'_iff)
  then have len: "length (sorted_keys want') \<le> card (fmdom' want)"
    using card_mono distinct_card [OF distinct_sorted_keys, of want'] by (metis finite_fmdom' set_sorted_keys)
  have used: "card {a \<in> cap w. used' a} \<le> length xs" for w
  proof -
    have "{a \<in> cap w. used' a} \<subseteq> the ` addr ` set xs"
    proof
      fix a assume "a \<in> {a \<in> cap w. used' a}"
      then obtain x where "x \<in> set xs" "addr x = Some a" using scannedD(3) [OF sc, of a] by auto
      then show "a \<in> the ` addr ` set xs" by (auto intro: rev_image_eqI)
    qed
    then have "card {a \<in> cap w. used' a} \<le> card (the ` addr ` set xs)" by (intro card_mono) auto
    also have "\<dots> \<le> length xs" using card_image_le card_length le_trans by (metis List.finite_set finite_imageI)
    finally show ?thesis .
  qed
  have "view s1 (kind, n) = None \<and> valid_name n \<and> (\<exists>w. fmlookup want' n = Some w \<and>
      wname w = n \<and> card {a \<in> cap w. used' a} + length (sorted_keys want') \<le> card (cap w))"
    if n: "n \<in> set (sorted_keys want')" for n
  proof -
    from bspec [OF scanned_absent [OF assms(1) sc want0] n] obtain w where
      w: "view s1 (kind, n) = None" "valid_name n" "fmlookup want' n = Some w" "wname w = n" by blast
    from want sub [OF w(3)] have "length xs + card (fmdom' want) \<le> card (cap w)" by blast
    with used [of w] len w show ?thesis by auto
  qed
  then have "\<forall>n \<in> set (sorted_keys want'). view s1 (kind, n) = None \<and> valid_name n \<and> (\<exists>w. fmlookup want' n = Some w \<and>
      wname w = n \<and> card {a \<in> cap w. used' a} + length (sorted_keys want') \<le> card (cap w))" by blast
  from fill_enough [OF ok1 distinct_sorted_keys this fill] show ?thesis .
qed

end

subsection \<open>Names of typed objects\<close>

lemma service_name: "KindOf x = KindService \<Longrightarrow> m_name (s_Meta (GetService x)) = object_name x"
  by (drule Object_of_kind(4)) (metis MetaOf.simps(2) object_name_def)

lemma node_object_name: "KindOf x = KindNode \<Longrightarrow> m_name (n_Meta (GetNode x)) = object_name x"
  by (drule Object_of_kind(2)) (metis MetaOf.simps(3) object_name_def)

end
