(* ===== verification/Klite_NetIP.thy ===== *)
theory Klite_NetIP
  imports Klite_Prelude
begin

text \<open>
  The part of Go's \<open>net/netip\<close> the sources use: addresses, \<open>ParseAddr\<close> with the IPv4 and IPv6
  parsers, \<open>Addr.String\<close> for IPv4, \<open>Addr.Next\<close>, \<open>Prefix.Contains\<close> and the predicates
  \<open>IsLoopback\<close> and \<open>IsUnspecified\<close>. An IPv4 address is its 32-bit word, an IPv6 address its
  sixteen bytes and its zone. The round-trip lemma shows that what \<open>String\<close> prints is parsed back.
\<close>

datatype Addr = V4 "32 word" | V6 "8 word list" string

definition is_digit :: "char \<Rightarrow> bool" where
  "is_digit c \<longleftrightarrow> CHR ''0'' \<le> c \<and> c \<le> CHR ''9''"

definition digit_val :: "char \<Rightarrow> nat" where
  "digit_val c = of_char c - of_char (CHR ''0'')"

subsection \<open>IPv4\<close>

text \<open>
  \<open>parseIPv4Fields\<close>: \<open>prev\<close> is the character before the current one (\<open>None\<close> at the start), \<open>val\<close>
  and \<open>digLen\<close> the octet read so far, \<open>fields\<close> the octets already closed.
\<close>

fun parseIPv4Fields :: "char option \<Rightarrow> nat \<Rightarrow> nat \<Rightarrow> nat list \<Rightarrow> string \<Rightarrow> nat list option" where
  "parseIPv4Fields prev val digLen fields [] =
     (if length fields < 3 then None else Some (fields @ [val]))"
| "parseIPv4Fields prev val digLen fields (c # cs) =
     (if is_digit c then
        (if digLen = 1 \<and> val = 0 then None
         else
           (let val' = val * 10 + digit_val c
            in if val' > 255 then None
               else parseIPv4Fields (Some c) val' (digLen + 1) fields cs))
      else if c = CHR ''.'' then
        (if prev = None \<or> cs = [] \<or> prev = Some (CHR ''.'') then None
         else if length fields = 3 then None
         else parseIPv4Fields (Some c) 0 0 (fields @ [val]) cs)
      else None)"

definition v4_of_bytes :: "nat list \<Rightarrow> 32 word" where
  "v4_of_bytes bs = of_nat (((bs ! 0 * 256 + bs ! 1) * 256 + bs ! 2) * 256 + bs ! 3)"

definition parseIPv4 :: "string \<Rightarrow> Addr option" where
  "parseIPv4 s = map_option (\<lambda>bs. V4 (v4_of_bytes bs)) (parseIPv4Fields None 0 0 [] s)"

definition As4 :: "32 word \<Rightarrow> nat list" where
  "As4 w = (let n = unat w in [n div 16777216, n div 65536 mod 256, n div 256 mod 256, n mod 256])"

definition String4 :: "32 word \<Rightarrow> string" where
  "String4 w = (let b = As4 w in
     itoa (b ! 0) @ ''.'' @ itoa (b ! 1) @ ''.'' @ itoa (b ! 2) @ ''.'' @ itoa (b ! 3))"

subsection \<open>IPv6\<close>

definition hex_val :: "char \<Rightarrow> nat option" where
  "hex_val c = (if is_digit c then Some (digit_val c)
     else if CHR ''a'' \<le> c \<and> c \<le> CHR ''f'' then Some (of_char c - of_char (CHR ''a'') + 10)
     else if CHR ''A'' \<le> c \<and> c \<le> CHR ''F'' then Some (of_char c - of_char (CHR ''A'') + 10)
     else None)"

text \<open>The inner loop: the hex digits at the front, \<open>None\<close> past four; else the digit count and value.\<close>

fun hexGroup :: "nat \<Rightarrow> nat \<Rightarrow> string \<Rightarrow> (nat \<times> nat) option" where
  "hexGroup off acc [] = Some (off, acc)"
| "hexGroup off acc (c # cs) = (case hex_val c of
     None \<Rightarrow> Some (off, acc)
   | Some d \<Rightarrow>
     (let acc' = acc * 16 + d
      in if off > 3 then None else if acc' > 65535 then None else hexGroup (off + 1) acc' cs))"

text \<open>
  The outer loop over the groups: \<open>fuel\<close> counts the at most eight groups of two bytes left
  (\<open>i < 16\<close>), \<open>ip\<close> the bytes so far, \<open>ell\<close> the position of the ellipsis. The result carries what
  is left of the string.
\<close>

fun parseIPv6Groups ::
    "nat \<Rightarrow> nat list \<Rightarrow> nat option \<Rightarrow> string \<Rightarrow> (nat list \<times> nat option \<times> string) option" where
  "parseIPv6Groups 0 ip ell s = Some (ip, ell, s)"
| "parseIPv6Groups (Suc fuel) ip ell s =
     (case hexGroup 0 0 s of
        None \<Rightarrow> None
      | Some (off, acc) \<Rightarrow>
        (if off = 0 then None
         else
           (let rest = drop off s in
            if rest \<noteq> [] \<and> hd rest = CHR ''.'' then
              (if ell = None \<and> length ip \<noteq> 12 then None
               else if length ip + 4 > 16 then None
               else case parseIPv4Fields None 0 0 [] s of
                      None \<Rightarrow> None
                    | Some bs \<Rightarrow> Some (ip @ bs, ell, []))
            else
              (let ip' = ip @ [acc div 256, acc mod 256] in
               if rest = [] then Some (ip', ell, [])
               else if hd rest \<noteq> CHR '':'' then None
               else if tl rest = [] then None
               else
                 (let s' = tl rest in
                  if hd s' = CHR '':'' then
                    (if ell \<noteq> None then None
                     else if tl s' = [] then Some (ip', Some (length ip'), [])
                     else parseIPv6Groups fuel ip' (Some (length ip')) (tl s'))
                  else parseIPv6Groups fuel ip' ell s')))))"

definition expandEllipsis :: "nat list \<Rightarrow> nat option \<Rightarrow> string \<Rightarrow> nat list option" where
  "expandEllipsis ip ell s =
     (if s \<noteq> [] then None
      else if length ip < 16 then
        (case ell of None \<Rightarrow> None
         | Some e \<Rightarrow> Some (take e ip @ replicate (16 - length ip) 0 @ drop e ip))
      else if ell \<noteq> None then None else Some ip)"

definition parseIPv6 :: "string \<Rightarrow> Addr option" where
  "parseIPv6 inp =
     (let (s, zone, bad) = (case Cut inp ''%'' of
            None \<Rightarrow> (inp, [], False)
          | Some (a, z) \<Rightarrow> (a, z, z = []));
          addr = (\<lambda>bs. V6 (map of_nat bs) zone) in
      if bad then None
      else if HasPrefix s ''::'' then
        (if drop 2 s = [] then Some (addr (replicate 16 0))
         else case parseIPv6Groups 8 [] (Some 0) (drop 2 s) of
                None \<Rightarrow> None
              | Some (ip, ell, r) \<Rightarrow> map_option addr (expandEllipsis ip ell r))
      else case parseIPv6Groups 8 [] None s of
             None \<Rightarrow> None
           | Some (ip, ell, r) \<Rightarrow> map_option addr (expandEllipsis ip ell r))"

subsection \<open>ParseAddr and the predicates\<close>

fun parse_dispatch :: "string \<Rightarrow> string \<Rightarrow> Addr option" where
  "parse_dispatch s [] = None"
| "parse_dispatch s (c # cs) =
     (if c = CHR ''.'' then parseIPv4 s
      else if c = CHR '':'' then parseIPv6 s
      else if c = CHR ''%'' then None
      else parse_dispatch s cs)"

definition ParseAddr :: "string \<Rightarrow> Addr option" where
  "ParseAddr s = parse_dispatch s s"

text \<open>An IPv4 prefix given by its address and length; it contains no IPv6 address.\<close>

fun prefix4_Contains :: "32 word \<Rightarrow> nat \<Rightarrow> Addr \<Rightarrow> bool" where
  "prefix4_Contains p bits (V4 w) \<longleftrightarrow> drop_bit (32 - bits) w = drop_bit (32 - bits) p"
| "prefix4_Contains p bits (V6 _ _) \<longleftrightarrow> False"

definition is4in6 :: "8 word list \<Rightarrow> bool" where
  "is4in6 bs \<longleftrightarrow> take 12 bs = replicate 10 0 @ [255, 255]"

fun IsLoopback :: "Addr \<Rightarrow> bool" where
  "IsLoopback (V4 w) \<longleftrightarrow> drop_bit 24 w = 127"
| "IsLoopback (V6 bs z) \<longleftrightarrow>
     (if is4in6 bs then bs ! 12 = 127 else bs = replicate 15 0 @ [1] \<and> z = [])"

fun IsUnspecified :: "Addr \<Rightarrow> bool" where
  "IsUnspecified (V4 w) \<longleftrightarrow> w = 0"
| "IsUnspecified (V6 bs z) \<longleftrightarrow> bs = replicate 16 0 \<and> z = []"

subsection \<open>Round trip of IPv4 addresses\<close>

lemma digit_char_parse:
  assumes "d < 10"
  shows "is_digit (digit_char d)" "digit_val (digit_char d) = d" "digit_char d \<noteq> CHR ''.''"
    "digit_char d \<noteq> CHR '':''" "digit_char d \<noteq> CHR ''%''"
proof -
  show "is_digit (digit_char d)" using digit_char_range [OF assms] by (simp add: is_digit_def)
  show "digit_val (digit_char d) = d" using assms by (simp add: digit_val_def digit_char_def)
  have "(of_char (digit_char d) :: nat) = 48 + d" using assms by (simp add: digit_char_def)
  then show "digit_char d \<noteq> CHR ''.''" "digit_char d \<noteq> CHR '':''" "digit_char d \<noteq> CHR ''%''"
    using assms by auto
qed

lemma itoa_byte:
  "n < 10 \<Longrightarrow> itoa n = [digit_char n]"
  "10 \<le> n \<Longrightarrow> n < 100 \<Longrightarrow> itoa n = [digit_char (n div 10), digit_char (n mod 10)]"
  "100 \<le> n \<Longrightarrow> n < 1000 \<Longrightarrow>
     itoa n = [digit_char (n div 10 div 10), digit_char (n div 10 mod 10), digit_char (n mod 10)]"
  by (simp_all add: itoa_def digits_base_small digits_base_big less_mult_imp_div_less)

lemma parse_byte:
  assumes "n < 256" and "rest = [] \<or> hd rest = CHR ''.''"
  shows "\<exists>c k. c \<noteq> CHR ''.'' \<and> parseIPv4Fields prev 0 0 fields (itoa n @ rest) =
    parseIPv4Fields (Some c) n k fields rest"
proof -
  consider "n < 10" | "10 \<le> n" "n < 100" | "100 \<le> n" "n < 256" using assms(1) by linarith
  then show ?thesis
  proof cases
    case 1
    then have "parseIPv4Fields prev 0 0 fields (itoa n @ rest) =
        parseIPv4Fields (Some (digit_char n)) n 1 fields rest"
      using digit_char_parse [OF 1] unfolding itoa_byte(1) [OF 1] by simp
    with digit_char_parse(3) [OF 1] show ?thesis by blast
  next
    case 2
    then have d: "n div 10 < 10" "n mod 10 < 10" "n div 10 \<noteq> 0" by simp_all
    have "parseIPv4Fields prev 0 0 fields (itoa n @ rest) =
        parseIPv4Fields (Some (digit_char (n mod 10))) n 2 fields rest"
      using 2 d digit_char_parse [OF d(1)] digit_char_parse [OF d(2)]
      unfolding itoa_byte(2) [OF 2] by (simp add: Let_def numeral_2_eq_2)
    with digit_char_parse(3) [OF d(2)] show ?thesis by blast
  next
    case 3
    then have d: "n div 10 div 10 < 10" "n div 10 mod 10 < 10" "n mod 10 < 10" "n div 10 div 10 \<noteq> 0"
      by (simp_all add: less_mult_imp_div_less)
    from 3 have n3: "n < 1000" by simp
    from 3 have le: "\<not> 255 < n div 10" "\<not> 255 < n div 10 div 10" by linarith+
    have e: "n div 10 div 10 * 10 + n div 10 mod 10 = n div 10" "n div 10 * 10 + n mod 10 = n" by simp_all
    have "parseIPv4Fields prev 0 0 fields (itoa n @ rest) =
        parseIPv4Fields (Some (digit_char (n mod 10))) n 3 fields rest"
      using 3 d(4) digit_char_parse [OF d(1)] digit_char_parse [OF d(2)] digit_char_parse [OF d(3)] e
      unfolding itoa_byte(3) [OF 3(1) n3] by (simp add: Let_def numeral_3_eq_3 le)
    with digit_char_parse(3) [OF d(3)] show ?thesis by blast
  qed
qed

declare parseIPv4Fields.simps [simp del]

lemma parse_byte_dot:
  assumes "n < 256" and "length fields < 3" and "rest \<noteq> []"
  shows "parseIPv4Fields prev 0 0 fields (itoa n @ CHR ''.'' # rest) =
    parseIPv4Fields (Some (CHR ''.'')) 0 0 (fields @ [n]) rest"
proof -
  have "CHR ''.'' # rest = [] \<or> hd (CHR ''.'' # rest) = CHR ''.''" by simp
  from parse_byte [OF assms(1) this, of prev fields]
  obtain c k where "c \<noteq> CHR ''.''" "parseIPv4Fields prev 0 0 fields (itoa n @ CHR ''.'' # rest) =
    parseIPv4Fields (Some c) n k fields (CHR ''.'' # rest)" by blast
  moreover have "\<not> is_digit (CHR ''.'')" by (simp add: is_digit_def less_eq_char_def)
  ultimately show ?thesis using assms(2,3) by (simp add: parseIPv4Fields.simps(2))
qed

lemma parse_byte_end:
  assumes "n < 256"
  shows "parseIPv4Fields prev 0 0 [a, b, c] (itoa n) = Some [a, b, c, n]"
  using parse_byte [OF assms, of "[]" prev "[a, b, c]"] by (auto simp: parseIPv4Fields.simps(1))

lemma itoa_nonempty [simp]: "itoa n \<noteq> []"
  by (simp add: itoa_def)

lemma parse_quad:
  assumes "a < 256" "b < 256" "c < 256" "d < 256"
  shows "parseIPv4Fields None 0 0 [] (itoa a @ ''.'' @ itoa b @ ''.'' @ itoa c @ ''.'' @ itoa d)
    = Some [a, b, c, d]"
  using assms by (simp add: parse_byte_dot parse_byte_end)

lemma parse_dispatch_digits:
  "\<forall>c \<in> set ds. is_digit c \<Longrightarrow> parse_dispatch s (ds @ CHR ''.'' # rest) = parseIPv4 s"
  by (induction ds) (auto simp: is_digit_def less_eq_char_def)

lemma unat32_less: "unat (w :: 32 word) < 4294967296"
  using unsigned_less [of w, where ?'a = nat] by simp

lemma v4_of_As4: "v4_of_bytes (As4 w) = w"
proof -
  let ?n = "unat w"
  have "((?n div 16777216 * 256 + ?n div 65536 mod 256) * 256 + ?n div 256 mod 256) * 256 + ?n mod 256 = ?n"
  proof -
    have "?n div 65536 = ?n div 256 div 256" "?n div 16777216 = ?n div 256 div 256 div 256"
      by (simp_all add: div_mult2_eq [symmetric])
    then show ?thesis by simp
  qed
  then show ?thesis by (simp add: v4_of_bytes_def As4_def Let_def)
qed

lemma As4_bytes: "As4 w ! 0 < 256" "As4 w ! 1 < 256" "As4 w ! 2 < 256" "As4 w ! 3 < 256"
proof -
  have "unat w div 16777216 < 256" using unat32_less [of w] by (intro less_mult_imp_div_less) simp
  then show "As4 w ! 0 < 256" by (simp only: As4_def Let_def nth_Cons_0)
qed (simp_all add: As4_def Let_def)

lemma ParseAddr_String4: "ParseAddr (String4 w) = Some (V4 w)"
proof -
  define b where "b = As4 w"
  have lt: "b ! 0 < 256" "b ! 1 < 256" "b ! 2 < 256" "b ! 3 < 256"
    unfolding b_def by (rule As4_bytes)+
  have list: "b = [b ! 0, b ! 1, b ! 2, b ! 3]"
    by (simp add: b_def As4_def Let_def)
  have "parse_dispatch s (itoa (b ! 0) @ CHR ''.'' # rest) = parseIPv4 s" for s rest
    by (rule parse_dispatch_digits) (auto simp: is_digit_def dest: itoa_digits)
  then have "ParseAddr (String4 w) = parseIPv4 (String4 w)"
    by (simp add: ParseAddr_def String4_def b_def [symmetric] Let_def)
  also have "\<dots> = Some (V4 (v4_of_bytes b))"
    using parse_quad [OF lt] list by (simp add: parseIPv4_def String4_def b_def [symmetric] Let_def)
  finally show ?thesis by (simp add: b_def v4_of_As4)
qed

end
