(* ===== verification/Klite_Vip.thy ===== *)
theory Klite_Vip
  imports Klite_Alloc Klite_NetIP
begin

text \<open>
  The VIP controller of \<open>src/internal/controller/vip.go\<close>: one \<open>VIPAllocation\<close> per (Service, Node)
  pair from the pool 10.44.64.0/18. \<open>firstFreeVIP\<close> is the scan of the pool, a recursion that ends
  because the addresses grow until they leave the pool. The controller's two loops are shown to
  be the shared scan and fill, so the allocator's theorem holds of it.
\<close>

definition vipPoolAddr :: "32 word" where "vipPoolAddr = 170672128"
definition vipPoolBits :: nat where "vipPoolBits = 18"

definition vipPool_Contains :: "Addr \<Rightarrow> bool" where
  "vipPool_Contains a = prefix4_Contains vipPoolAddr vipPoolBits a"

definition AllocationName :: "string \<Rightarrow> string \<Rightarrow> string" where
  "AllocationName service node = service @ ''.'' @ node"

subsection \<open>firstFreeVIP\<close>

lemma drop_bit_14_iff: "drop_bit 14 (w :: 32 word) = 10417 \<longleftrightarrow> unat w div 16384 = 10417"
  by (simp add: word_unat_eq_iff drop_bit_eq_div unat_div)

lemma vipPool_Contains_V4:
  "vipPool_Contains (V4 w) \<longleftrightarrow> 170672128 \<le> unat w \<and> unat w < 170688512"
proof -
  have "vipPool_Contains (V4 w) \<longleftrightarrow> unat w div 16384 = 10417"
    by (simp add: vipPool_Contains_def vipPoolAddr_def vipPoolBits_def drop_bit_14_iff)
  also have "\<dots> \<longleftrightarrow> 170672128 \<le> unat w \<and> unat w < 170688512" by linarith
  finally show ?thesis .
qed

lemma vipPool_V6 [simp]: "\<not> vipPool_Contains (V6 bs z)"
  by (simp add: vipPool_Contains_def)

lemma vipPool_Next: "vipPool_Contains (V4 w) \<Longrightarrow> unat (w + 1) = unat w + 1"
  by (simp add: vipPool_Contains_V4 unat_word_ariths)

function firstFreeVIP_loop :: "(Addr \<Rightarrow> bool) \<Rightarrow> 32 word \<Rightarrow> 32 word option" where
  "firstFreeVIP_loop used ip =
     (if \<not> vipPool_Contains (V4 ip) then None
      else
        (let b3 = As4 ip ! 3
         in if b3 = 0 \<or> b3 = 255 \<or> used (V4 ip) then firstFreeVIP_loop used (ip + 1)
            else Some ip))"
  by pat_completeness auto

termination
proof (relation "measure (\<lambda>(used, ip). 4294967296 - unat ip)")
  fix used :: "Addr \<Rightarrow> bool" and ip :: "32 word" and b3 :: nat
  assume "\<not> \<not> vipPool_Contains (V4 ip)"
  then have "unat (ip + 1) = unat ip + 1" by (simp add: vipPool_Next)
  with unat32_less [of ip]
  show "((used, ip + 1), used, ip) \<in> measure (\<lambda>(used, ip). 4294967296 - unat ip)" by simp
qed simp

declare firstFreeVIP_loop.simps [simp del]

definition firstFreeVIP :: "(Addr \<Rightarrow> bool) \<Rightarrow> 32 word option" where
  "firstFreeVIP used = firstFreeVIP_loop used (vipPoolAddr + 1)"

definition usableVIP :: "32 word \<Rightarrow> bool" where
  "usableVIP w \<longleftrightarrow> vipPool_Contains (V4 w) \<and> unat w mod 256 \<noteq> 0 \<and> unat w mod 256 \<noteq> 255"

lemma firstFreeVIP_loop_Some:
  "firstFreeVIP_loop used ip = Some w \<Longrightarrow>
     usableVIP w \<and> \<not> used (V4 w) \<and> unat ip \<le> unat w \<and>
     (\<forall>x. unat ip \<le> unat x \<longrightarrow> unat x < unat w \<longrightarrow> usableVIP x \<longrightarrow> used (V4 x))"
proof (induction used ip rule: firstFreeVIP_loop.induct)
  case (1 used ip)
  have in_pool: "vipPool_Contains (V4 ip)"
    using "1.prems" by (auto simp: firstFreeVIP_loop.simps [of used ip] split: if_splits)
  have b3: "As4 ip ! 3 = unat ip mod 256" by (simp add: As4_def Let_def)
  show ?case
  proof (cases "As4 ip ! 3 = 0 \<or> As4 ip ! 3 = 255 \<or> used (V4 ip)")
    case True
    with "1.prems" in_pool have "firstFreeVIP_loop used (ip + 1) = Some w"
      by (simp add: firstFreeVIP_loop.simps [of used ip] Let_def)
    with "1.IH" in_pool True have IH: "usableVIP w" "\<not> used (V4 w)" "unat (ip + 1) \<le> unat w"
      "\<forall>x. unat (ip + 1) \<le> unat x \<longrightarrow> unat x < unat w \<longrightarrow> usableVIP x \<longrightarrow> used (V4 x)"
      by simp_all
    have "used (V4 x)" if "unat ip \<le> unat x" "unat x < unat w" "usableVIP x" for x
    proof (cases "unat x = unat ip")
      case True
      then have "x = ip" by (simp add: word_unat_eq_iff)
      with that(3) \<open>As4 ip ! 3 = 0 \<or> As4 ip ! 3 = 255 \<or> used (V4 ip)\<close> b3 show ?thesis
        by (auto simp: usableVIP_def)
    next
      case False
      with that IH(4) vipPool_Next [OF in_pool] show ?thesis by simp
    qed
    with IH vipPool_Next [OF in_pool] show ?thesis by simp
  next
    case False
    with "1.prems" in_pool have "w = ip"
      by (simp add: firstFreeVIP_loop.simps [of used ip] Let_def)
    with False in_pool b3 show ?thesis by (auto simp: usableVIP_def)
  qed
qed

lemma firstFreeVIP_loop_None:
  "firstFreeVIP_loop used ip = None \<Longrightarrow> 170672128 \<le> unat ip \<Longrightarrow> usableVIP x \<Longrightarrow> unat ip \<le> unat x \<Longrightarrow>
     used (V4 x)"
proof (induction used ip rule: firstFreeVIP_loop.induct)
  case (1 used ip)
  have in_pool: "vipPool_Contains (V4 ip)"
    using "1.prems"(2,3,4) by (simp add: usableVIP_def vipPool_Contains_V4)
  have b3: "As4 ip ! 3 = unat ip mod 256" by (simp add: As4_def Let_def)
  have skip: "As4 ip ! 3 = 0 \<or> As4 ip ! 3 = 255 \<or> used (V4 ip)"
    and rest: "firstFreeVIP_loop used (ip + 1) = None"
    using "1.prems"(1) in_pool by (auto simp: firstFreeVIP_loop.simps [of used ip] Let_def split: if_splits)
  show ?case
  proof (cases "unat x = unat ip")
    case True
    then have "x = ip" by (simp add: word_unat_eq_iff)
    with skip b3 "1.prems"(3) show ?thesis by (auto simp: usableVIP_def)
  next
    case False
    with "1.IH" in_pool skip rest "1.prems" vipPool_Next [OF in_pool] show ?thesis by simp
  qed
qed

subsection \<open>The controller\<close>

definition vip_alloc_name :: "VIPAllocation \<Rightarrow> string" where
  "vip_alloc_name a = m_name (va_Meta a)"

text \<open>\<open>want\<close> is the map of the code, by allocation name; \<open>used\<close> the set of reserved addresses.\<close>

definition vip_reconcileAllocation ::
    "'s Store \<Rightarrow> VIPAllocation \<Rightarrow> (string, VIPAllocationSpec) fmap \<Rightarrow> (Addr \<Rightarrow> bool) \<Rightarrow> 's \<Rightarrow>
     StoreErr list \<times> (string, VIPAllocationSpec) fmap \<times> (Addr \<Rightarrow> bool) \<times> 's" where
  "vip_reconcileAllocation S alloc want used s =
     (let name = vip_alloc_name alloc;
          ip = ParseAddr (vs_vip (va_Spec alloc));
          valid = (case ip of None \<Rightarrow> False | Some a \<Rightarrow> vipPool_Contains a);
          duplicate = (valid \<and> used (the ip));
          used1 = (case ip of None \<Rightarrow> used | Some a \<Rightarrow> used(a := True));
          spec = fmlookup want name;
          want1 = fmdrop name want;
          rv = m_resourceVersion (va_Meta alloc) in
      case spec of
        None \<Rightarrow>
          (let (es, s') = release S KindVIPAllocation name rv s in (es, want1, used1, s'))
      | Some sp \<Rightarrow>
          if \<not> valid then
            (let (es, s') = release S KindVIPAllocation name rv s in (es, fmupd name sp want1, used1, s'))
          else if duplicate then
            (let (es, s') = release S KindVIPAllocation name rv s in (es, fmupd name sp want1, used1, s'))
          else ([], want1, used1, s))"

fun vip_scan ::
    "'s Store \<Rightarrow> Object list \<Rightarrow> (string, VIPAllocationSpec) fmap \<Rightarrow> (Addr \<Rightarrow> bool) \<Rightarrow> StoreErr list \<Rightarrow> 's \<Rightarrow>
     (string, VIPAllocationSpec) fmap \<times> (Addr \<Rightarrow> bool) \<times> StoreErr list \<times> 's" where
  "vip_scan S [] want used errs s = (want, used, errs, s)"
| "vip_scan S (ao # aos) want used errs s =
     (let (es, want', used', s') = vip_reconcileAllocation S (GetVipAllocation ao) want used s
      in vip_scan S aos want' used' (errs @ es) s')"

definition vip_object :: "VIPAllocationSpec \<Rightarrow> Addr \<Rightarrow> Object" where
  "vip_object spec ip = Object_VipAllocation
     \<lparr>va_meta = Some (zero_Meta\<lparr>m_name := AllocationName (vs_service spec) (vs_node spec)\<rparr>),
      va_spec = Some (spec\<lparr>vs_vip := (case ip of V4 w \<Rightarrow> String4 w | V6 _ _ \<Rightarrow> [])\<rparr>)\<rparr>"

definition vip_allocate ::
    "'s Store \<Rightarrow> VIPAllocationSpec \<Rightarrow> (Addr \<Rightarrow> bool) \<Rightarrow> 's \<Rightarrow> FillErr list \<times> (Addr \<Rightarrow> bool) \<times> 's" where
  "vip_allocate S spec used s = (case firstFreeVIP used of
     None \<Rightarrow> ([FillExhausted], used, s)
   | Some ip \<Rightarrow>
     (let used1 = used(V4 ip := True) in
      case st_Put S (vip_object spec (V4 ip)) RevCreate s of
        (Inl ErrAlreadyExists, s') \<Rightarrow> ([], used1, s')
      | (Inl err, s') \<Rightarrow> ([FillStore err], used1, s')
      | (Inr _, s') \<Rightarrow> ([], used1, s')))"

fun vip_fill ::
    "'s Store \<Rightarrow> string list \<Rightarrow> (string, VIPAllocationSpec) fmap \<Rightarrow> (Addr \<Rightarrow> bool) \<Rightarrow> FillErr list \<Rightarrow> 's \<Rightarrow>
     FillErr list \<times> 's" where
  "vip_fill S [] want used errs s = (errs, s)"
| "vip_fill S (n # ns) want used errs s =
     (let (es, used', s') = vip_allocate S (the (fmlookup want n)) used s
      in vip_fill S ns want used' (errs @ es) s')"

fun vip_want_nodes ::
    "string \<Rightarrow> Object list \<Rightarrow> (string, VIPAllocationSpec) fmap \<Rightarrow> (string, VIPAllocationSpec) fmap" where
  "vip_want_nodes svc [] want = want"
| "vip_want_nodes svc (no # nos) want =
     (let node = m_name (n_Meta (GetNode no))
      in vip_want_nodes svc nos
           (fmupd (AllocationName svc node) \<lparr>vs_service = svc, vs_node = node, vs_vip = []\<rparr> want))"

fun vip_want ::
    "Object list \<Rightarrow> Object list \<Rightarrow> (string, VIPAllocationSpec) fmap \<Rightarrow> (string, VIPAllocationSpec) fmap" where
  "vip_want [] nodeObjs want = want"
| "vip_want (so # sos) nodeObjs want =
     vip_want sos nodeObjs (vip_want_nodes (m_name (s_Meta (GetService so))) nodeObjs want)"

definition vip_reconcile :: "'s Store \<Rightarrow> 's \<Rightarrow> FillErr list \<times> 's" where
  "vip_reconcile S s0 = (case st_List S KindService s0 of
     (Inl err, s1) \<Rightarrow> ([FillStore err], s1)
   | (Inr (svcObjs, _), s1) \<Rightarrow>
     (case st_List S KindNode s1 of
        (Inl err, s2) \<Rightarrow> ([FillStore err], s2)
      | (Inr (nodeObjs, _), s2) \<Rightarrow>
        (case st_List S KindVIPAllocation s2 of
           (Inl err, s3) \<Rightarrow> ([FillStore err], s3)
         | (Inr (allocObjs, _), s3) \<Rightarrow>
           (let want = vip_want svcObjs nodeObjs fmempty;
                (want1, used1, errs1, s4) = vip_scan S allocObjs want (\<lambda>_. False) [] s3
            in vip_fill S (sorted_keys want1) want1 used1 (map FillStore errs1) s4))))"

subsection \<open>The controller runs the shared scan and fill\<close>

definition vip_addr :: "Object \<Rightarrow> Addr option" where
  "vip_addr x = ParseAddr (vs_vip (va_Spec (GetVipAllocation x)))"

definition vip_good :: "VIPAllocationSpec \<Rightarrow> Object \<Rightarrow> bool" where
  "vip_good w x \<longleftrightarrow> (case vip_addr x of None \<Rightarrow> False | Some a \<Rightarrow> vipPool_Contains a)"

definition vip_pick :: "VIPAllocationSpec \<Rightarrow> (Addr \<Rightarrow> bool) \<Rightarrow> Addr option" where
  "vip_pick w used = map_option V4 (firstFreeVIP used)"

definition vip_wname :: "VIPAllocationSpec \<Rightarrow> string" where
  "vip_wname w = AllocationName (vs_service w) (vs_node w)"

lemma vip_step_eq:
  assumes "x = Object_VipAllocation a"
  shows "vip_reconcileAllocation S a want used s =
    (if keep vip_addr vip_good want used x
     then ([], fmdrop (object_name x) want, reserve (vip_addr x) used, s)
     else (let (es, s') = release S KindVIPAllocation (object_name x) (m_resourceVersion (MetaOf x)) s
           in (es, want, reserve (vip_addr x) used, s')))"
proof -
  have n: "object_name x = vip_alloc_name a" "MetaOf x = va_Meta a"
    "vip_addr x = ParseAddr (vs_vip (va_Spec a))"
    using assms by (simp_all add: object_name_def vip_alloc_name_def vip_addr_def)
  show ?thesis
  proof (cases "fmlookup want (vip_alloc_name a)")
    case None
    then show ?thesis unfolding n vip_reconcileAllocation_def
      by (simp add: Let_def keep_def n fmdrop_absent reserve_def)
  next
    case (Some sp)
    note same = fmupd_fmdrop_same [OF Some]
    show ?thesis
    proof (cases "vip_addr x")
      case None
      with Some same show ?thesis unfolding vip_reconcileAllocation_def
        by (simp add: Let_def keep_def n reserve_def)
    next
      case (Some ip)
      with \<open>fmlookup want (vip_alloc_name a) = Some sp\<close> same show ?thesis
        unfolding vip_reconcileAllocation_def
        by (auto simp: Let_def keep_def n vip_good_def reserve_def)
    qed
  qed
qed

lemma vip_scan_eq:
  "\<forall>x \<in> set xs. KindOf x = KindVIPAllocation \<Longrightarrow>
   vip_scan S xs want used errs s = alloc_scan S KindVIPAllocation vip_addr vip_good xs want used errs s"
proof (induction xs arbitrary: want used errs s)
  case (Cons x xs)
  then have x: "x = Object_VipAllocation (GetVipAllocation x)" using Object_of_kind(6) by auto
  with Cons show ?case
    by (simp add: vip_step_eq [OF x] split: prod.splits)
qed simp

lemma vip_fill_eq:
  "vip_fill S ns want used errs s = alloc_fill S vip_pick vip_object ns want used errs s"
proof (induction ns arbitrary: used errs s)
  case (Cons n ns)
  show ?case
    by (cases "firstFreeVIP used")
      (simp_all add: vip_allocate_def vip_pick_def Let_def Cons split: prod.splits sum.splits StoreErr.splits)
qed simp

subsection \<open>The allocator's laws hold of the VIP pool\<close>

lemma usableVIP_iff:
  "usableVIP w \<longleftrightarrow> 170672128 \<le> unat w \<and> unat w < 170688512 \<and> unat w mod 256 \<noteq> 0 \<and> unat w mod 256 \<noteq> 255"
  by (auto simp: usableVIP_def vipPool_Contains_V4)

lemma firstFreeVIP_Some:
  assumes "firstFreeVIP used = Some w"
  shows "usableVIP w \<and> \<not> used (V4 w) \<and> (\<forall>x. unat x < unat w \<longrightarrow> usableVIP x \<longrightarrow> used (V4 x))"
proof -
  from firstFreeVIP_loop_Some [OF assms [unfolded firstFreeVIP_def]]
  have w: "usableVIP w" "\<not> used (V4 w)"
    "\<forall>x. 170672129 \<le> unat x \<longrightarrow> unat x < unat w \<longrightarrow> usableVIP x \<longrightarrow> used (V4 x)"
    by (simp_all add: vipPoolAddr_def)
  have "170672129 \<le> unat x" if "usableVIP x" for x
  proof -
    from that have "170672128 \<le> unat x" "unat x mod 256 \<noteq> 0" by (simp_all add: usableVIP_iff)
    moreover have "(170672128 :: nat) mod 256 = 0" by simp
    ultimately have "unat x \<noteq> 170672128" by metis
    with \<open>170672128 \<le> unat x\<close> show ?thesis by linarith
  qed
  with w show ?thesis by blast
qed

lemma firstFreeVIP_None:
  assumes "firstFreeVIP used = None" and "usableVIP x"
  shows "used (V4 x)"
proof -
  have "unat x mod 256 \<noteq> 0" "170672128 \<le> unat x" using assms(2) by (simp_all add: usableVIP_iff)
  moreover have "(170672128 :: nat) mod 256 = 0" by simp
  ultimately have "unat x \<noteq> 170672128" by metis
  then have "170672129 \<le> unat x" using \<open>170672128 \<le> unat x\<close> by linarith
  then show ?thesis
    using firstFreeVIP_loop_None [OF assms(1) [unfolded firstFreeVIP_def] _ assms(2)]
    by (simp add: vipPoolAddr_def)
qed

definition usableVIPs :: "Addr set" where
  "usableVIPs = V4 ` {w. usableVIP w}"

lemma usableVIPs_finite: "finite usableVIPs"
  by (simp add: usableVIPs_def)

lemma unat_of_nat_32: "n < 4294967296 \<Longrightarrow> unat (of_nat n :: 32 word) = n"
  by (simp add: unat_of_nat take_bit_eq_mod)

text \<open>64 blocks of 254 hosts.\<close>

lemma usableVIPs_card: "card usableVIPs = 16256"
proof -
  let ?host = "\<lambda>(b, h). of_nat (170672128 + 256 * b + h) :: 32 word"
  let ?D = "{..<64} \<times> {1..<255} :: (nat \<times> nat) set"
  have un: "unat (?host (b, h)) = 170672128 + 256 * b + h" if "b < 64" "h < 256" for b h
    using that unfolding prod.case by (intro unat_of_nat_32) simp
  have "{w. usableVIP w} = ?host ` ?D"
  proof (intro set_eqI iffI)
    fix w assume "w \<in> {w. usableVIP w}"
    then have w: "170672128 \<le> unat w" "unat w < 170688512" "unat w mod 256 \<noteq> 0" "unat w mod 256 \<noteq> 255"
      by (simp_all add: usableVIP_iff)
    define b h where "b = unat w div 256 - 666688" and "h = unat w mod 256"
    have lt: "h < 256" by (simp add: h_def)
    from w(1,2) have "666688 \<le> unat w div 256" "unat w div 256 < 666752" by linarith+
    then have bh: "b < 64" "unat w = 170672128 + 256 * b + h"
      using div_mult_mod_eq [of "unat w" 256] unfolding b_def h_def by linarith+
    moreover from w(3,4) lt have "1 \<le> h" "h < 255" by (simp_all add: h_def)
    moreover have "w = ?host (b, h)" using un [OF bh(1) lt] bh(2) unfolding word_unat_eq_iff by metis
    ultimately show "w \<in> ?host ` ?D" by (intro rev_image_eqI [of "(b, h)"]) auto
  next
    fix w assume "w \<in> ?host ` ?D"
    then obtain b h where bh: "b < 64" "1 \<le> h" "h < 255" "w = ?host (b, h)" by auto
    have "unat w = 170672128 + 256 * b + h" unfolding bh(4) using bh(1,3) by (intro un) simp_all
    then obtain n where n: "unat w = n" "n = 170672128 + 256 * b + h" by blast
    then have "n = h + (666688 + b) * 256" by simp
    then have "n mod 256 = h" using bh(3) by (simp only: mod_mult_self1 mod_less)
    moreover have "170672128 \<le> n" "n < 170688512" using n(2) bh(1,3) by linarith+
    ultimately have "unat w mod 256 = h" "170672128 \<le> unat w" "unat w < 170688512" by (simp_all only: n(1))
    with bh(2,3) show "w \<in> {w. usableVIP w}" by (simp add: usableVIP_iff)
  qed
  moreover have "inj_on ?host ?D"
  proof (rule inj_onI, clarify)
    fix b h b' h' :: nat
    assume *: "b < 64" "h \<in> {1..<255}" "b' < 64" "h' \<in> {1..<255}"
      and "(of_nat (170672128 + 256 * b + h) :: 32 word) = of_nat (170672128 + 256 * b' + h')"
    then have "unat (?host (b, h)) = unat (?host (b', h'))" by (simp only: prod.case)
    moreover have "unat (?host (b, h)) = 170672128 + 256 * b + h" using *(1,2) by (intro un) simp_all
    moreover have "unat (?host (b', h')) = 170672128 + 256 * b' + h'" using *(3,4) by (intro un) simp_all
    ultimately have "256 * b + h = 256 * b' + h'" by linarith
    then have "(h + b * 256) mod 256 = (h' + b' * 256) mod 256" by (simp add: ac_simps)
    with *(2,4) have "h = h'" by (simp only: mod_mult_self1) simp
    with \<open>256 * b + h = 256 * b' + h'\<close> show "b = b' \<and> h = h'" by simp
  qed
  moreover have "inj_on V4 {w. usableVIP w}" by (simp add: inj_on_def)
  ultimately show ?thesis by (simp add: usableVIPs_def card_image)
qed

lemma vip_addr_object [simp]: "vip_addr (vip_object w (V4 ip)) = Some (V4 ip)"
  by (simp add: vip_addr_def vip_object_def ParseAddr_String4)

interpretation vipm: repair_allocator "memory_store now" mem_view mem_rev mem_ok
  KindVIPAllocation vip_addr vip_good vip_pick vip_object vip_wname "\<lambda>_. usableVIPs" for now
proof unfold_locales
  fix w used a assume a: "vip_pick w used = Some a"
  then obtain ip where ip: "a = V4 ip" "firstFreeVIP used = Some ip" by (auto simp: vip_pick_def)
  from firstFreeVIP_Some [OF ip(2)] have u: "usableVIP ip" "\<not> used (V4 ip)" by simp_all
  from u ip show "\<not> used a" by simp
  from u ip show "vip_good w (vip_object w a)" by (simp add: vip_good_def usableVIP_def)
  from ip show "vip_addr (vip_object w a) = Some a" by simp
next
  fix w :: VIPAllocationSpec and used a assume "vip_pick w used = None" "a \<in> usableVIPs"
  then show "used a" using firstFreeVIP_None [of used] by (auto simp: vip_pick_def usableVIPs_def)
next
  fix f x show "vip_addr (upd_Meta f x) = vip_addr x" by (cases x) (simp_all add: vip_addr_def)
  fix w show "vip_good w (upd_Meta f x) = vip_good w x"
    by (cases x) (simp_all add: vip_good_def vip_addr_def)
qed (simp_all add: Kinds_def usableVIPs_finite vip_object_def object_name_def vip_wname_def)

subsection \<open>A whole pass\<close>

lemma vip_want_nodes_lookup:
  "fmlookup (vip_want_nodes svc nos want) n = Some w \<Longrightarrow>
     fmlookup want n = Some w \<or> (\<exists>no \<in> set nos. let node = m_name (n_Meta (GetNode no)) in
       n = AllocationName svc node \<and> w = \<lparr>vs_service = svc, vs_node = node, vs_vip = []\<rparr>)"
  by (induction nos arbitrary: want) (fastforce simp: Let_def split: if_splits)+

lemma vip_want_nodes_dom:
  "fmdom' (vip_want_nodes svc nos want) =
     fmdom' want \<union> (\<lambda>no. AllocationName svc (m_name (n_Meta (GetNode no)))) ` set nos"
  by (induction nos arbitrary: want) (auto simp: Let_def)

lemma vip_want_lookup:
  "fmlookup (vip_want sos nos want) n = Some w \<Longrightarrow>
     fmlookup want n = Some w \<or> (\<exists>so \<in> set sos. \<exists>no \<in> set nos.
       let svc = m_name (s_Meta (GetService so)); node = m_name (n_Meta (GetNode no)) in
       n = AllocationName svc node \<and> w = \<lparr>vs_service = svc, vs_node = node, vs_vip = []\<rparr>)"
proof (induction sos arbitrary: want)
  case (Cons so sos)
  let ?want = "vip_want_nodes (m_name (s_Meta (GetService so))) nos want"
  from Cons.prems have "fmlookup (vip_want sos nos ?want) n = Some w" by simp
  from Cons.IH [OF this] vip_want_nodes_lookup [of "m_name (s_Meta (GetService so))" nos want n w]
  show ?case unfolding Let_def by fastforce
qed simp

lemma vip_want_dom:
  "fmdom' (vip_want sos nos want) = fmdom' want \<union>
     (\<lambda>(so, no). AllocationName (m_name (s_Meta (GetService so))) (m_name (n_Meta (GetNode no)))) ` (set sos \<times> set nos)"
  by (induction sos arbitrary: want) (force simp: vip_want_nodes_dom)+

text \<open>The pairs the pass serves, by the names of the Services and Nodes in the store.\<close>

definition vip_pairs :: "Memory \<Rightarrow> (string \<times> string) set" where
  "vip_pairs m = {svc. mem_view m (KindService, svc) \<noteq> None} \<times> {node. mem_view m (KindNode, node) \<noteq> None}"

lemma vip_want_run:
  assumes ok: "mem_ok m" and sl: "st_List (memory_store now) KindService m = (Inr (sos, r1), m)"
    and nl: "st_List (memory_store now) KindNode m = (Inr (nos, r2), m)"
  shows "fmdom' (vip_want sos nos fmempty) = (\<lambda>(svc, node). AllocationName svc node) ` vip_pairs m"
    and "fmlookup (vip_want sos nos fmempty) n = Some w \<Longrightarrow>
      vip_wname w = n \<and> valid_name n \<and> (vs_service w, vs_node w) \<in> vip_pairs m"
proof -
  note kinds = kinds_in
  have so: "m_name (s_Meta (GetService so)) = object_name so \<and> valid_name (object_name so) \<and>
      mem_view m (KindService, object_name so) \<noteq> None" if "so \<in> set sos" for so
    using mem.listed_entry [OF ok sl _ that] service_name [of so] by (simp add: Kinds_def)
  have no: "m_name (n_Meta (GetNode no)) = object_name no \<and> valid_name (object_name no) \<and>
      mem_view m (KindNode, object_name no) \<noteq> None" if "no \<in> set nos" for no
    using mem.listed_entry [OF ok nl _ that] node_object_name [of no] by (simp add: Kinds_def)
  have "fmdom' (vip_want sos nos fmempty) =
      (\<lambda>(so, no). AllocationName (object_name so) (object_name no)) ` (set sos \<times> set nos)"
    using so no by (auto simp: vip_want_dom intro!: image_cong)
  also have "\<dots> = (\<lambda>(svc, node). AllocationName svc node) ` ((object_name ` set sos) \<times> (object_name ` set nos))"
    by force
  also have "(object_name ` set sos) \<times> (object_name ` set nos) = vip_pairs m"
    using mem_listed_names(1) [OF ok _ sl] mem_listed_names(1) [OF ok _ nl] by (simp add: vip_pairs_def Kinds_def)
  finally show "fmdom' (vip_want sos nos fmempty) = (\<lambda>(svc, node). AllocationName svc node) ` vip_pairs m" .
  assume "fmlookup (vip_want sos nos fmempty) n = Some w"
  from vip_want_lookup [OF this] obtain s' n' where
    w: "s' \<in> set sos" "n' \<in> set nos" "n = AllocationName (object_name s') (object_name n')"
      "w = \<lparr>vs_service = object_name s', vs_node = object_name n', vs_vip = []\<rparr>"
    using so no by (auto simp: Let_def)
  with so [of s'] no [of n'] show "vip_wname w = n \<and> valid_name n \<and> (vs_service w, vs_node w) \<in> vip_pairs m"
    by (auto simp: vip_wname_def AllocationName_def valid_name_def vip_pairs_def)
qed

lemma vip_run:
  assumes ok: "mem_ok m" and run: "vip_reconcile (memory_store now) m = (errs, m')"
  obtains want xs r want' used' errs1 s1 where
    "st_List (memory_store now) KindVIPAllocation m = (Inr (xs, r), m)"
    "alloc_scan (memory_store now) KindVIPAllocation vip_addr vip_good xs want (\<lambda>_. False) [] m = (want', used', errs1, s1)"
    "alloc_fill (memory_store now) vip_pick vip_object (sorted_keys want') want' used' (map FillStore errs1) s1 = (errs, m')"
    "fmdom' want = (\<lambda>(svc, node). AllocationName svc node) ` vip_pairs m"
    "\<forall>n w. fmlookup want n = Some w \<longrightarrow> vip_wname w = n \<and> valid_name n \<and> (vs_service w, vs_node w) \<in> vip_pairs m"
proof -
  have in_kinds: "KindService \<in> set Kinds" "KindNode \<in> set Kinds" "KindVIPAllocation \<in> set Kinds"
    by (simp_all add: Kinds_def)
  obtain sos where sl: "st_List (memory_store now) KindService m = (Inr (sos, mem_rev m), m)"
    using mem_lists [OF in_kinds(1)] by blast
  obtain nos where nl: "st_List (memory_store now) KindNode m = (Inr (nos, mem_rev m), m)"
    using mem_lists [OF in_kinds(2)] by blast
  obtain xs where al: "st_List (memory_store now) KindVIPAllocation m = (Inr (xs, mem_rev m), m)"
    using mem_lists [OF in_kinds(3)] by blast
  let ?want = "vip_want sos nos fmempty"
  obtain want' used' errs1 s1 where scan: "alloc_scan (memory_store now) KindVIPAllocation vip_addr vip_good xs ?want
      (\<lambda>_. False) [] m = (want', used', errs1, s1)" by (metis prod_cases4)
  have kinds: "\<forall>x \<in> set xs. KindOf x = KindVIPAllocation"
    using mem.listed_entry [OF ok al in_kinds(3)] by simp
  have "alloc_fill (memory_store now) vip_pick vip_object (sorted_keys want') want' used' (map FillStore errs1) s1
      = (errs, m')"
    using run scan by (simp add: vip_reconcile_def sl nl al vip_scan_eq [OF kinds] vip_fill_eq)
  from that [OF al scan this] vip_want_run [OF ok sl nl] show thesis by blast
qed

lemma vip_pairs_finite:
  assumes "mem_ok m"
  shows "finite (vip_pairs m)"
proof -
  have "finite {n. mem_view m (k, n) \<noteq> None}" if k: "k \<in> set Kinds" for k
  proof -
    obtain xs where "st_List (memory_store 0) k m = (Inr (xs, mem_rev m), m)" using mem_lists [OF k] by blast
    from mem_listed_names(1) [OF assms k this] show ?thesis by (metis List.finite_set finite_imageI)
  qed
  then show ?thesis by (simp add: vip_pairs_def Kinds_def)
qed

lemma vip_pass_facts:
  assumes ok: "mem_ok m" and run: "vip_reconcile (memory_store now) m = (errs, m')"
  shows "mem_ok m'"
    and "k \<noteq> KindVIPAllocation \<Longrightarrow> mem_view m' (k, n) = mem_view m (k, n)"
    and "mem_view m' (KindVIPAllocation, n) = Some (x, v) \<Longrightarrow>
      n \<in> (\<lambda>(svc, node). AllocationName svc node) ` vip_pairs m \<and> (\<exists>a. vip_addr x = Some a \<and> vipPool_Contains a)"
    and "mem_view m' (KindVIPAllocation, n) = Some (x, v) \<Longrightarrow> mem_view m' (KindVIPAllocation, l) = Some (y, u) \<Longrightarrow>
      vip_addr x = vip_addr y \<Longrightarrow> n = l"
    and "mem_view m (KindVIPAllocation, n) = Some (x, v) \<Longrightarrow> p \<in> vip_pairs m \<Longrightarrow> n = AllocationName (fst p) (snd p) \<Longrightarrow>
      vip_addr x = Some a \<Longrightarrow> vipPool_Contains a \<Longrightarrow>
      \<forall>l y u. mem_view m (KindVIPAllocation, l) = Some (y, u) \<longrightarrow> l < n \<longrightarrow> vip_addr y \<noteq> Some a \<Longrightarrow>
      mem_view m' (KindVIPAllocation, n) = Some (x, v)"
    and "errs = [] \<Longrightarrow> p \<in> vip_pairs m \<Longrightarrow> mem_view m' (KindVIPAllocation, AllocationName (fst p) (snd p)) \<noteq> None"
    and "card {n. mem_view m (KindVIPAllocation, n) \<noteq> None} + card (vip_pairs m) \<le> 16256 \<Longrightarrow> errs = []"
proof -
  from vip_run [OF ok run] obtain want xs r want' used' errs1 s1 where
    l: "st_List (memory_store now) KindVIPAllocation m = (Inr (xs, r), m)"
    and scan: "alloc_scan (memory_store now) KindVIPAllocation vip_addr vip_good xs want (\<lambda>_. False) [] m
      = (want', used', errs1, s1)"
    and fill0: "alloc_fill (memory_store now) vip_pick vip_object (sorted_keys want') want' used' (map FillStore errs1) s1
      = (errs, m')"
    and dom: "fmdom' want = (\<lambda>(svc, node). AllocationName svc node) ` vip_pairs m"
    and want: "\<forall>n w. fmlookup want n = Some w \<longrightarrow> vip_wname w = n \<and> valid_name n \<and> (vs_service w, vs_node w) \<in> vip_pairs m" .
  have want0: "\<forall>n w. fmlookup want n = Some w \<longrightarrow> vip_wname w = n \<and> valid_name n" using want by blast
  have "errs1 = []" using vipm.scan_listing [OF ok l scan] by blast
  with fill0 have fill: "alloc_fill (memory_store now) vip_pick vip_object (sorted_keys want') want' used' [] s1 = (errs, m')"
    by simp
  note pass = vipm.repair_pass [OF ok l want0 scan fill]
  from pass show "mem_ok m'" by blast
  from pass show "k \<noteq> KindVIPAllocation \<Longrightarrow> mem_view m' (k, n) = mem_view m (k, n)" by blast
  show "n \<in> (\<lambda>(svc, node). AllocationName svc node) ` vip_pairs m \<and> (\<exists>a. vip_addr x = Some a \<and> vipPool_Contains a)"
    if x: "mem_view m' (KindVIPAllocation, n) = Some (x, v)"
  proof -
    from pass x obtain w a where w: "fmlookup want n = Some w" "vip_good w x" "vip_addr x = Some a" by blast
    then have "n \<in> fmdom' want" by (simp add: fmlookup_dom'_iff)
    with w dom show ?thesis by (simp add: vip_good_def)
  qed
  from pass show "mem_view m' (KindVIPAllocation, n) = Some (x, v) \<Longrightarrow> mem_view m' (KindVIPAllocation, l) = Some (y, u) \<Longrightarrow>
      vip_addr x = vip_addr y \<Longrightarrow> n = l" by blast
  have wanted: "\<exists>w. fmlookup want (AllocationName (fst p) (snd p)) = Some w" if "p \<in> vip_pairs m" for p
  proof -
    from that have "AllocationName (fst p) (snd p) \<in> fmdom' want" unfolding dom by (auto intro: rev_image_eqI)
    then show ?thesis by (simp add: fmlookup_dom'_iff)
  qed
  show "mem_view m' (KindVIPAllocation, n) = Some (x, v)"
    if x: "mem_view m (KindVIPAllocation, n) = Some (x, v)" "p \<in> vip_pairs m" "n = AllocationName (fst p) (snd p)"
      "vip_addr x = Some a" "vipPool_Contains a"
      "\<forall>l y u. mem_view m (KindVIPAllocation, l) = Some (y, u) \<longrightarrow> l < n \<longrightarrow> vip_addr y \<noteq> Some a"
  proof -
    from wanted [OF x(2)] x(3) obtain w where "fmlookup want n = Some w" by blast
    moreover from x(4,5) have "vip_good w x" by (simp add: vip_good_def)
    ultimately show ?thesis using pass x(1,4,6) by blast
  qed
  show "mem_view m' (KindVIPAllocation, AllocationName (fst p) (snd p)) \<noteq> None"
    if "errs = []" "p \<in> vip_pairs m"
  proof -
    from wanted [OF that(2)] obtain w where "fmlookup want (AllocationName (fst p) (snd p)) = Some w" ..
    moreover from pass that(1) have "\<forall>n w. fmlookup want n = Some w \<longrightarrow> mem_view m' (KindVIPAllocation, n) \<noteq> None"
      by blast
    ultimately show ?thesis by blast
  qed
  show "errs = []" if c: "card {n. mem_view m (KindVIPAllocation, n) \<noteq> None} + card (vip_pairs m) \<le> 16256"
  proof -
    have in_kinds: "KindVIPAllocation \<in> set Kinds" by (simp add: Kinds_def)
    note names = mem_listed_names [OF ok in_kinds l]
    have "length xs = card {n. mem_view m (KindVIPAllocation, n) \<noteq> None}"
      using distinct_card [OF names(2)] names(1) by simp
    moreover have "card (fmdom' want) \<le> card (vip_pairs m)" unfolding dom by (rule card_image_le [OF vip_pairs_finite [OF ok]])
    ultimately have "length xs + card (fmdom' want) \<le> card usableVIPs" using c by (simp add: usableVIPs_card)
    with want0 have "\<forall>n w. fmlookup want n = Some w \<longrightarrow> vip_wname w = n \<and> valid_name n \<and>
        length xs + card (fmdom' want) \<le> card usableVIPs" by blast
    from vipm.repair_enough [OF ok l this scan fill] show ?thesis .
  qed
qed

subsection \<open>Properties\<close>

text \<open>
  C14. A pass of the VIP controller over any state the store can reach touches no object of
  another kind and repairs the allocations: every VIPAllocation it leaves names a (Service, Node)
  pair that exists, holds an address of the pool 10.44.64.0/18, and no two hold the same one,
  whatever a second leader had written. An allocation that was valid and first by name among the
  holders of its address is not touched, so a repair never churns a VIP in use.
\<close>

theorem vip_pass_repairs:
  assumes "m = run_ops (memory_store now) ops mem_New"
    and "vip_reconcile (memory_store now) m = (errs, m')"
  shows "(\<forall>k n. k \<noteq> KindVIPAllocation \<longrightarrow> mem_view m' (k, n) = mem_view m (k, n)) \<and>
    (\<forall>n x v. mem_view m' (KindVIPAllocation, n) = Some (x, v) \<longrightarrow>
      (\<exists>(svc, node) \<in> vip_pairs m. n = AllocationName svc node) \<and>
      (\<exists>a. vip_addr x = Some a \<and> vipPool_Contains a)) \<and>
    (\<forall>n l x v y u. mem_view m' (KindVIPAllocation, n) = Some (x, v) \<longrightarrow>
      mem_view m' (KindVIPAllocation, l) = Some (y, u) \<longrightarrow> vip_addr x = vip_addr y \<longrightarrow> n = l) \<and>
    (\<forall>svc node x v a. (svc, node) \<in> vip_pairs m \<longrightarrow>
      mem_view m (KindVIPAllocation, AllocationName svc node) = Some (x, v) \<longrightarrow>
      vip_addr x = Some a \<longrightarrow> vipPool_Contains a \<longrightarrow>
      (\<forall>l y u. mem_view m (KindVIPAllocation, l) = Some (y, u) \<longrightarrow> l < AllocationName svc node \<longrightarrow> vip_addr y \<noteq> Some a) \<longrightarrow>
      mem_view m' (KindVIPAllocation, AllocationName svc node) = Some (x, v))"
proof -
  have ok: "mem_ok m" unfolding assms(1) by (rule mem_reachable_ok)
  note facts = vip_pass_facts [OF ok assms(2)]
  show ?thesis
  proof (intro conjI allI impI)
    fix n x v assume "mem_view m' (KindVIPAllocation, n) = Some (x, v)"
    from facts(3) [OF this] show "\<exists>(svc, node) \<in> vip_pairs m. n = AllocationName svc node"
      "\<exists>a. vip_addr x = Some a \<and> vipPool_Contains a" by auto
  next
    fix n l x v y u
    assume "mem_view m' (KindVIPAllocation, n) = Some (x, v)"
      "mem_view m' (KindVIPAllocation, l) = Some (y, u)" "vip_addr x = vip_addr y"
    then show "n = l" by (rule facts(4))
  next
    fix svc node x v a
    assume *: "(svc, node) \<in> vip_pairs m" "mem_view m (KindVIPAllocation, AllocationName svc node) = Some (x, v)"
      "vip_addr x = Some a" "vipPool_Contains a"
      "\<forall>l y u. mem_view m (KindVIPAllocation, l) = Some (y, u) \<longrightarrow> l < AllocationName svc node \<longrightarrow> vip_addr y \<noteq> Some a"
    show "mem_view m' (KindVIPAllocation, AllocationName svc node) = Some (x, v)"
      by (rule facts(5) [OF *(2,1) _ *(3,4,5)]) simp
  qed (simp add: facts(2))
qed

text \<open>
  C15. The pass leaves every pair served: with room in the pool (16256 usable addresses, 64 blocks
  of 254 hosts, for the allocations there are and the pairs that exist) it reports no error, and
  then every existing (Service, Node) pair has its allocation.
\<close>

theorem vip_pass_serves_every_pair:
  assumes "m = run_ops (memory_store now) ops mem_New"
    and "card {n. mem_view m (KindVIPAllocation, n) \<noteq> None} + card (vip_pairs m) \<le> 16256"
  shows "\<exists>m'. vip_reconcile (memory_store now) m = ([], m') \<and>
    (\<forall>(svc, node) \<in> vip_pairs m. mem_view m' (KindVIPAllocation, AllocationName svc node) \<noteq> None)"
proof -
  have ok: "mem_ok m" unfolding assms(1) by (rule mem_reachable_ok)
  obtain errs m' where run: "vip_reconcile (memory_store now) m = (errs, m')" by fastforce
  note facts = vip_pass_facts [OF ok run]
  have "errs = []" by (rule facts(7) [OF assms(2)])
  with run facts(6) show ?thesis by auto
qed

text \<open>
  The scan of the pool returns the lowest usable address that is not taken, and fails exactly
  when all of the 16256 usable ones are: hosts .0 and .255 of every block are never handed out.
\<close>

theorem firstFreeVIP_least:
  "(case firstFreeVIP used of
      Some w \<Rightarrow> vipPool_Contains (V4 w) \<and> As4 w ! 3 \<noteq> 0 \<and> As4 w ! 3 \<noteq> 255 \<and> \<not> used (V4 w) \<and>
        {x \<in> usableVIPs. \<not> used x \<and> (\<exists>y. x = V4 y \<and> unat y < unat w)} = {}
    | None \<Rightarrow> {x \<in> usableVIPs. \<not> used x} = {})
   \<and> card usableVIPs = 16256"
proof -
  have b3: "As4 w ! 3 = unat w mod 256" for w by (simp add: As4_def Let_def)
  show ?thesis
    using firstFreeVIP_Some [of used] firstFreeVIP_None [of used]
    by (intro conjI usableVIPs_card) (auto simp: b3 usableVIPs_def usableVIP_def split: option.splits)
qed

subsection \<open>A contested address\<close>

definition sample_alloc :: "string \<Rightarrow> string \<Rightarrow> string \<Rightarrow> Object" where
  "sample_alloc svc node vip = Object_VipAllocation
     \<lparr>va_meta = Some (zero_Meta\<lparr>m_name := AllocationName svc node\<rparr>),
      va_spec = Some \<lparr>vs_service = svc, vs_node = node, vs_vip = vip\<rparr>\<rparr>"

definition sample_vip_ops :: "Op list" where
  "sample_vip_ops =
     [OpPut (Object_Service (zero_Service\<lparr>s_meta := Some (zero_Meta\<lparr>m_name := ''web''\<rparr>)\<rparr>)) 0,
      OpPut (Object_Node (zero_Node\<lparr>n_meta := Some (zero_Meta\<lparr>m_name := ''n1''\<rparr>)\<rparr>)) 0,
      OpPut (Object_Node (zero_Node\<lparr>n_meta := Some (zero_Meta\<lparr>m_name := ''n2''\<rparr>)\<rparr>)) 0,
      OpPut (sample_alloc ''web'' ''n1'' ''10.44.64.1'') 0,
      OpPut (sample_alloc ''web'' ''n2'' ''10.44.64.1'') 0]"

lemma mem_names: "{n. mem_view m (k, n) \<noteq> None} = set (sorted_keys (mem_objs m k))"
  by (auto simp: mem_view_def fmlookup_dom'_iff)

lemma sample_vip_names:
  "{n. mem_view (run_ops (memory_store 7) sample_vip_ops mem_New) (KindService, n) \<noteq> None} = {''web''}"
  "{n. mem_view (run_ops (memory_store 7) sample_vip_ops mem_New) (KindNode, n) \<noteq> None} = {''n1'', ''n2''}"
  "{n. mem_view (run_ops (memory_store 7) sample_vip_ops mem_New) (KindVIPAllocation, n) \<noteq> None} = {''web.n1'', ''web.n2''}"
  unfolding mem_names by code_simp+

lemma sample_vip_room:
  "vip_pairs (run_ops (memory_store 7) sample_vip_ops mem_New) = {(''web'', ''n1''), (''web'', ''n2'')}"
  "card {n. mem_view (run_ops (memory_store 7) sample_vip_ops mem_New) (KindVIPAllocation, n) \<noteq> None} +
     card (vip_pairs (run_ops (memory_store 7) sample_vip_ops mem_New)) \<le> 16256"
  unfolding vip_pairs_def sample_vip_names by auto

lemma vip_pass_repairs_witness:
  "\<exists>m' x v y u. vip_reconcile (memory_store 7) (run_ops (memory_store 7) sample_vip_ops mem_New) = ([], m') \<and>
     mem_view m' (KindVIPAllocation, ''web.n1'') = Some (x, v) \<and>
     mem_view m' (KindVIPAllocation, ''web.n2'') = Some (y, u) \<and> vip_addr x \<noteq> vip_addr y"
proof -
  let ?m = "run_ops (memory_store 7) sample_vip_ops mem_New"
  obtain errs m' where run: "vip_reconcile (memory_store 7) ?m = (errs, m')" by fastforce
  note facts = vip_pass_facts [OF mem_reachable_ok run]
  have "errs = []" by (rule facts(7) [OF sample_vip_room(2)])
  from facts(6) [OF this, of "(''web'', ''n1'')"] facts(6) [OF this, of "(''web'', ''n2'')"]
  obtain x v y u where xy: "mem_view m' (KindVIPAllocation, ''web.n1'') = Some (x, v)"
    "mem_view m' (KindVIPAllocation, ''web.n2'') = Some (y, u)"
    by (auto simp: sample_vip_room(1) AllocationName_def)
  from vip_pass_repairs [OF refl run] xy have "vip_addr x = vip_addr y \<longrightarrow> ''web.n1'' = ''web.n2''" by blast
  then have "vip_addr x \<noteq> vip_addr y" by simp
  with run \<open>errs = []\<close> xy show ?thesis by blast
qed

lemma vip_pass_serves_every_pair_witness:
  "\<exists>m'. vip_reconcile (memory_store 7) (run_ops (memory_store 7) sample_vip_ops mem_New) = ([], m') \<and>
     mem_view m' (KindVIPAllocation, ''web.n1'') \<noteq> None \<and> mem_view m' (KindVIPAllocation, ''web.n2'') \<noteq> None"
  using vip_pass_serves_every_pair [OF refl sample_vip_room(2)]
  by (auto simp: sample_vip_room(1) AllocationName_def)

end
