(* ===== verification/Klite_Ingress.thy ===== *)
theory Klite_Ingress
  imports Klite_Alloc
begin

text \<open>
  The ingress-port controller of \<open>src/internal/controller/ingress.go\<close>: one \<open>IngressAllocation\<close> per
  (Service, selected Instance) endpoint, its port from the 32-port slice of the node the instance
  is bound to. \<open>nodeRange\<close> computes the slice in 32-bit arithmetic, wrap-around included. The two
  loops of the pass are the shared scan and fill of \<open>Klite_Alloc\<close>. \<open>selects\<close>, the label match of
  \<open>endpoints.go\<close>, is here because this controller calls it.
\<close>

definition DefaultIngressPortBase :: int where "DefaultIngressPortBase = 20000"
definition IngressPortsPerNode :: int where "IngressPortsPerNode = 32"

definition IngressPortBase :: "int \<Rightarrow> int" where
  "IngressPortBase flag = (if flag = 0 then DefaultIngressPortBase else flag)"

definition IngressAllocationName :: "string \<Rightarrow> string \<Rightarrow> string" where
  "IngressAllocationName service inst = service @ ''.'' @ inst"

text \<open>The zero value a string-valued Go map answers for a missing key.\<close>

definition map_str :: "(string, string) fmap \<Rightarrow> string \<Rightarrow> string" where
  "map_str m k = (case fmlookup m k of None \<Rightarrow> [] | Some v \<Rightarrow> v)"

definition selects :: "Service \<Rightarrow> Instance \<Rightarrow> bool" where
  "selects svc inst =
     (let sel = ss_selector (s_Spec svc) in
      if sorted_keys sel = [] then False
      else
        (let labels = m_labels (i_Meta inst)
         in list_all (\<lambda>k. map_str labels k = map_str sel k) (sorted_keys sel)))"

definition nodeRange :: "int \<Rightarrow> int \<Rightarrow> (int \<times> int) option" where
  "nodeRange base index =
     (if index < 1 then None
      else
        (let lo = wrap32 (base + wrap32 (IngressPortsPerNode * wrap32 (index - 1)));
             hi = wrap32 (lo + IngressPortsPerNode)
         in if lo < 1 \<or> hi > 65536 then None else Some (lo, hi)))"

function firstFreePort :: "int \<Rightarrow> int \<Rightarrow> (int \<Rightarrow> bool) \<Rightarrow> int option" where
  "firstFreePort p hi used =
     (if p < hi then (if \<not> used p then Some p else firstFreePort (p + 1) hi used) else None)"
  by pat_completeness auto

termination by (relation "measure (\<lambda>(p, hi, used). nat (hi - p))") auto

declare firstFreePort.simps [simp del]

subsection \<open>The controller\<close>

fun ing_index :: "Object list \<Rightarrow> (string \<Rightarrow> int) \<Rightarrow> string \<Rightarrow> int" where
  "ing_index [] index = index"
| "ing_index (no # nos) index =
     (let n = GetNode no in ing_index nos (index(m_name (n_Meta n) := nst_nodeIndex (n_Status n))))"

fun wanted_instances ::
    "int \<Rightarrow> (string \<Rightarrow> int) \<Rightarrow> Service \<Rightarrow> Object list \<Rightarrow> (string, IngressAllocationSpec) fmap \<Rightarrow>
     (string, IngressAllocationSpec) fmap" where
  "wanted_instances base index svc [] want = want"
| "wanted_instances base index svc (io # ios) want =
     (let inst = GetInstance io;
          node = is_node (i_Spec inst);
          name = IngressAllocationName (m_name (s_Meta svc)) (m_name (i_Meta inst)) in
      if node = [] \<or> \<not> selects svc inst then wanted_instances base index svc ios want
      else if nodeRange base (index node) = None then wanted_instances base index svc ios want
      else wanted_instances base index svc ios
             (fmupd name \<lparr>ias_service = m_name (s_Meta svc), ias_instance = m_name (i_Meta inst),
                ias_node = node, ias_port = 0\<rparr> want))"

fun wanted ::
    "int \<Rightarrow> (string \<Rightarrow> int) \<Rightarrow> Object list \<Rightarrow> Object list \<Rightarrow> (string, IngressAllocationSpec) fmap \<Rightarrow>
     (string, IngressAllocationSpec) fmap" where
  "wanted base index [] instObjs want = want"
| "wanted base index (so # sos) instObjs want =
     wanted base index sos instObjs (wanted_instances base index (GetService so) instObjs want)"

definition ing_reconcileAllocation ::
    "'s Store \<Rightarrow> int \<Rightarrow> (string \<Rightarrow> int) \<Rightarrow> IngressAllocation \<Rightarrow> (string, IngressAllocationSpec) fmap \<Rightarrow>
     (int \<Rightarrow> bool) \<Rightarrow> 's \<Rightarrow> StoreErr list \<times> (string, IngressAllocationSpec) fmap \<times> (int \<Rightarrow> bool) \<times> 's" where
  "ing_reconcileAllocation S base index alloc want used s =
     (let name = m_name (ia_Meta alloc);
          port = ias_port (ia_Spec alloc);
          valid = (case nodeRange base (index (ias_node (ia_Spec alloc))) of
                     None \<Rightarrow> False | Some (lo, hi) \<Rightarrow> port \<ge> lo \<and> port < hi);
          duplicate = (valid \<and> used port);
          used1 = (if port > 0 then used(port := True) else used);
          spec = fmlookup want name;
          want1 = fmdrop name want;
          rv = m_resourceVersion (ia_Meta alloc) in
      case spec of
        None \<Rightarrow>
          (let (es, s') = release S KindIngressAllocation name rv s in (es, want1, used1, s'))
      | Some sp \<Rightarrow>
          if ias_node sp \<noteq> ias_node (ia_Spec alloc) then
            (let (es, s') = release S KindIngressAllocation name rv s in (es, fmupd name sp want1, used1, s'))
          else if \<not> valid then
            (let (es, s') = release S KindIngressAllocation name rv s in (es, fmupd name sp want1, used1, s'))
          else if duplicate then
            (let (es, s') = release S KindIngressAllocation name rv s in (es, fmupd name sp want1, used1, s'))
          else ([], want1, used1, s))"

fun ing_scan ::
    "'s Store \<Rightarrow> int \<Rightarrow> (string \<Rightarrow> int) \<Rightarrow> Object list \<Rightarrow> (string, IngressAllocationSpec) fmap \<Rightarrow>
     (int \<Rightarrow> bool) \<Rightarrow> StoreErr list \<Rightarrow> 's \<Rightarrow>
     (string, IngressAllocationSpec) fmap \<times> (int \<Rightarrow> bool) \<times> StoreErr list \<times> 's" where
  "ing_scan S base index [] want used errs s = (want, used, errs, s)"
| "ing_scan S base index (ao # aos) want used errs s =
     (let (es, want', used', s') = ing_reconcileAllocation S base index (GetIngressAllocation ao) want used s
      in ing_scan S base index aos want' used' (errs @ es) s')"

definition ing_object :: "IngressAllocationSpec \<Rightarrow> int \<Rightarrow> Object" where
  "ing_object spec port = Object_IngressAllocation
     \<lparr>ia_meta = Some (zero_Meta\<lparr>m_name := IngressAllocationName (ias_service spec) (ias_instance spec)\<rparr>),
      ia_spec = Some (spec\<lparr>ias_port := port\<rparr>)\<rparr>"

definition ing_allocate ::
    "'s Store \<Rightarrow> int \<Rightarrow> (string \<Rightarrow> int) \<Rightarrow> IngressAllocationSpec \<Rightarrow> (int \<Rightarrow> bool) \<Rightarrow> 's \<Rightarrow>
     FillErr list \<times> (int \<Rightarrow> bool) \<times> 's" where
  "ing_allocate S base index spec used s = (case nodeRange base (index (ias_node spec)) of
     None \<Rightarrow> ([], used, s)
   | Some (lo, hi) \<Rightarrow>
     (case firstFreePort lo hi used of
        None \<Rightarrow> ([FillExhausted], used, s)
      | Some port \<Rightarrow>
        (let used1 = used(port := True) in
         case st_Put S (ing_object spec port) RevCreate s of
           (Inl ErrAlreadyExists, s') \<Rightarrow> ([], used1, s')
         | (Inl err, s') \<Rightarrow> ([FillStore err], used1, s')
         | (Inr _, s') \<Rightarrow> ([], used1, s'))))"

fun ing_fill ::
    "'s Store \<Rightarrow> int \<Rightarrow> (string \<Rightarrow> int) \<Rightarrow> string list \<Rightarrow> (string, IngressAllocationSpec) fmap \<Rightarrow>
     (int \<Rightarrow> bool) \<Rightarrow> FillErr list \<Rightarrow> 's \<Rightarrow> FillErr list \<times> 's" where
  "ing_fill S base index [] want used errs s = (errs, s)"
| "ing_fill S base index (n # ns) want used errs s =
     (let (es, used', s') = ing_allocate S base index (the (fmlookup want n)) used s
      in ing_fill S base index ns want used' (errs @ es) s')"

definition ing_reconcile :: "'s Store \<Rightarrow> int \<Rightarrow> 's \<Rightarrow> FillErr list \<times> 's" where
  "ing_reconcile S base s0 = (case st_List S KindService s0 of
     (Inl err, s1) \<Rightarrow> ([FillStore err], s1)
   | (Inr (svcObjs, _), s1) \<Rightarrow>
     (case st_List S KindInstance s1 of
        (Inl err, s2) \<Rightarrow> ([FillStore err], s2)
      | (Inr (instObjs, _), s2) \<Rightarrow>
        (case st_List S KindNode s2 of
           (Inl err, s3) \<Rightarrow> ([FillStore err], s3)
         | (Inr (nodeObjs, _), s3) \<Rightarrow>
           (case st_List S KindIngressAllocation s3 of
              (Inl err, s4) \<Rightarrow> ([FillStore err], s4)
            | (Inr (allocObjs, _), s4) \<Rightarrow>
              (let index = ing_index nodeObjs (\<lambda>_. 0);
                   want = wanted base index svcObjs instObjs fmempty;
                   (want1, used1, errs1, s5) = ing_scan S base index allocObjs want (\<lambda>_. False) [] s4
               in ing_fill S base index (sorted_keys want1) want1 used1 (map FillStore errs1) s5)))))"

subsection \<open>Slices and the port scan\<close>

lemma selects_iff:
  "selects svc inst \<longleftrightarrow> ss_selector (s_Spec svc) \<noteq> fmempty \<and>
     (\<forall>k v. fmlookup (ss_selector (s_Spec svc)) k = Some v \<longrightarrow> map_str (m_labels (i_Meta inst)) k = v)"
proof -
  have "sorted_keys (m :: (string, string) fmap) = [] \<longleftrightarrow> m = fmempty" for m
    by (metis fmap_ext fmdom'_notD fmempty_lookup set_sorted_keys sorted_keys_fmempty empty_iff empty_set)
  then show ?thesis
    by (auto simp: selects_def Let_def list_all_iff map_str_def fmlookup_dom'_iff)
qed

text \<open>Inside the port space the 32-bit arithmetic of \<open>nodeRange\<close> is exact.\<close>

lemma nodeRange_exact:
  assumes "0 \<le> base" "base \<le> 65535" "1 \<le> index" "index \<le> 33554432"
  shows "nodeRange base index =
    (if 1 \<le> base + 32 * (index - 1) \<and> base + 32 * index \<le> 65536
     then Some (base + 32 * (index - 1), base + 32 * index) else None)"
proof -
  have "is_int32 (index - 1)" "is_int32 (32 * (index - 1))" "is_int32 (base + 32 * (index - 1))"
    "is_int32 (base + 32 * (index - 1) + 32)"
    using assms by (simp_all add: is_int32_def)
  with assms show ?thesis by (auto simp: nodeRange_def IngressPortsPerNode_def Let_def)
qed

lemma nodeRange_bounds: "nodeRange base index = Some (lo, hi) \<Longrightarrow> 1 \<le> lo \<and> hi \<le> 65536"
  by (auto simp: nodeRange_def Let_def split: if_splits)

lemma firstFreePort_Some:
  "firstFreePort p hi used = Some q \<Longrightarrow> p \<le> q \<and> q < hi \<and> \<not> used q \<and> (\<forall>r. p \<le> r \<longrightarrow> r < q \<longrightarrow> used r)"
proof (induction p hi used rule: firstFreePort.induct)
  case (1 p hi used)
  show ?case
  proof (cases "p < hi \<and> used p")
    case True
    with "1.prems" have "firstFreePort (p + 1) hi used = Some q"
      by (simp add: firstFreePort.simps [of p])
    with True "1.IH" have IH: "p + 1 \<le> q" "q < hi" "\<not> used q" "\<forall>r. p + 1 \<le> r \<longrightarrow> r < q \<longrightarrow> used r" by simp_all
    have "used r" if "p \<le> r" "r < q" for r using IH(4) True that by (cases "r = p") auto
    with IH show ?thesis by auto
  next
    case False
    with "1.prems" show ?thesis by (auto simp: firstFreePort.simps [of p] split: if_splits)
  qed
qed

lemma firstFreePort_None: "firstFreePort p hi used = None \<Longrightarrow> p \<le> q \<Longrightarrow> q < hi \<Longrightarrow> used q"
proof (induction p hi used rule: firstFreePort.induct)
  case (1 p hi used)
  from "1.prems" have p: "p < hi" "used p" "firstFreePort (p + 1) hi used = None"
    by (auto simp: firstFreePort.simps [of p] split: if_splits)
  then show ?case using "1.IH" "1.prems"(2,3) by (cases "q = p") auto
qed

subsection \<open>The controller runs the shared scan and fill\<close>

definition ing_addr :: "Object \<Rightarrow> int option" where
  "ing_addr x = (let port = ias_port (ia_Spec (GetIngressAllocation x)) in if port > 0 then Some port else None)"

definition ing_good :: "int \<Rightarrow> (string \<Rightarrow> int) \<Rightarrow> IngressAllocationSpec \<Rightarrow> Object \<Rightarrow> bool" where
  "ing_good base index w x \<longleftrightarrow>
     (let a = ia_Spec (GetIngressAllocation x) in ias_node w = ias_node a \<and>
       (case nodeRange base (index (ias_node a)) of
          None \<Rightarrow> False | Some (lo, hi) \<Rightarrow> lo \<le> ias_port a \<and> ias_port a < hi))"

definition ing_pick :: "int \<Rightarrow> (string \<Rightarrow> int) \<Rightarrow> IngressAllocationSpec \<Rightarrow> (int \<Rightarrow> bool) \<Rightarrow> int option" where
  "ing_pick base index w used = (case nodeRange base (index (ias_node w)) of
     None \<Rightarrow> None | Some (lo, hi) \<Rightarrow> firstFreePort lo hi used)"

definition ing_wname :: "IngressAllocationSpec \<Rightarrow> string" where
  "ing_wname w = IngressAllocationName (ias_service w) (ias_instance w)"

definition ing_cap :: "int \<Rightarrow> (string \<Rightarrow> int) \<Rightarrow> IngressAllocationSpec \<Rightarrow> int set" where
  "ing_cap base index w = (case nodeRange base (index (ias_node w)) of None \<Rightarrow> {} | Some (lo, hi) \<Rightarrow> {lo..<hi})"

lemma ing_step_eq:
  assumes "x = Object_IngressAllocation a"
  shows "ing_reconcileAllocation S base index a want used s =
    (if keep ing_addr (ing_good base index) want used x
     then ([], fmdrop (object_name x) want, reserve (ing_addr x) used, s)
     else (let (es, s') = release S KindIngressAllocation (object_name x) (m_resourceVersion (MetaOf x)) s
           in (es, want, reserve (ing_addr x) used, s')))"
proof -
  let ?p = "ias_port (ia_Spec a)"
  let ?r = "nodeRange base (index (ias_node (ia_Spec a)))"
  have n: "object_name x = m_name (ia_Meta a)" "MetaOf x = ia_Meta a"
    "ing_addr x = (if ?p > 0 then Some ?p else None)" "ia_Spec (GetIngressAllocation x) = ia_Spec a"
    using assms by (simp_all add: object_name_def ing_addr_def)
  have res: "reserve (ing_addr x) used = (if ?p > 0 then used(?p := True) else used)"
    by (simp add: n(3) reserve_def)
  show ?thesis
  proof (cases "fmlookup want (m_name (ia_Meta a))")
    case None
    then show ?thesis unfolding ing_reconcileAllocation_def res
      by (simp add: Let_def keep_def n fmdrop_absent)
  next
    case (Some sp)
    note same = fmupd_fmdrop_same [OF Some]
    show ?thesis
    proof (cases ?r)
      case None
      with Some same show ?thesis unfolding ing_reconcileAllocation_def res
        by (simp add: Let_def keep_def n ing_good_def)
    next
      case (Some r)
      obtain lo hi where r: "?r = Some (lo, hi)" using Some by (cases r) auto
      have lo: "1 \<le> lo" using nodeRange_bounds [OF r] by simp
      have k: "keep ing_addr (ing_good base index) want used x \<longleftrightarrow>
          ias_node sp = ias_node (ia_Spec a) \<and> lo \<le> ?p \<and> ?p < hi \<and> \<not> used ?p"
        using \<open>fmlookup want (m_name (ia_Meta a)) = Some sp\<close> lo r
        by (auto simp: keep_def n ing_good_def Let_def)
      show ?thesis
        unfolding ing_reconcileAllocation_def res k
        using \<open>fmlookup want (m_name (ia_Meta a)) = Some sp\<close> r same by (simp add: Let_def n)
    qed
  qed
qed

lemma ing_scan_eq:
  "\<forall>x \<in> set xs. KindOf x = KindIngressAllocation \<Longrightarrow>
   ing_scan S base index xs want used errs s =
     alloc_scan S KindIngressAllocation ing_addr (ing_good base index) xs want used errs s"
proof (induction xs arbitrary: want used errs s)
  case (Cons x xs)
  then have x: "x = Object_IngressAllocation (GetIngressAllocation x)" using Object_of_kind(7) by auto
  with Cons show ?case
    by (simp add: ing_step_eq [OF x] split: prod.splits)
qed simp

lemma ing_fill_eq:
  "\<forall>n \<in> set ns. nodeRange base (index (ias_node (the (fmlookup want n)))) \<noteq> None \<Longrightarrow>
   ing_fill S base index ns want used errs s = alloc_fill S (ing_pick base index) ing_object ns want used errs s"
proof (induction ns arbitrary: used errs s)
  case (Cons n ns)
  then obtain lo hi where r: "nodeRange base (index (ias_node (the (fmlookup want n)))) = Some (lo, hi)" by auto
  from Cons have IH: "ing_fill S base index ns want used' errs' s' =
      alloc_fill S (ing_pick base index) ing_object ns want used' errs' s'" for used' errs' s' by simp
  have pick: "ing_pick base index (the (fmlookup want n)) used = firstFreePort lo hi used"
    by (simp add: ing_pick_def r)
  show ?case
    by (cases "firstFreePort lo hi used")
      (simp_all add: ing_allocate_def pick Let_def r IH split: prod.splits sum.splits StoreErr.splits)
qed simp

interpretation ingm: repair_allocator "memory_store now" mem_view mem_rev mem_ok
  KindIngressAllocation ing_addr "ing_good base index" "ing_pick base index" ing_object ing_wname
  "ing_cap base index" for now base index
proof unfold_locales
  fix w used a assume a: "ing_pick base index w used = Some a"
  then obtain lo hi where r: "nodeRange base (index (ias_node w)) = Some (lo, hi)"
    and f: "firstFreePort lo hi used = Some a" by (auto simp: ing_pick_def split: option.splits)
  note p = firstFreePort_Some [OF f] and b = nodeRange_bounds [OF r]
  from p show "\<not> used a" by simp
  from p r show "ing_good base index w (ing_object w a)" by (simp add: ing_good_def ing_object_def)
  from p b show "ing_addr (ing_object w a) = Some a" by (simp add: ing_addr_def ing_object_def)
next
  fix w used a assume "ing_pick base index w used = None" "a \<in> ing_cap base index w"
  then show "used a" using firstFreePort_None [of _ _ used a]
    by (auto simp: ing_pick_def ing_cap_def split: option.splits)
next
  fix w show "finite (ing_cap base index w)" by (simp add: ing_cap_def split: option.splits)
next
  fix f x show "ing_addr (upd_Meta f x) = ing_addr x" by (cases x) (simp_all add: ing_addr_def)
  fix w show "ing_good base index w (upd_Meta f x) = ing_good base index w x"
    by (cases x) (simp_all add: ing_good_def)
qed (simp_all add: Kinds_def ing_object_def object_name_def ing_wname_def)

subsection \<open>What a pass wants\<close>

text \<open>
  An endpoint: a Service, an Instance it selects that is bound to a node, and the node's slice.
\<close>

definition endpoint_spec :: "int \<Rightarrow> (string \<Rightarrow> int) \<Rightarrow> Object \<Rightarrow> Object \<Rightarrow> IngressAllocationSpec option" where
  "endpoint_spec base index so io =
     (let svc = GetService so; inst = GetInstance io; node = is_node (i_Spec inst) in
      if node \<noteq> [] \<and> selects svc inst \<and> nodeRange base (index node) \<noteq> None
      then Some \<lparr>ias_service = m_name (s_Meta svc), ias_instance = m_name (i_Meta inst), ias_node = node, ias_port = 0\<rparr>
      else None)"

lemma wanted_instances_step:
  "wanted_instances base index (GetService so) (io # ios) want =
     wanted_instances base index (GetService so) ios
       (case endpoint_spec base index so io of None \<Rightarrow> want | Some w \<Rightarrow> fmupd (ing_wname w) w want)"
  by (simp add: endpoint_spec_def Let_def ing_wname_def)

lemma wanted_instances_lookup:
  "fmlookup (wanted_instances base index (GetService so) ios want) n = Some w \<Longrightarrow>
     fmlookup want n = Some w \<or> (\<exists>io \<in> set ios. endpoint_spec base index so io = Some w \<and> n = ing_wname w)"
proof (induction ios arbitrary: want)
  case (Cons io ios)
  from Cons.IH [OF Cons.prems [unfolded wanted_instances_step]] show ?case
    by (auto split: option.splits if_splits)
qed simp

lemma wanted_instances_dom:
  "fmdom' (wanted_instances base index (GetService so) ios want) = fmdom' want \<union>
     {n. \<exists>io \<in> set ios. \<exists>w. endpoint_spec base index so io = Some w \<and> n = ing_wname w}"
proof (induction ios arbitrary: want)
  case (Cons io ios)
  show ?case unfolding wanted_instances_step Cons.IH by (auto split: option.splits)
qed simp

lemma wanted_lookup:
  "fmlookup (wanted base index sos ios want) n = Some w \<Longrightarrow>
     fmlookup want n = Some w \<or>
     (\<exists>so \<in> set sos. \<exists>io \<in> set ios. endpoint_spec base index so io = Some w \<and> n = ing_wname w)"
proof (induction sos arbitrary: want)
  case (Cons so sos)
  then have "fmlookup (wanted base index sos ios (wanted_instances base index (GetService so) ios want)) n = Some w"
    by simp
  from Cons.IH [OF this] wanted_instances_lookup [of base index so ios want n w] show ?case by auto
qed simp

lemma wanted_dom:
  "fmdom' (wanted base index sos ios want) = fmdom' want \<union>
     {n. \<exists>so \<in> set sos. \<exists>io \<in> set ios. \<exists>w. endpoint_spec base index so io = Some w \<and> n = ing_wname w}"
  by (induction sos arbitrary: want) (auto simp: wanted_instances_dom)

lemma endpoint_spec_SomeD:
  "endpoint_spec base index so io = Some w \<Longrightarrow> nodeRange base (index (ias_node w)) \<noteq> None"
  by (auto simp: endpoint_spec_def Let_def split: if_splits)

subsection \<open>A whole pass\<close>

definition node_index :: "Memory \<Rightarrow> string \<Rightarrow> int" where
  "node_index m n = (case mem_view m (KindNode, n) of None \<Rightarrow> 0 | Some (x, _) \<Rightarrow> nst_nodeIndex (n_Status (GetNode x)))"

definition stored :: "Memory \<Rightarrow> string \<Rightarrow> Object \<Rightarrow> bool" where
  "stored m k x \<longleftrightarrow> (\<exists>n v. mem_view m (k, n) = Some (x, v))"

definition ing_wanted :: "int \<Rightarrow> Memory \<Rightarrow> IngressAllocationSpec set" where
  "ing_wanted base m = {w. \<exists>so io. stored m KindService so \<and> stored m KindInstance io \<and>
     endpoint_spec base (node_index m) so io = Some w}"

lemma ing_index_lookup:
  "distinct (map (\<lambda>no. m_name (n_Meta (GetNode no))) nos) \<Longrightarrow>
   ing_index nos idx n = (case List.find (\<lambda>no. m_name (n_Meta (GetNode no)) = n) nos of
     None \<Rightarrow> idx n | Some no \<Rightarrow> nst_nodeIndex (n_Status (GetNode no)))"
proof (induction nos arbitrary: idx)
  case (Cons no nos)
  then have d: "m_name (n_Meta (GetNode no)) \<notin> (\<lambda>no. m_name (n_Meta (GetNode no))) ` set nos"
    "distinct (map (\<lambda>no. m_name (n_Meta (GetNode no))) nos)" by simp_all
  show ?case
  proof (cases "m_name (n_Meta (GetNode no)) = n")
    case True
    with d(1) have "List.find (\<lambda>no. m_name (n_Meta (GetNode no)) = n) nos = None"
      by (intro find_key_None) simp
    with True Cons.IH [OF d(2)] show ?thesis by (simp add: Let_def)
  next
    case False
    with Cons.IH [OF d(2)] show ?thesis by (simp add: Let_def split: option.splits)
  qed
qed simp

lemma listed_stored:
  assumes "mem_ok m" and "k \<in> set Kinds" and "st_List (memory_store now) k m = (Inr (xs, r), m)"
  shows "x \<in> set xs \<longleftrightarrow> stored m k x"
proof -
  note l = mem.listed_view(1) [OF assms(1,3,2)]
  show ?thesis
    using l [of x] mem_view_ok [OF assms(1), of k _ x] by (auto simp: stored_def)
qed

lemma ing_index_nodes:
  assumes ok: "mem_ok m" and nl: "st_List (memory_store now) KindNode m = (Inr (nos, r), m)"
  shows "ing_index nos (\<lambda>_. 0) = node_index m"
proof
  fix n
  have k: "KindNode \<in> set Kinds" by (simp add: Kinds_def)
  have nm: "m_name (n_Meta (GetNode no)) = object_name no" if "no \<in> set nos" for no
    using mem.listed_entry [OF ok nl k that] node_object_name by simp
  then have "map (\<lambda>no. m_name (n_Meta (GetNode no))) nos = map object_name nos" by simp
  with mem_listed_names(2) [OF ok k nl]
  have d: "distinct (map (\<lambda>no. m_name (n_Meta (GetNode no))) nos)" by metis
  show "ing_index nos (\<lambda>_. 0) n = node_index m n"
  proof (cases "mem_view m (KindNode, n)")
    case None
    then have "n \<notin> object_name ` set nos" using mem_listed_names(1) [OF ok k nl] by auto
    then have "List.find (\<lambda>no. m_name (n_Meta (GetNode no)) = n) nos = None"
      using nm by (force simp: find_None_iff)
    with None show ?thesis by (simp add: ing_index_lookup [OF d] node_index_def)
  next
    case (Some p)
    then obtain x v where x: "mem_view m (KindNode, n) = Some (x, v)" by (cases p) auto
    then have "x \<in> set nos" using listed_stored [OF ok k nl] by (auto simp: stored_def)
    moreover have "object_name x = n" using mem_view_ok [OF ok x] by simp
    ultimately have "List.find (\<lambda>no. m_name (n_Meta (GetNode no)) = n) nos \<noteq> None"
      using nm by (auto simp: find_None_iff)
    then obtain y where y: "List.find (\<lambda>no. m_name (n_Meta (GetNode no)) = n) nos = Some y" by auto
    then have "y \<in> set nos" "object_name y = n" using nm by (auto simp: find_Some_iff)
    then have "mem_view m (KindNode, n) = Some (y, m_resourceVersion (MetaOf y))"
      using mem.listed_entry [OF ok nl k] by auto
    with x y show ?thesis by (simp add: ing_index_lookup [OF d] node_index_def)
  qed
qed

lemma endpoint_spec_name:
  assumes "mem_ok m" "stored m KindService so" "stored m KindInstance io" "endpoint_spec base index so io = Some w"
  shows "valid_name (ing_wname w)"
proof -
  from assms(2,3) obtain n v n' v' where *: "mem_view m (KindService, n) = Some (so, v)"
    "mem_view m (KindInstance, n') = Some (io, v')" by (auto simp: stored_def)
  note ok = mem_view_ok [OF assms(1) *(1)] mem_view_ok [OF assms(1) *(2)]
  from ok have "m_name (s_Meta (GetService so)) = n" using service_name [of so] by simp
  moreover from ok Object_of_kind(1) [of io] have "m_name (i_Meta (GetInstance io)) = n'"
    by (metis MetaOf.simps(5) object_name_def)
  ultimately show ?thesis using ok assms(4)
    by (auto simp: endpoint_spec_def Let_def ing_wname_def IngressAllocationName_def valid_name_def split: if_splits)
qed

lemma ing_run:
  assumes ok: "mem_ok m" and run: "ing_reconcile (memory_store now) base m = (errs, m')"
  obtains want xs r want' used' s1 where
    "st_List (memory_store now) KindIngressAllocation m = (Inr (xs, r), m)"
    "alloc_scan (memory_store now) KindIngressAllocation ing_addr (ing_good base (node_index m)) xs want
       (\<lambda>_. False) [] m = (want', used', [], s1)"
    "alloc_fill (memory_store now) (ing_pick base (node_index m)) ing_object (sorted_keys want') want' used' [] s1
       = (errs, m')"
    "\<forall>n w. fmlookup want n = Some w \<longrightarrow> ing_wname w = n \<and> valid_name n \<and> w \<in> ing_wanted base m"
    "\<forall>w \<in> ing_wanted base m. fmlookup want (ing_wname w) \<noteq> None"
proof -
  have ks: "KindService \<in> set Kinds" "KindInstance \<in> set Kinds" "KindNode \<in> set Kinds"
    "KindIngressAllocation \<in> set Kinds" by (simp_all add: Kinds_def)
  obtain sos where sl: "st_List (memory_store now) KindService m = (Inr (sos, mem_rev m), m)"
    using mem_lists [OF ks(1)] by blast
  obtain ios where il: "st_List (memory_store now) KindInstance m = (Inr (ios, mem_rev m), m)"
    using mem_lists [OF ks(2)] by blast
  obtain nos where nl: "st_List (memory_store now) KindNode m = (Inr (nos, mem_rev m), m)"
    using mem_lists [OF ks(3)] by blast
  obtain xs where al: "st_List (memory_store now) KindIngressAllocation m = (Inr (xs, mem_rev m), m)"
    using mem_lists [OF ks(4)] by blast
  let ?want = "wanted base (node_index m) sos ios fmempty"
  obtain want' used' errs1 s1 where scan0: "alloc_scan (memory_store now) KindIngressAllocation ing_addr
      (ing_good base (node_index m)) xs ?want (\<lambda>_. False) [] m = (want', used', errs1, s1)" by (metis prod_cases4)
  from ingm.scan_listing [OF ok al scan0] obtain kept where
    e: "errs1 = []" and kept: "ingm.scanned base (node_index m) xs ?want m kept want' used' s1" by blast
  note st = listed_stored [OF ok ks(1) sl] listed_stored [OF ok ks(2) il]
  have want: "ing_wname w = n \<and> valid_name n \<and> w \<in> ing_wanted base m" if "fmlookup ?want n = Some w" for n w
  proof -
    from wanted_lookup [OF that] obtain so io where
      w: "stored m KindService so" "stored m KindInstance io" "endpoint_spec base (node_index m) so io = Some w"
        "n = ing_wname w" using st by auto
    from endpoint_spec_name [OF ok w(1-3)] w show ?thesis unfolding ing_wanted_def by blast
  qed
  have "w \<in> ing_wanted base m \<Longrightarrow> ing_wname w \<in> fmdom' ?want" for w
    using st by (auto simp: wanted_dom ing_wanted_def)
  then have all: "\<forall>w \<in> ing_wanted base m. fmlookup ?want (ing_wname w) \<noteq> None" by (simp add: fmlookup_dom'_iff)
  have kinds: "\<forall>x \<in> set xs. KindOf x = KindIngressAllocation"
    using mem.listed_entry [OF ok al ks(4)] by simp
  have rng: "nodeRange base (node_index m (ias_node (the (fmlookup want' n)))) \<noteq> None"
    if "n \<in> set (sorted_keys want')" for n
  proof -
    from that obtain w where w: "fmlookup want' n = Some w" by (auto simp: fmlookup_dom'_iff)
    with ingm.scannedD(6) [OF kept, of n] have "fmlookup ?want n = Some w" by (simp split: if_splits)
    from want [OF this] w show ?thesis using endpoint_spec_SomeD by (auto simp: ing_wanted_def)
  qed
  have "alloc_fill (memory_store now) (ing_pick base (node_index m)) ing_object (sorted_keys want') want' used' [] s1
      = (errs, m')"
    using run scan0 e rng
    by (simp add: ing_reconcile_def sl il nl al ing_index_nodes [OF ok nl] ing_scan_eq [OF kinds] ing_fill_eq)
  from that [OF al scan0 [unfolded e] this] want all show thesis by blast
qed

subsection \<open>Properties\<close>

text \<open>
  C17. A pass of the ingress controller over any state the store can reach touches no object of
  another kind; every allocation it leaves belongs to an endpoint that exists (a Service, an
  Instance it selects, bound to a node that has a slice), sits on that instance's node and holds a
  port of that node's slice; no port is held twice in the whole cluster; and if the pass reports
  no error every endpoint has its port.
\<close>

theorem ingress_pass_repairs:
  assumes "m = run_ops (memory_store now) ops mem_New"
    and "ing_reconcile (memory_store now) base m = (errs, m')"
  shows "(\<forall>k n. k \<noteq> KindIngressAllocation \<longrightarrow> mem_view m' (k, n) = mem_view m (k, n)) \<and>
    (\<forall>n x v. mem_view m' (KindIngressAllocation, n) = Some (x, v) \<longrightarrow>
      (\<exists>w \<in> ing_wanted base m. n = ing_wname w \<and> ing_good base (node_index m) w x)) \<and>
    (\<forall>n l x v y u. mem_view m' (KindIngressAllocation, n) = Some (x, v) \<longrightarrow>
      mem_view m' (KindIngressAllocation, l) = Some (y, u) \<longrightarrow>
      ias_port (ia_Spec (GetIngressAllocation x)) = ias_port (ia_Spec (GetIngressAllocation y)) \<longrightarrow> n = l) \<and>
    (errs = [] \<longrightarrow> (\<forall>w \<in> ing_wanted base m. mem_view m' (KindIngressAllocation, ing_wname w) \<noteq> None))"
proof -
  have ok: "mem_ok m" unfolding assms(1) by (rule mem_reachable_ok)
  from ing_run [OF ok assms(2)] obtain want xs r want' used' s1 where
    l: "st_List (memory_store now) KindIngressAllocation m = (Inr (xs, r), m)"
    and scan: "alloc_scan (memory_store now) KindIngressAllocation ing_addr (ing_good base (node_index m)) xs want
       (\<lambda>_. False) [] m = (want', used', [], s1)"
    and fill: "alloc_fill (memory_store now) (ing_pick base (node_index m)) ing_object (sorted_keys want') want' used' [] s1
       = (errs, m')"
    and want: "\<forall>n w. fmlookup want n = Some w \<longrightarrow> ing_wname w = n \<and> valid_name n \<and> w \<in> ing_wanted base m"
    and all: "\<forall>w \<in> ing_wanted base m. fmlookup want (ing_wname w) \<noteq> None" .
  have want0: "\<forall>n w. fmlookup want n = Some w \<longrightarrow> ing_wname w = n \<and> valid_name n" using want by blast
  note pass = ingm.repair_pass [OF ok l want0 scan fill]
  show ?thesis
  proof (intro conjI allI impI ballI)
    fix n x v assume "mem_view m' (KindIngressAllocation, n) = Some (x, v)"
    with pass obtain w where "fmlookup want n = Some w" "ing_good base (node_index m) w x" by blast
    with want show "\<exists>w \<in> ing_wanted base m. n = ing_wname w \<and> ing_good base (node_index m) w x" by blast
  next
    fix n l x v y u
    assume "mem_view m' (KindIngressAllocation, n) = Some (x, v)"
      "mem_view m' (KindIngressAllocation, l) = Some (y, u)"
      "ias_port (ia_Spec (GetIngressAllocation x)) = ias_port (ia_Spec (GetIngressAllocation y))"
    moreover from this(3) have "ing_addr x = ing_addr y" by (simp add: ing_addr_def)
    ultimately show "n = l" using pass by blast
  next
    fix w assume e: "errs = []" and w: "w \<in> ing_wanted base m"
    from all w obtain w' where "fmlookup want (ing_wname w) = Some w'" by blast
    moreover from pass e have "\<forall>n w. fmlookup want n = Some w \<longrightarrow> mem_view m' (KindIngressAllocation, n) \<noteq> None"
      by blast
    ultimately show "mem_view m' (KindIngressAllocation, ing_wname w) \<noteq> None" by blast
  qed (use pass in blast)
qed

definition sample_ing_ops :: "Op list" where
  "sample_ing_ops =
     [OpPut (Object_Service (zero_Service\<lparr>s_meta := Some (zero_Meta\<lparr>m_name := ''web''\<rparr>),
        s_spec := Some (zero_ServiceSpec\<lparr>ss_selector := fmap_of_list [(''app'', ''web'')]\<rparr>)\<rparr>)) 0,
      OpPut (Object_Node (zero_Node\<lparr>n_meta := Some (zero_Meta\<lparr>m_name := ''n1''\<rparr>),
        n_status := Some (zero_NodeStatus\<lparr>nst_nodeIndex := 1\<rparr>)\<rparr>)) 0,
      OpPut (Object_Instance (zero_Instance\<lparr>
        i_meta := Some (zero_Meta\<lparr>m_name := ''web-1'', m_labels := fmap_of_list [(''app'', ''web'')]\<rparr>),
        i_spec := Some (zero_InstanceSpec\<lparr>is_node := ''n1''\<rparr>)\<rparr>)) 0]"

lemma sample_ing_pass:
  "fst (ing_reconcile (memory_store 7) 20000 (run_ops (memory_store 7) sample_ing_ops mem_New)) = [] \<and>
   map_option (\<lambda>(x, v). ias_port (ia_Spec (GetIngressAllocation x)))
     (mem_view (snd (ing_reconcile (memory_store 7) 20000 (run_ops (memory_store 7) sample_ing_ops mem_New)))
       (KindIngressAllocation, ''web.web-1'')) = Some 20000"
  by code_simp

lemma ingress_pass_repairs_witness:
  "\<exists>m' x v w. ing_reconcile (memory_store 7) 20000 (run_ops (memory_store 7) sample_ing_ops mem_New) = ([], m') \<and>
     mem_view m' (KindIngressAllocation, ''web.web-1'') = Some (x, v) \<and>
     w \<in> ing_wanted 20000 (run_ops (memory_store 7) sample_ing_ops mem_New) \<and> ing_wname w = ''web.web-1'' \<and>
     ias_node w = ias_node (ia_Spec (GetIngressAllocation x))"
proof -
  let ?m = "run_ops (memory_store 7) sample_ing_ops mem_New"
  obtain errs m' where run: "ing_reconcile (memory_store 7) 20000 ?m = (errs, m')" by fastforce
  from sample_ing_pass run obtain x v where
    x: "errs = []" "mem_view m' (KindIngressAllocation, ''web.web-1'') = Some (x, v)" by auto
  from ingress_pass_repairs [OF refl run] x(2) obtain w where
    "w \<in> ing_wanted 20000 ?m" "''web.web-1'' = ing_wname w" "ing_good 20000 (node_index ?m) w x" by blast
  with run x show ?thesis by (auto simp: ing_good_def Let_def)
qed



text \<open>
  Outside those bounds the 32-bit arithmetic lets a slice through that is none: with the largest
  base the upper bound wraps to a negative number and the check still passes, and an index past
  2 ^ 27 is given the slice of another node.
\<close>

theorem nodeRange_wraps:
  "nodeRange 2147483647 1 = Some (2147483647, -2147483617) \<and>
   nodeRange 20000 134217729 = nodeRange 20000 1 \<and> nodeRange 20000 1 = Some (20000, 20032)"
  by code_simp

end
