(* ===== verification/Klite_Endpoints.thy ===== *)
theory Klite_Endpoints
  imports Klite_Vip Klite_Ingress Klite_Policy
begin

text \<open>
  The endpoint engine of \<open>src/internal/controller/endpoints.go\<close>: it reads the whole store, builds
  every node's desired state (its instances and the \<open>NetDesired\<close> its infra pod and Envoy consume)
  and keeps the snapshots in a state of its own, with one revision per change. The callbacks
  \<open>onChange\<close> and \<open>onRemove\<close> are an output list; a subscriber's channel of capacity one is the flag
  that says a kick is waiting in it. Maps that the code ranges over in random order and then sorts
  are walked in sorted order.
\<close>

record NodeSnapshot =
  snap_Revision :: int
  snap_Instances :: "Instance list"
  snap_Net :: NetDesired

record inputs =
  in_services :: "Service list"
  in_instances :: "Instance list"
  in_nodes :: "string list"
  in_policies :: "NetworkPolicy list"
  in_vips :: "(string, string) fmap"
  in_ingress :: "(string, IngressAllocationSpec) fmap"
  in_advertise :: "(string, string) fmap"

definition svc_name :: "Service \<Rightarrow> string" where "svc_name s = m_name (s_Meta s)"
definition instance_name :: "Instance \<Rightarrow> string" where "instance_name i = m_name (i_Meta i)"

subsection \<open>Building the snapshots\<close>

definition endpointHealth :: "InstancePhase \<Rightarrow> EndpointHealth option" where
  "endpointHealth phase = (case phase of
     INSTANCE_PHASE_READY \<Rightarrow> Some ENDPOINT_HEALTH_READY
   | INSTANCE_PHASE_DRAINING \<Rightarrow> Some ENDPOINT_HEALTH_DRAINING
   | _ \<Rightarrow> None)"

definition ingress_port :: "inputs \<Rightarrow> string \<Rightarrow> int" where
  "ingress_port inp name = (case fmlookup (in_ingress inp) name of None \<Rightarrow> 0 | Some a \<Rightarrow> ias_port a)"

fun group_endpoints :: "inputs \<Rightarrow> Service \<Rightarrow> Instance list \<Rightarrow> Endpoint list" where
  "group_endpoints inp svc [] = []"
| "group_endpoints inp svc (inst # insts) =
     (if \<not> selects svc inst then group_endpoints inp svc insts
      else
        (case endpointHealth (ist_phase (i_Status inst)) of
           None \<Rightarrow> group_endpoints inp svc insts
         | Some health \<Rightarrow>
           if ist_instanceIp (i_Status inst) = [] then group_endpoints inp svc insts
           else
             \<lparr>ep_ip = ist_instanceIp (i_Status inst), ep_port = ss_targetPort (s_Spec svc),
              ep_node = is_node (i_Spec inst), ep_health = health,
              ep_ingressPort = ingress_port inp (IngressAllocationName (svc_name svc) (instance_name inst)),
              ep_machineAddress = map_str (in_advertise inp) (is_node (i_Spec inst))\<rparr>
             # group_endpoints inp svc insts))"

fun buildGroups :: "inputs \<Rightarrow> Service list \<Rightarrow> (string, EndpointGroup) fmap \<Rightarrow> (string, EndpointGroup) fmap" where
  "buildGroups inp [] out = out"
| "buildGroups inp (svc # svcs) out =
     buildGroups inp svcs
       (fmupd (svc_name svc)
          \<lparr>eg_service = svc_name svc, eg_endpoints = group_endpoints inp svc (in_instances inp)\<rparr> out)"

fun buildIPIdentity :: "inputs \<Rightarrow> Instance list \<Rightarrow> (string, string) fmap \<Rightarrow> (string, string) fmap" where
  "buildIPIdentity inp [] out = out"
| "buildIPIdentity inp (inst # insts) out =
     (let ip = ist_instanceIp (i_Status inst) in
      if ip = [] then buildIPIdentity inp insts out
      else
        (case List.find (\<lambda>svc. selects svc inst) (in_services inp) of
           None \<Rightarrow> buildIPIdentity inp insts out
         | Some svc \<Rightarrow> buildIPIdentity inp insts (fmupd ip (svc_name svc) out)))"

definition fallbackProbePort :: "inputs \<Rightarrow> Instance \<Rightarrow> int" where
  "fallbackProbePort inp inst = (case List.find (\<lambda>svc. selects svc inst) (in_services inp) of
     None \<Rightarrow> 0 | Some svc \<Rightarrow> ss_targetPort (s_Spec svc))"

definition probe_tcp_port :: "Instance \<Rightarrow> int" where
  "probe_tcp_port inst = (case c_readinessProbe (is_Container (i_Spec inst)) of None \<Rightarrow> 0 | Some p \<Rightarrow> tcpPort p)"

fun buildProbeTargets :: "inputs \<Rightarrow> string \<Rightarrow> Instance list \<Rightarrow> ProbeTarget list" where
  "buildProbeTargets inp node [] = []"
| "buildProbeTargets inp node (inst # insts) =
     (if is_node (i_Spec inst) \<noteq> node \<or> ist_instanceIp (i_Status inst) = [] then buildProbeTargets inp node insts
      else
        (let port0 = probe_tcp_port inst;
             port = (if port0 = 0 then fallbackProbePort inp inst else port0) in
         if port = 0 then buildProbeTargets inp node insts
         else \<lparr>pt_instance = instance_name inst, pt_ip = ist_instanceIp (i_Status inst), pt_port = port\<rparr>
              # buildProbeTargets inp node insts))"

definition instances_by_name :: "inputs \<Rightarrow> string \<Rightarrow> Instance" where
  "instances_by_name inp n = (case List.find (\<lambda>i. instance_name i = n) (rev (in_instances inp)) of
     None \<Rightarrow> zero_Instance | Some i \<Rightarrow> i)"

definition target_port :: "inputs \<Rightarrow> string \<Rightarrow> int option" where
  "target_port inp n = map_option (\<lambda>s. ss_targetPort (s_Spec s))
     (List.find (\<lambda>s. svc_name s = n) (rev (in_services inp)))"

fun ingress_listeners :: "inputs \<Rightarrow> string \<Rightarrow> string list \<Rightarrow> IngressListener list" where
  "ingress_listeners inp node [] = []"
| "ingress_listeners inp node (name # names) =
     (let alloc = the (fmlookup (in_ingress inp) name) in
      if ias_node alloc \<noteq> node then ingress_listeners inp node names
      else
        (let ip = ist_instanceIp (i_Status (instances_by_name inp (ias_instance alloc))) in
         case target_port inp (ias_service alloc) of
           None \<Rightarrow> ingress_listeners inp node names
         | Some targetPort \<Rightarrow>
           if ip = [] then ingress_listeners inp node names
           else \<lparr>il_service = ias_service alloc, il_port = ias_port alloc, il_podIp = ip, il_targetPort = targetPort\<rparr>
                # ingress_listeners inp node names))"

definition buildIngressListeners :: "inputs \<Rightarrow> string \<Rightarrow> IngressListener list" where
  "buildIngressListeners inp node = ingress_listeners inp node (sorted_keys (in_ingress inp))"

definition nodeInstances :: "inputs \<Rightarrow> string \<Rightarrow> Instance list" where
  "nodeInstances inp node = filter (\<lambda>inst. is_node (i_Spec inst) = node) (in_instances inp)"

fun node_services ::
    "inputs \<Rightarrow> (string, EndpointGroup) fmap \<Rightarrow> string \<Rightarrow> Service list \<Rightarrow> ServiceVIP list \<times> EndpointGroup list" where
  "node_services inp groups node [] = ([], [])"
| "node_services inp groups node (svc # svcs) =
     (let name = svc_name svc; (svs, gs) = node_services inp groups node svcs in
      case fmlookup (in_vips inp) (AllocationName name node) of
        None \<Rightarrow> (svs, gs)
      | Some vip \<Rightarrow>
        (\<lparr>sv_service = name, sv_vip = vip, sv_port = ss_port (s_Spec svc), sv_targetPort = ss_targetPort (s_Spec svc)\<rparr> # svs,
         (case fmlookup groups name of
            None \<Rightarrow> gs
          | Some g \<Rightarrow> if eg_endpoints g = [] then gs else g # gs)))"

definition node_snapshot ::
    "inputs \<Rightarrow> CompiledPolicy list \<Rightarrow> (string, EndpointGroup) fmap \<Rightarrow> (string, string) fmap \<Rightarrow> string \<Rightarrow> NodeSnapshot" where
  "node_snapshot inp compiled groups identity node =
     (let (svs, gs) = node_services inp groups node (in_services inp) in
      \<lparr>snap_Revision = 0, snap_Instances = nodeInstances inp node,
       snap_Net = \<lparr>nd_services = svs, nd_endpoints = gs, nd_ipIdentity = identity, nd_policies = compiled,
         nd_probeTargets = buildProbeTargets inp node (in_instances inp),
         nd_ingressListeners = buildIngressListeners inp node\<rparr>\<rparr>)"

fun build_nodes ::
    "inputs \<Rightarrow> CompiledPolicy list \<Rightarrow> (string, EndpointGroup) fmap \<Rightarrow> (string, string) fmap \<Rightarrow> string list \<Rightarrow>
     (string, NodeSnapshot) fmap \<Rightarrow> (string, NodeSnapshot) fmap" where
  "build_nodes inp compiled groups identity [] out = out"
| "build_nodes inp compiled groups identity (node # nodes) out =
     build_nodes inp compiled groups identity nodes
       (fmupd node (node_snapshot inp compiled groups identity node) out)"

definition buildAll :: "inputs \<Rightarrow> (string, NodeSnapshot) fmap" where
  "buildAll inp =
     (let compiled = Compile (in_policies inp);
          groups = buildGroups inp (in_services inp) fmempty;
          identity = buildIPIdentity inp (in_instances inp) fmempty
      in build_nodes inp compiled groups identity (in_nodes inp) fmempty)"

subsection \<open>Reading the store\<close>

fun node_names :: "Object list \<Rightarrow> (string, string) fmap \<Rightarrow> (string, bool) fmap \<Rightarrow> (string, string) fmap \<times> (string, bool) fmap" where
  "node_names [] adv nodeSet = (adv, nodeSet)"
| "node_names (o' # os) adv nodeSet =
     (let node = GetNode o'; name = m_name (n_Meta node); addr = nst_advertiseAddress (n_Status node) in
      node_names os (if addr \<noteq> [] then fmupd name addr adv else adv) (fmupd name True nodeSet))"

fun bound_nodes :: "Instance list \<Rightarrow> (string, bool) fmap \<Rightarrow> (string, bool) fmap" where
  "bound_nodes [] nodeSet = nodeSet"
| "bound_nodes (inst # insts) nodeSet =
     (let n = is_node (i_Spec inst) in bound_nodes insts (if n \<noteq> [] then fmupd n True nodeSet else nodeSet))"

fun vip_map :: "Object list \<Rightarrow> (string, string) fmap \<Rightarrow> (string, string) fmap" where
  "vip_map [] vips = vips"
| "vip_map (o' # os) vips =
     (let alloc = GetVipAllocation o' in vip_map os (fmupd (m_name (va_Meta alloc)) (vs_vip (va_Spec alloc)) vips))"

fun ingress_map ::
    "Object list \<Rightarrow> (string, IngressAllocationSpec) fmap \<Rightarrow> (string, IngressAllocationSpec) fmap" where
  "ingress_map [] ing = ing"
| "ingress_map (o' # os) ing =
     (let alloc = GetIngressAllocation o' in ingress_map os (fmupd (m_name (ia_Meta alloc)) (ia_Spec alloc) ing))"

definition listAllocations :: "'s Store \<Rightarrow> inputs \<Rightarrow> 's \<Rightarrow> (StoreErr + inputs) \<times> 's" where
  "listAllocations S inp s = (case st_List S KindVIPAllocation s of
     (Inl err, s1) \<Rightarrow> (Inl err, s1)
   | (Inr (allocObjs, _), s1) \<Rightarrow>
     (case st_List S KindIngressAllocation s1 of
        (Inl err, s2) \<Rightarrow> (Inl err, s2)
      | (Inr (ingObjs, _), s2) \<Rightarrow>
        (Inr (inp\<lparr>in_vips := vip_map allocObjs (in_vips inp),
                  in_ingress := ingress_map ingObjs (in_ingress inp)\<rparr>), s2)))"

definition listInputs :: "'s Store \<Rightarrow> 's \<Rightarrow> (StoreErr + inputs) \<times> 's" where
  "listInputs S s = (case st_List S KindService s of
     (Inl err, s1) \<Rightarrow> (Inl err, s1)
   | (Inr (svcObjs, _), s1) \<Rightarrow>
     (case st_List S KindInstance s1 of
        (Inl err, s2) \<Rightarrow> (Inl err, s2)
      | (Inr (instObjs, _), s2) \<Rightarrow>
        (case st_List S KindNode s2 of
           (Inl err, s3) \<Rightarrow> (Inl err, s3)
         | (Inr (nodeObjs, _), s3) \<Rightarrow>
           (case st_List S KindNetworkPolicy s3 of
              (Inl err, s4) \<Rightarrow> (Inl err, s4)
            | (Inr (polObjs, _), s4) \<Rightarrow>
              (let services = sort_key svc_name (map GetService svcObjs);
                   instances = sort_key instance_name (map GetInstance instObjs);
                   (adv, nodeSet0) = node_names nodeObjs fmempty fmempty;
                   nodeSet = bound_nodes instances nodeSet0
               in listAllocations S
                    \<lparr>in_services = services, in_instances = instances, in_nodes = sorted_keys nodeSet,
                     in_policies = map GetNetworkPolicy polObjs, in_vips = fmempty, in_ingress = fmempty,
                     in_advertise = adv\<rparr> s4)))))"

subsection \<open>The engine\<close>

record Endpoints =
  eps_ready :: bool
  eps_version :: int
  eps_nodes :: "(string, NodeSnapshot) fmap"
  eps_subs :: "(int, bool) fmap"
  eps_nextSub :: int

definition NewEndpoints :: Endpoints where
  "NewEndpoints = \<lparr>eps_ready = False, eps_version = 0, eps_nodes = fmempty, eps_subs = fmempty, eps_nextSub = 0\<rparr>"

definition empty_snapshot :: NodeSnapshot where
  "empty_snapshot = \<lparr>snap_Revision = 0, snap_Instances = [], snap_Net = empty_NetDesired\<rparr>"

definition snapshotEqual :: "NodeSnapshot \<Rightarrow> NodeSnapshot \<Rightarrow> bool" where
  "snapshotEqual a b \<longleftrightarrow> snap_Instances a = snap_Instances b \<and> snap_Net a = snap_Net b"

text \<open>\<open>Snapshot\<close>: the second result \<open>false\<close> is \<open>None\<close>.\<close>

definition Snapshot :: "string \<Rightarrow> Endpoints \<Rightarrow> NodeSnapshot option" where
  "Snapshot node e = (if \<not> eps_ready e then None
     else case fmlookup (eps_nodes e) node of Some snap \<Rightarrow> Some snap | None \<Rightarrow> Some empty_snapshot)"

definition Subscribe :: "Endpoints \<Rightarrow> int \<times> Endpoints" where
  "Subscribe e = (eps_nextSub e,
     e\<lparr>eps_nextSub := wrap64 (eps_nextSub e + 1), eps_subs := fmupd (eps_nextSub e) False (eps_subs e)\<rparr>)"

definition cancelSub :: "int \<Rightarrow> Endpoints \<Rightarrow> Endpoints" where
  "cancelSub sid e = e\<lparr>eps_subs := fmdrop sid (eps_subs e)\<rparr>"

text \<open>The first loop of \<open>store\<close>: departed nodes decay, and decayed ones are dropped.\<close>

fun decay ::
    "string list \<Rightarrow> (string, NodeSnapshot) fmap \<Rightarrow> (string, NodeSnapshot) fmap \<Rightarrow> string list \<Rightarrow>
     (string, NodeSnapshot) fmap \<times> (string, NodeSnapshot) fmap \<times> string list" where
  "decay [] nodes built removed = (nodes, built, removed)"
| "decay (node # ns) nodes built removed =
     (case fmlookup built node of
        Some _ \<Rightarrow> decay ns nodes built removed
      | None \<Rightarrow>
        if snapshotEqual (the (fmlookup nodes node)) empty_snapshot
        then decay ns (fmdrop node nodes) built (removed @ [node])
        else decay ns nodes (fmupd node empty_snapshot built) removed)"

text \<open>The second loop: unchanged content keeps its revision, the rest is collected.\<close>

fun settle ::
    "string list \<Rightarrow> (string, NodeSnapshot) fmap \<Rightarrow> (string, NodeSnapshot) fmap \<Rightarrow> string list \<Rightarrow>
     (string, NodeSnapshot) fmap \<times> string list" where
  "settle [] built nodes changed = (nodes, changed)"
| "settle (node # ns) built nodes changed =
     (let next' = the (fmlookup built node) in
      case fmlookup nodes node of
        Some prev \<Rightarrow>
          if snapshotEqual prev next'
          then settle ns built (fmupd node (next'\<lparr>snap_Revision := snap_Revision prev\<rparr>) nodes) changed
          else settle ns built nodes (changed @ [node])
      | None \<Rightarrow> settle ns built nodes (changed @ [node]))"

fun publish ::
    "string list \<Rightarrow> int \<Rightarrow> (string, NodeSnapshot) fmap \<Rightarrow> (string, NodeSnapshot) fmap \<Rightarrow> (string, NodeSnapshot) fmap" where
  "publish [] version built nodes = nodes"
| "publish (node # ns) version built nodes =
     publish ns version built (fmupd node ((the (fmlookup built node))\<lparr>snap_Revision := version\<rparr>) nodes)"

definition kick_all :: "(int, bool) fmap \<Rightarrow> (int, bool) fmap" where
  "kick_all subs = fmmap (\<lambda>_. True) subs"

definition eps_store :: "(string, NodeSnapshot) fmap \<Rightarrow> Endpoints \<Rightarrow> string list \<times> string list \<times> Endpoints" where
  "eps_store built0 e =
     (let (nodes1, built, removed) = decay (sorted_keys (eps_nodes e)) (eps_nodes e) built0 [];
          (nodes2, changed) = settle (sorted_keys built) built nodes1 [];
          version = (if changed \<noteq> [] then wrap64 (eps_version e + 1) else eps_version e);
          nodes3 = (if changed \<noteq> [] then publish changed version built nodes2 else nodes2);
          subs = (if changed \<noteq> [] \<or> \<not> eps_ready e then kick_all (eps_subs e) else eps_subs e)
      in (sort changed, sort removed,
          e\<lparr>eps_nodes := nodes3, eps_version := version, eps_subs := subs, eps_ready := True\<rparr>))"

datatype Callback = OnRemove string | OnChange string int NetDesired

definition recompute :: "'s Store \<Rightarrow> Endpoints \<Rightarrow> 's \<Rightarrow> StoreErr option \<times> Callback list \<times> Endpoints \<times> 's" where
  "recompute S e s = (case listInputs S s of
     (Inl err, s') \<Rightarrow> (Some err, [], e, s')
   | (Inr inp, s') \<Rightarrow>
     (let (changed, removed, e') = eps_store (buildAll inp) e in
      (None, map OnRemove removed @
         map (\<lambda>node. case Snapshot node e' of
            Some snap \<Rightarrow> OnChange node (snap_Revision snap) (snap_Net snap)
          | None \<Rightarrow> OnChange node 0 empty_NetDesired) changed, e', s')))"

subsection \<open>What a swap of snapshots does\<close>

text \<open>
  The reference definition, node by node: content that did not move keeps its snapshot, content
  that moved gets the new version, a departed node decays to the empty snapshot and a decayed one
  goes away.
\<close>

definition snap_next :: "int \<Rightarrow> NodeSnapshot option \<Rightarrow> NodeSnapshot option \<Rightarrow> NodeSnapshot option" where
  "snap_next version built prev = (case built of
     Some s \<Rightarrow> (case prev of
        Some p \<Rightarrow> if snapshotEqual p s then Some p else Some (s\<lparr>snap_Revision := version\<rparr>)
      | None \<Rightarrow> Some (s\<lparr>snap_Revision := version\<rparr>))
   | None \<Rightarrow> (case prev of
        Some p \<Rightarrow> if snapshotEqual p empty_snapshot then None else Some (empty_snapshot\<lparr>snap_Revision := version\<rparr>)
      | None \<Rightarrow> None))"

lemma snapshotEqual_same: "snapshotEqual p s \<Longrightarrow> s\<lparr>snap_Revision := snap_Revision p\<rparr> = p"
  by (simp add: snapshotEqual_def)

lemma snapshotEqual_refl [simp]: "snapshotEqual s s" "snapshotEqual (s\<lparr>snap_Revision := v\<rparr>) s"
  by (simp_all add: snapshotEqual_def)

lemma snapshotEqual_update [simp]: "snapshotEqual p (s\<lparr>snap_Revision := v\<rparr>) = snapshotEqual p s"
  by (simp add: snapshotEqual_def)

definition departed :: "(string, NodeSnapshot) fmap \<Rightarrow> (string, NodeSnapshot) fmap \<Rightarrow> string \<Rightarrow> bool \<Rightarrow> bool" where
  "departed nodes built n decayed \<longleftrightarrow> fmlookup built n = None \<and>
     (\<exists>p. fmlookup nodes n = Some p \<and> snapshotEqual p empty_snapshot = decayed)"

lemma decay_result:
  assumes "distinct ns" and "\<forall>n \<in> set ns. fmlookup nodes n \<noteq> None"
    and "decay ns nodes built removed = (nodes', built', removed')"
  shows "fmlookup nodes' n = (if n \<in> set ns \<and> departed nodes built n True then None else fmlookup nodes n) \<and>
    fmlookup built' n = (if n \<in> set ns \<and> departed nodes built n False then Some empty_snapshot else fmlookup built n) \<and>
    removed' = removed @ filter (\<lambda>n. departed nodes built n True) ns"
  using assms
proof (induction ns arbitrary: nodes built removed)
  case (Cons node ns)
  have other: "fmlookup nodes0 m = fmlookup nodes m \<Longrightarrow> fmlookup built0 m = fmlookup built m \<Longrightarrow>
      departed nodes0 built0 m d = departed nodes built m d" for nodes0 built0 m d
    by (simp add: departed_def)
  show ?case
  proof (cases "fmlookup built node")
    case (Some s)
    then have nd: "\<not> departed nodes built node d" for d by (simp add: departed_def)
    have "decay ns nodes built removed = (nodes', built', removed')" using Cons.prems(3) Some by simp
    from Cons.IH [OF _ _ this] Cons.prems(1,2) nd show ?thesis by auto
  next
    case None
    obtain p where p: "fmlookup nodes node = Some p" using Cons.prems(2) by auto
    show ?thesis
    proof (cases "snapshotEqual p empty_snapshot")
      case True
      then have dp: "departed nodes built node True" "\<not> departed nodes built node False"
        using None p by (simp_all add: departed_def)
      have run: "decay ns (fmdrop node nodes) built (removed @ [node]) = (nodes', built', removed')"
        using Cons.prems(3) None p True by simp
      have "\<forall>n \<in> set ns. fmlookup (fmdrop node nodes) n \<noteq> None" using Cons.prems(1,2) by auto
      note IH = Cons.IH [OF _ this run]
      have same: "departed (fmdrop node nodes) built m d = departed nodes built m d" if "m \<in> set ns" for m d
        using that Cons.prems(1) by (intro other) auto
      have fl: "filter (\<lambda>n. departed (fmdrop node nodes) built n True) ns = filter (\<lambda>n. departed nodes built n True) ns"
        using same by (intro filter_cong) auto
      show ?thesis
        using IH Cons.prems(1) dp same [of n] fl by (cases "n = node") auto
    next
      case False
      then have dp: "departed nodes built node False" "\<not> departed nodes built node True"
        using None p by (simp_all add: departed_def)
      have run: "decay ns nodes (fmupd node empty_snapshot built) removed = (nodes', built', removed')"
        using Cons.prems(3) None p False by simp
      note IH = Cons.IH [OF _ _ run]
      have same: "departed nodes (fmupd node empty_snapshot built) m d = departed nodes built m d" if "m \<in> set ns" for m d
        using that Cons.prems(1) by (intro other) auto
      have fl: "filter (\<lambda>n. departed nodes (fmupd node empty_snapshot built) n True) ns = filter (\<lambda>n. departed nodes built n True) ns"
        using same by (intro filter_cong) auto
      show ?thesis
        using IH Cons.prems(1,2) dp same [of n] fl by (cases "n = node") auto
    qed
  qed
qed simp

definition moved :: "(string, NodeSnapshot) fmap \<Rightarrow> (string, NodeSnapshot) fmap \<Rightarrow> string \<Rightarrow> bool" where
  "moved built nodes n \<longleftrightarrow> (case fmlookup nodes n of None \<Rightarrow> True
     | Some p \<Rightarrow> \<not> snapshotEqual p (the (fmlookup built n)))"

lemma settle_result:
  "settle ns built nodes changed = (nodes', changed') \<Longrightarrow> distinct ns \<Longrightarrow>
   nodes' = nodes \<and> changed' = changed @ filter (moved built nodes) ns"
proof (induction ns arbitrary: nodes changed)
  case (Cons node ns)
  have keep: "fmupd node p nodes = nodes" if "fmlookup nodes node = Some p" for p
    using that by (intro fmap_ext) auto
  show ?case
  proof (cases "fmlookup nodes node")
    case None
    with Cons.prems Cons.IH [of nodes "changed @ [node]"] show ?thesis by (simp add: moved_def Let_def)
  next
    case (Some p)
    show ?thesis
    proof (cases "snapshotEqual p (the (fmlookup built node))")
      case True
      with Some Cons.prems Cons.IH [of nodes changed] show ?thesis
        by (simp add: moved_def Let_def snapshotEqual_same keep)
    next
      case False
      with Some Cons.prems Cons.IH [of nodes "changed @ [node]"] show ?thesis by (simp add: moved_def Let_def)
    qed
  qed
qed simp

lemma publish_lookup:
  "fmlookup (publish ns version built nodes) n =
     (if n \<in> set ns then Some ((the (fmlookup built n))\<lparr>snap_Revision := version\<rparr>) else fmlookup nodes n)"
  by (induction ns arbitrary: nodes) auto

lemma eps_store_result:
  assumes "eps_store built e = (changed, removed, e')"
  shows "fmlookup (eps_nodes e') n = snap_next (eps_version e') (fmlookup built n) (fmlookup (eps_nodes e) n)"
    and "set changed = {n. \<exists>s. snap_next (eps_version e') (fmlookup built n) (fmlookup (eps_nodes e) n) = Some s \<and>
      (\<forall>p. fmlookup (eps_nodes e) n = Some p \<longrightarrow> \<not> snapshotEqual p s)}"
    and "set removed = {n. fmlookup (eps_nodes e) n \<noteq> None \<and> fmlookup (eps_nodes e') n = None}"
    and "eps_version e' = (if changed = [] then eps_version e else wrap64 (eps_version e + 1))"
    and "eps_subs e' = (if changed = [] \<and> eps_ready e then eps_subs e else kick_all (eps_subs e))"
    and "eps_ready e'"
proof -
  obtain nodes1 built1 removed1 where d: "decay (sorted_keys (eps_nodes e)) (eps_nodes e) built [] = (nodes1, built1, removed1)"
    by (metis prod_cases3)
  obtain nodes2 changed2 where st: "settle (sorted_keys built1) built1 nodes1 [] = (nodes2, changed2)"
    by fastforce
  have "\<forall>n \<in> set (sorted_keys (eps_nodes e)). fmlookup (eps_nodes e) n \<noteq> None" by (simp add: fmlookup_dom'_iff)
  note dr = decay_result [OF distinct_sorted_keys this d]
  from settle_result [OF st distinct_sorted_keys]
  have sr: "nodes2 = nodes1" "changed2 = filter (moved built1 nodes1) (sorted_keys built1)" by auto
  from assms d st have ch: "changed = sort changed2" and rm: "removed = sort removed1"
    and nodes': "eps_nodes e' = (if changed2 = [] then nodes2 else publish changed2 (eps_version e') built1 nodes2)"
    and ver: "eps_version e' = (if changed2 = [] then eps_version e else wrap64 (eps_version e + 1))"
    and subs: "eps_subs e' = (if changed2 = [] \<and> eps_ready e then eps_subs e else kick_all (eps_subs e))"
    and rdy: "eps_ready e'"
    by (auto simp: eps_store_def Let_def)
  have sorted_nil: "changed = [] \<longleftrightarrow> changed2 = []" using ch by (metis set_empty set_sort)
  have mem: "n \<in> set (sorted_keys (eps_nodes e)) \<longleftrightarrow> fmlookup (eps_nodes e) n \<noteq> None" for n
    by (simp add: fmlookup_dom'_iff)
  have in2: "n \<in> set changed2 \<longleftrightarrow> fmlookup built1 n \<noteq> None \<and> moved built1 nodes1 n" for n
    using sr(2) by (auto simp: fmlookup_dom'_iff)
  have lk: "fmlookup (eps_nodes e') n =
      (if n \<in> set changed2 then Some ((the (fmlookup built1 n))\<lparr>snap_Revision := eps_version e'\<rparr>) else fmlookup nodes1 n)" for n
    unfolding nodes' using sr(1) by (simp add: publish_lookup)
  show spec: "fmlookup (eps_nodes e') n = snap_next (eps_version e') (fmlookup built n) (fmlookup (eps_nodes e) n)" for n
    unfolding lk in2 using dr [of n]
    by (auto simp: mem departed_def moved_def snap_next_def split: option.splits)
  show "set changed = {n. \<exists>s. snap_next (eps_version e') (fmlookup built n) (fmlookup (eps_nodes e) n) = Some s \<and>
      (\<forall>p. fmlookup (eps_nodes e) n = Some p \<longrightarrow> \<not> snapshotEqual p s)}"
  proof (rule set_eqI)
    fix n
    show "n \<in> set changed \<longleftrightarrow> n \<in> {n. \<exists>s. snap_next (eps_version e') (fmlookup built n) (fmlookup (eps_nodes e) n) = Some s \<and>
        (\<forall>p. fmlookup (eps_nodes e) n = Some p \<longrightarrow> \<not> snapshotEqual p s)}"
      unfolding ch set_sort in2 mem_Collect_eq using dr [of n]
      by (cases "fmlookup built n"; cases "fmlookup (eps_nodes e) n")
        (simp_all add: fmlookup_dom'_iff departed_def moved_def snap_next_def split: if_splits)
  qed
  show "set removed = {n. fmlookup (eps_nodes e) n \<noteq> None \<and> fmlookup (eps_nodes e') n = None}"
  proof (rule set_eqI)
    fix n
    show "n \<in> set removed \<longleftrightarrow> n \<in> {n. fmlookup (eps_nodes e) n \<noteq> None \<and> fmlookup (eps_nodes e') n = None}"
      unfolding rm set_sort mem_Collect_eq spec using dr [of n]
      by (cases "fmlookup built n"; cases "fmlookup (eps_nodes e) n")
        (simp_all add: fmlookup_dom'_iff departed_def snap_next_def)
  qed
  show "eps_version e' = (if changed = [] then eps_version e else wrap64 (eps_version e + 1))"
    unfolding sorted_nil by (rule ver)
  show "eps_subs e' = (if changed = [] \<and> eps_ready e then eps_subs e else kick_all (eps_subs e))"
    unfolding sorted_nil by (rule subs)
  show "eps_ready e'" by (rule rdy)
qed

subsection \<open>Sequences of passes\<close>

fun eps_run :: "(string, NodeSnapshot) fmap list \<Rightarrow> Endpoints \<Rightarrow> Endpoints" where
  "eps_run [] e = e"
| "eps_run (b # bs) e = eps_run bs (snd (snd (eps_store b e)))"

definition eps_ok :: "Endpoints \<Rightarrow> bool" where
  "eps_ok e \<longleftrightarrow> 0 \<le> eps_version e \<and>
     (\<forall>n s. fmlookup (eps_nodes e) n = Some s \<longrightarrow> 1 \<le> snap_Revision s \<and> snap_Revision s \<le> eps_version e)"

text \<open>One pass: what is there afterwards was there before or carries a younger revision.\<close>

definition eps_aged :: "Endpoints \<Rightarrow> Endpoints \<Rightarrow> bool" where
  "eps_aged e e' \<longleftrightarrow> eps_version e \<le> eps_version e' \<and>
     (\<forall>n s. fmlookup (eps_nodes e') n = Some s \<longrightarrow>
        fmlookup (eps_nodes e) n = Some s \<or> eps_version e < snap_Revision s)"

lemma eps_aged_trans: "eps_aged a b \<Longrightarrow> eps_aged b c \<Longrightarrow> eps_aged a c"
  unfolding eps_aged_def by (meson order_le_less_trans order_trans)

lemma eps_store_aged:
  assumes ok: "eps_ok e" and bound: "eps_version e < 2 ^ 63 - 1" and run: "eps_store b e = (changed, removed, e')"
  shows "eps_ok e' \<and> eps_aged e e' \<and> eps_version e' \<le> eps_version e + 1"
proof -
  note r = eps_store_result [OF run]
  have w: "wrap64 (eps_version e + 1) = eps_version e + 1"
    using ok bound by (intro wrap64_id) (simp add: is_int64_def eps_ok_def)
  have fresh: "fmlookup (eps_nodes e) n = Some s \<or>
      snap_Revision s = eps_version e' \<and> eps_version e < eps_version e'"
    if "fmlookup (eps_nodes e') n = Some s" for n s
  proof (cases "fmlookup (eps_nodes e) n = Some s")
    case False
    from that r(1) [of n] have s: "snap_next (eps_version e') (fmlookup b n) (fmlookup (eps_nodes e) n) = Some s" by simp
    have rev: "snap_Revision s = eps_version e'"
      using s False by (auto simp: snap_next_def split: option.splits if_splits)
    have "\<forall>p. fmlookup (eps_nodes e) n = Some p \<longrightarrow> \<not> snapshotEqual p s"
      using s False by (auto simp: snap_next_def split: option.splits if_splits)
    with s r(2) have "changed \<noteq> []" by auto
    with r(4) w have "eps_version e < eps_version e'" by simp
    with rev show ?thesis by simp
  qed simp
  have ver: "eps_version e \<le> eps_version e'" "eps_version e' \<le> eps_version e + 1" using r(4) w by simp_all
  have "1 \<le> snap_Revision s \<and> snap_Revision s \<le> eps_version e'" if s: "fmlookup (eps_nodes e') n = Some s" for n s
    using fresh [OF s] ok ver unfolding eps_ok_def by force
  then have "eps_ok e'" using ok ver by (simp add: eps_ok_def)
  moreover have "eps_aged e e'" unfolding eps_aged_def using fresh ver by force
  ultimately show ?thesis using ver by simp
qed

lemma eps_run_aged:
  "eps_ok e \<Longrightarrow> eps_version e + int (length bs) < 2 ^ 63 - 1 \<Longrightarrow>
   eps_ok (eps_run bs e) \<and> eps_aged e (eps_run bs e) \<and> eps_version (eps_run bs e) \<le> eps_version e + int (length bs)"
proof (induction bs arbitrary: e)
  case Nil
  then show ?case by (simp add: eps_aged_def)
next
  case (Cons b bs)
  obtain changed removed e' where run: "eps_store b e = (changed, removed, e')" by (metis prod_cases3)
  from Cons.prems have bound: "eps_version e < 2 ^ 63 - 1" by simp
  from eps_store_aged [OF Cons.prems(1) bound run]
  have e': "eps_ok e'" "eps_aged e e'" "eps_version e' \<le> eps_version e + 1" by auto
  moreover from e'(3) Cons.prems(2) have "eps_version e' + int (length bs) < 2 ^ 63 - 1" by simp
  note IH = Cons.IH [OF e'(1) this]
  ultimately show ?case using run eps_aged_trans [OF e'(2)] by auto
qed

lemma eps_ok_New: "eps_ok NewEndpoints"
  by (simp add: eps_ok_def NewEndpoints_def)

subsection \<open>Properties\<close>

text \<open>
  C20. A revision identifies a node's desired state. Take the engine after any sequence of passes and
  again after any further sequence (fewer than 2 ^ 63 - 1 in all, so that the version counter does
  not wrap): if the two snapshots of a node carry the same revision they are equal, content
  included. This holds for a node the engine never saw or has dropped as well, so a watcher that
  compares revisions never misses a change.
\<close>

theorem revision_identifies_snapshot:
  assumes "int (length bs + length bs') < 2 ^ 63 - 1"
    and "e = eps_run bs NewEndpoints" and "e' = eps_run bs' e"
    and "Snapshot node e = Some s" and "Snapshot node e' = Some s'"
    and "snap_Revision s = snap_Revision s'"
  shows "s = s'"
proof -
  have v0: "eps_version NewEndpoints = 0" by (simp add: NewEndpoints_def)
  have "eps_version NewEndpoints + int (length bs) < 2 ^ 63 - 1" using assms(1) v0 by simp
  from eps_run_aged [OF eps_ok_New this] v0
  have e: "eps_ok e" "eps_version e \<le> int (length bs)" unfolding assms(2) by auto
  have "eps_version e + int (length bs') < 2 ^ 63 - 1" using assms(1) e(2) by simp
  from eps_run_aged [OF e(1) this] have e': "eps_ok e'" "eps_aged e e'" unfolding assms(3) by auto
  have zero: "fmlookup (eps_nodes d) node = Some t \<and> 1 \<le> snap_Revision t \<and> snap_Revision t \<le> eps_version d \<or>
      fmlookup (eps_nodes d) node = None \<and> t = empty_snapshot"
    if "eps_ok d" "Snapshot node d = Some t" for d t
    using that by (auto simp: Snapshot_def eps_ok_def split: if_splits option.splits)
  have e0: "snap_Revision empty_snapshot = 0" by (simp add: empty_snapshot_def)
  from zero [OF e(1) assms(4)] show ?thesis
  proof
    assume s: "fmlookup (eps_nodes e) node = Some s \<and> 1 \<le> snap_Revision s \<and> snap_Revision s \<le> eps_version e"
    then have "s' \<noteq> empty_snapshot" using e0 assms(6) by (metis not_one_le_zero)
    with zero [OF e'(1) assms(5)] have "fmlookup (eps_nodes e') node = Some s'" by blast
    with e'(2) have "fmlookup (eps_nodes e) node = Some s' \<or> eps_version e < snap_Revision s'"
      unfolding eps_aged_def by blast
    moreover have "\<not> eps_version e < snap_Revision s'" using s assms(6) by (metis not_less)
    ultimately have "fmlookup (eps_nodes e) node = Some s'" by blast
    with s show ?thesis by (metis option.inject)
  next
    assume s: "fmlookup (eps_nodes e) node = None \<and> s = empty_snapshot"
    then have "\<not> 1 \<le> snap_Revision s'" using e0 assms(6) by (metis not_one_le_zero)
    with zero [OF e'(1) assms(5)] s show ?thesis by blast
  qed
qed

lemma revision_identifies_snapshot_witness:
  "\<exists>s s'. Snapshot ''n1'' (eps_run [fmempty] NewEndpoints) = Some s \<and>
     Snapshot ''n1'' (eps_run [fmempty] (eps_run [fmempty] NewEndpoints)) = Some s' \<and>
     snap_Revision s = snap_Revision s' \<and> s = s'"
proof -
  have a: "Snapshot ''n1'' (eps_run [fmempty] NewEndpoints) = Some empty_snapshot" by code_simp
  have b: "Snapshot ''n1'' (eps_run [fmempty] (eps_run [fmempty] NewEndpoints)) = Some empty_snapshot" by code_simp
  have "int (length [fmempty :: (string, NodeSnapshot) fmap] + length [fmempty :: (string, NodeSnapshot) fmap]) < 2 ^ 63 - 1" by simp
  from revision_identifies_snapshot [OF this refl refl a b refl] a b show ?thesis by blast
qed


subsection \<open>What the builders read\<close>

lemma build_nodes_lookup:
  "fmlookup (build_nodes inp compiled groups identity ns out) n =
     (if n \<in> set ns then Some (node_snapshot inp compiled groups identity n) else fmlookup out n)"
  by (induction ns arbitrary: out) auto

lemma node_services_fst:
  "map (\<lambda>sv. (sv_service sv, sv_vip sv)) (fst (node_services inp groups node svcs)) =
     map (\<lambda>n. (n, the (fmlookup (in_vips inp) (AllocationName n node))))
       (filter (\<lambda>n. fmlookup (in_vips inp) (AllocationName n node) \<noteq> None) (map svc_name svcs))"
  by (induction svcs) (auto simp: Let_def split: prod.splits option.splits)

lemma node_snapshot_simps [simp]:
  "nd_services (snap_Net (node_snapshot inp c g ident node)) = fst (node_services inp g node (in_services inp))"
  "nd_endpoints (snap_Net (node_snapshot inp c g ident node)) = snd (node_services inp g node (in_services inp))"
  "nd_ipIdentity (snap_Net (node_snapshot inp c g ident node)) = ident"
  "nd_policies (snap_Net (node_snapshot inp c g ident node)) = c"
  "nd_ingressListeners (snap_Net (node_snapshot inp c g ident node)) = buildIngressListeners inp node"
  "nd_probeTargets (snap_Net (node_snapshot inp c g ident node)) = buildProbeTargets inp node (in_instances inp)"
  "snap_Instances (node_snapshot inp c g ident node) = nodeInstances inp node"
  by (simp_all add: node_snapshot_def split: prod.splits)

lemma vip_map_lookup:
  "distinct (map (\<lambda>o'. m_name (va_Meta (GetVipAllocation o'))) os) \<Longrightarrow>
   fmlookup (vip_map os vips) n = (case List.find (\<lambda>o'. m_name (va_Meta (GetVipAllocation o')) = n) os of
     Some o' \<Rightarrow> Some (vs_vip (va_Spec (GetVipAllocation o'))) | None \<Rightarrow> fmlookup vips n)"
proof (induction os arbitrary: vips)
  case (Cons o' os)
  then have d: "m_name (va_Meta (GetVipAllocation o')) \<notin> (\<lambda>o'. m_name (va_Meta (GetVipAllocation o'))) ` set os"
    "distinct (map (\<lambda>o'. m_name (va_Meta (GetVipAllocation o'))) os)" by simp_all
  show ?case
  proof (cases "m_name (va_Meta (GetVipAllocation o')) = n")
    case True
    with d(1) have "List.find (\<lambda>o'. m_name (va_Meta (GetVipAllocation o')) = n) os = None"
      by (intro find_key_None) simp
    with True Cons.IH [OF d(2)] show ?thesis by (simp add: Let_def)
  next
    case False
    with Cons.IH [OF d(2)] show ?thesis by (simp add: Let_def split: option.splits)
  qed
qed simp

lemma node_names_dom: "fmdom' (snd (node_names os adv ns)) = fmdom' ns \<union> (\<lambda>o'. m_name (n_Meta (GetNode o'))) ` set os"
  by (induction os arbitrary: adv ns) (auto simp: Let_def)

lemma bound_nodes_dom: "fmdom' ns \<subseteq> fmdom' (bound_nodes insts ns)"
proof (induction insts arbitrary: ns)
  case (Cons i insts)
  from Cons [of "fmupd (is_node (i_Spec i)) True ns"] Cons [of ns] show ?case by (auto simp: Let_def)
qed simp

lemma vip_name_of: "KindOf x = KindVIPAllocation \<Longrightarrow> m_name (va_Meta (GetVipAllocation x)) = object_name x"
  by (drule Object_of_kind(6)) (metis MetaOf.simps(6) object_name_def)

text \<open>The inputs read from the in-memory store, in terms of its view.\<close>

lemma listInputs_view:
  assumes ok: "mem_ok m"
  obtains inp where "listInputs (memory_store now) m = (Inr inp, m)"
    "set (map svc_name (in_services inp)) = {n. mem_view m (KindService, n) \<noteq> None}"
    "distinct (map svc_name (in_services inp))"
    "{n. mem_view m (KindNode, n) \<noteq> None} \<subseteq> set (in_nodes inp)"
    "\<And>n. fmlookup (in_vips inp) n = map_option (\<lambda>(x, v). vs_vip (va_Spec (GetVipAllocation x))) (mem_view m (KindVIPAllocation, n))"
proof -
  have ks: "KindService \<in> set Kinds" "KindInstance \<in> set Kinds" "KindNode \<in> set Kinds" "KindNetworkPolicy \<in> set Kinds"
    "KindVIPAllocation \<in> set Kinds" "KindIngressAllocation \<in> set Kinds" by (simp_all add: Kinds_def)
  obtain sos where sl: "st_List (memory_store now) KindService m = (Inr (sos, mem_rev m), m)" using mem_lists [OF ks(1)] by blast
  obtain ios where il: "st_List (memory_store now) KindInstance m = (Inr (ios, mem_rev m), m)" using mem_lists [OF ks(2)] by blast
  obtain nos where nl: "st_List (memory_store now) KindNode m = (Inr (nos, mem_rev m), m)" using mem_lists [OF ks(3)] by blast
  obtain pos where pl: "st_List (memory_store now) KindNetworkPolicy m = (Inr (pos, mem_rev m), m)" using mem_lists [OF ks(4)] by blast
  obtain vos where vl: "st_List (memory_store now) KindVIPAllocation m = (Inr (vos, mem_rev m), m)" using mem_lists [OF ks(5)] by blast
  obtain gos where gl: "st_List (memory_store now) KindIngressAllocation m = (Inr (gos, mem_rev m), m)" using mem_lists [OF ks(6)] by blast
  define inp where "inp = \<lparr>in_services = sort_key svc_name (map GetService sos),
    in_instances = sort_key instance_name (map GetInstance ios),
    in_nodes = sorted_keys (bound_nodes (sort_key instance_name (map GetInstance ios)) (snd (node_names nos fmempty fmempty))),
    in_policies = map GetNetworkPolicy pos, in_vips = vip_map vos fmempty, in_ingress = ingress_map gos fmempty,
    in_advertise = fst (node_names nos fmempty fmempty)\<rparr>"
  have run: "listInputs (memory_store now) m = (Inr inp, m)"
    by (simp add: listInputs_def listAllocations_def sl il nl pl vl gl inp_def Let_def split: prod.splits)
  have sname: "svc_name (GetService x) = object_name x" if "x \<in> set sos" for x
    using mem.listed_entry [OF ok sl ks(1) that] service_name [of x] by (simp add: svc_name_def)
  have "mset (map svc_name (map GetService sos)) = mset (map object_name sos)" using sname by (simp cong: map_cong)
  then have names: "mset (map svc_name (in_services inp)) = mset (map object_name sos)"
    unfolding inp_def inputs.simps by (simp only: mset_map mset_sort)
  then have sset: "set (map svc_name (in_services inp)) = {n. mem_view m (KindService, n) \<noteq> None}"
    using mem_listed_names(1) [OF ok ks(1) sl] by (metis mset_eq_setD list.set_map)
  have sdist: "distinct (map svc_name (in_services inp))"
    using names mem_listed_names(2) [OF ok ks(1) sl] by (metis mset_eq_imp_distinct_iff)
  have "(\<lambda>o'. m_name (n_Meta (GetNode o'))) ` set nos = object_name ` set nos"
    using mem.listed_entry [OF ok nl ks(3)] node_object_name by (intro image_cong) auto
  then have nsub: "{n. mem_view m (KindNode, n) \<noteq> None} \<subseteq> set (in_nodes inp)"
    using mem_listed_names(1) [OF ok ks(3) nl] bound_nodes_dom [of "snd (node_names nos fmempty fmempty)"]
    by (auto simp: inp_def node_names_dom)
  have vips: "fmlookup (in_vips inp) n = map_option (\<lambda>(x, v). vs_vip (va_Spec (GetVipAllocation x))) (mem_view m (KindVIPAllocation, n))" for n
  proof -
    have vn: "m_name (va_Meta (GetVipAllocation x)) = object_name x" if "x \<in> set vos" for x
      using mem.listed_entry [OF ok vl ks(5) that] vip_name_of by simp
    then have "map (\<lambda>x. m_name (va_Meta (GetVipAllocation x))) vos = map object_name vos" by simp
    then have d: "distinct (map (\<lambda>x. m_name (va_Meta (GetVipAllocation x))) vos)"
      using mem_listed_names(2) [OF ok ks(5) vl] by metis
    show ?thesis
    proof (cases "List.find (\<lambda>x. m_name (va_Meta (GetVipAllocation x)) = n) vos")
      case None
      then have "n \<notin> object_name ` set vos" using vn by (auto simp: find_None_iff)
      then have "mem_view m (KindVIPAllocation, n) = None" using mem_listed_names(1) [OF ok ks(5) vl] by blast
      with None show ?thesis by (simp add: inp_def vip_map_lookup [OF d])
    next
      case (Some x)
      then have "x \<in> set vos" "object_name x = n" using vn by (auto simp: find_Some_iff)
      then have "mem_view m (KindVIPAllocation, n) = Some (x, m_resourceVersion (MetaOf x))"
        using mem.listed_entry [OF ok vl ks(5)] by auto
      with Some show ?thesis by (simp add: inp_def vip_map_lookup [OF d])
    qed
  qed
  show thesis by (rule that [OF run sset sdist nsub vips])
qed

subsection \<open>From the VIP controller to the nodes\<close>

lemma distinct_vips:
  assumes "distinct ns" and "\<And>n. n \<in> set ns \<Longrightarrow> f n \<noteq> None"
    and "\<And>n l. n \<in> set ns \<Longrightarrow> l \<in> set ns \<Longrightarrow> f n = f l \<Longrightarrow> n = l"
  shows "distinct (map (\<lambda>n. the (f n)) ns)"
proof -
  have "n = l" if "n \<in> set ns" "l \<in> set ns" "the (f n) = the (f l)" for n l
    using assms(3) [OF that(1,2)] assms(2) [OF that(1)] assms(2) [OF that(2)] that(3) by auto
  then show ?thesis using assms(1) by (simp add: distinct_map inj_on_def)
qed

text \<open>
  C22. From allocation to desired state: after a VIP pass that reported no error over any reachable
  store, the engine's next read succeeds, and the snapshot it builds for any registered node names
  every Service of the store exactly once, each with an address of the VIP pool, no address twice.
\<close>

theorem vip_pass_then_snapshot:
  assumes "m = run_ops (memory_store now) ops mem_New"
    and "vip_reconcile (memory_store now) m = ([], m')"
    and "mem_view m (KindNode, node) \<noteq> None"
  shows "\<exists>inp snap. listInputs (memory_store now) m' = (Inr inp, m') \<and> fmlookup (buildAll inp) node = Some snap \<and>
    distinct (map sv_service (nd_services (snap_Net snap))) \<and>
    sv_service ` set (nd_services (snap_Net snap)) = {svc. mem_view m (KindService, svc) \<noteq> None} \<and>
    distinct (map sv_vip (nd_services (snap_Net snap))) \<and>
    (\<forall>sv \<in> set (nd_services (snap_Net snap)). \<exists>a. ParseAddr (sv_vip sv) = Some a \<and> vipPool_Contains a)"
proof -
  have ok: "mem_ok m" unfolding assms(1) by (rule mem_reachable_ok)
  note facts = vip_pass_facts [OF ok assms(2)]
  from listInputs_view [OF facts(1)] obtain inp where
    inp: "listInputs (memory_store now) m' = (Inr inp, m')"
      "set (map svc_name (in_services inp)) = {n. mem_view m' (KindService, n) \<noteq> None}"
      "distinct (map svc_name (in_services inp))"
      "{n. mem_view m' (KindNode, n) \<noteq> None} \<subseteq> set (in_nodes inp)"
      "\<And>n. fmlookup (in_vips inp) n = map_option (\<lambda>(x, v). vs_vip (va_Spec (GetVipAllocation x))) (mem_view m' (KindVIPAllocation, n))"
    by blast
  have svcs: "{n. mem_view m' (KindService, n) \<noteq> None} = {n. mem_view m (KindService, n) \<noteq> None}"
    and nodes: "mem_view m' (KindNode, n) = mem_view m (KindNode, n)" for n
    using facts(2) by (simp_all add: KindService_def KindNode_def KindVIPAllocation_def)
  let ?names = "map svc_name (in_services inp)"
  let ?vip = "\<lambda>n. fmlookup (in_vips inp) (AllocationName n node)"
  have alloc: "\<exists>x v a. mem_view m' (KindVIPAllocation, AllocationName n node) = Some (x, v) \<and>
      ?vip n = Some (vs_vip (va_Spec (GetVipAllocation x))) \<and> vip_addr x = Some a \<and> vipPool_Contains a"
    if "n \<in> set ?names" for n
  proof -
    from that have "(n, node) \<in> vip_pairs m" using inp(2) svcs assms(3) by (auto simp: vip_pairs_def)
    from facts(6) [OF refl this] obtain x v where x: "mem_view m' (KindVIPAllocation, AllocationName n node) = Some (x, v)"
      by auto
    from facts(3) [OF this] x inp(5) show ?thesis by auto
  qed
  have all: "filter (\<lambda>n. ?vip n \<noteq> None) ?names = ?names" using alloc by (intro filter_True) auto
  obtain snap where snap: "fmlookup (buildAll inp) node = Some snap"
    "map (\<lambda>sv. (sv_service sv, sv_vip sv)) (nd_services (snap_Net snap)) = map (\<lambda>n. (n, the (?vip n))) ?names"
  proof -
    have "node \<in> set (in_nodes inp)" using inp(4) nodes assms(3) by auto
    then show thesis
      using that node_services_fst [of inp "buildGroups inp (in_services inp) fmempty" node "in_services inp"] all
      by (simp add: buildAll_def Let_def build_nodes_lookup)
  qed
  from arg_cong [OF snap(2), of "map fst"] have sv: "map sv_service (nd_services (snap_Net snap)) = ?names"
    by (simp add: comp_def)
  from arg_cong [OF snap(2), of "map snd"] have vs: "map sv_vip (nd_services (snap_Net snap)) = map (\<lambda>n. the (?vip n)) ?names"
    by (simp add: comp_def)
  have dv: "distinct (map sv_vip (nd_services (snap_Net snap)))" unfolding vs
  proof (rule distinct_vips [OF inp(3)])
    fix n assume "n \<in> set ?names"
    from alloc [OF this] show "?vip n \<noteq> None" by auto
  next
    fix n l assume nl: "n \<in> set ?names" "l \<in> set ?names" and eq: "?vip n = ?vip l"
    from alloc [OF nl(1)] obtain x v where x: "mem_view m' (KindVIPAllocation, AllocationName n node) = Some (x, v)"
      "?vip n = Some (vs_vip (va_Spec (GetVipAllocation x)))" by blast
    from alloc [OF nl(2)] obtain y u where y: "mem_view m' (KindVIPAllocation, AllocationName l node) = Some (y, u)"
      "?vip l = Some (vs_vip (va_Spec (GetVipAllocation y)))" by blast
    from x(2) y(2) eq have "vip_addr x = vip_addr y" by (simp add: vip_addr_def)
    from facts(4) [OF x(1) y(1) this] show "n = l" by (simp add: AllocationName_def)
  qed
  have pool: "\<exists>a. ParseAddr (sv_vip s) = Some a \<and> vipPool_Contains a" if s: "s \<in> set (nd_services (snap_Net snap))" for s
  proof -
    from s vs have "sv_vip s \<in> set (map (\<lambda>n. the (?vip n)) ?names)" by (metis image_eqI list.set_map)
    then obtain n where "n \<in> set ?names" "sv_vip s = the (?vip n)" by auto
    with alloc [OF this(1)] show ?thesis by (auto simp: vip_addr_def)
  qed
  have "sv_service ` set (nd_services (snap_Net snap)) = {svc. mem_view m (KindService, svc) \<noteq> None}"
    using arg_cong [OF sv, of set] inp(2) svcs by simp
  with inp(1,3) snap(1) sv dv pool show ?thesis by metis
qed

lemma vip_pass_then_snapshot_witness:
  "\<exists>m' inp snap. vip_reconcile (memory_store 7) (run_ops (memory_store 7) sample_vip_ops mem_New) = ([], m') \<and>
     listInputs (memory_store 7) m' = (Inr inp, m') \<and> fmlookup (buildAll inp) ''n1'' = Some snap \<and>
     sv_service ` set (nd_services (snap_Net snap)) = {''web''}"
proof -
  let ?m = "run_ops (memory_store 7) sample_vip_ops mem_New"
  obtain errs m' where run: "vip_reconcile (memory_store 7) ?m = (errs, m')" by fastforce
  have "errs = []" by (rule vip_pass_facts(7) [OF mem_reachable_ok run sample_vip_room(2)])
  with run have run': "vip_reconcile (memory_store 7) ?m = ([], m')" by simp
  have "''n1'' \<in> {n. mem_view ?m (KindNode, n) \<noteq> None}" unfolding sample_vip_names by simp
  then have "mem_view ?m (KindNode, ''n1'') \<noteq> None" by simp
  from vip_pass_then_snapshot [OF refl run' this] run' sample_vip_names(1) show ?thesis by metis
qed

subsection \<open>From the ingress controller to both ends of a hop\<close>

lemma group_endpoints_in:
  "e \<in> set (group_endpoints inp svc insts) \<longleftrightarrow> (\<exists>inst \<in> set insts. selects svc inst \<and>
     (\<exists>h. endpointHealth (ist_phase (i_Status inst)) = Some h \<and> ist_instanceIp (i_Status inst) \<noteq> [] \<and>
       e = \<lparr>ep_ip = ist_instanceIp (i_Status inst), ep_port = ss_targetPort (s_Spec svc),
              ep_node = is_node (i_Spec inst), ep_health = h,
              ep_ingressPort = ingress_port inp (IngressAllocationName (svc_name svc) (instance_name inst)),
              ep_machineAddress = map_str (in_advertise inp) (is_node (i_Spec inst))\<rparr>))"
  by (induction insts) (auto split: option.splits)

lemma buildGroups_lookup:
  "distinct (map svc_name svcs) \<Longrightarrow> fmlookup (buildGroups inp svcs out) n =
     (case List.find (\<lambda>s. svc_name s = n) svcs of
        Some s \<Rightarrow> Some \<lparr>eg_service = n, eg_endpoints = group_endpoints inp s (in_instances inp)\<rparr>
      | None \<Rightarrow> fmlookup out n)"
proof (induction svcs arbitrary: out)
  case (Cons s svcs)
  show ?case
  proof (cases "svc_name s = n")
    case True
    with Cons.prems have "List.find (\<lambda>s. svc_name s = n) svcs = None" by (intro find_key_None) auto
    with True Cons show ?thesis by simp
  next
    case False
    with Cons show ?thesis by (simp split: option.splits)
  qed
qed simp

lemma ingress_listeners_in:
  "l \<in> set (ingress_listeners inp node names) \<longleftrightarrow> (\<exists>name \<in> set names. \<exists>tp.
     let a = the (fmlookup (in_ingress inp) name); ip = ist_instanceIp (i_Status (instances_by_name inp (ias_instance a))) in
     ias_node a = node \<and> ip \<noteq> [] \<and> target_port inp (ias_service a) = Some tp \<and>
     l = \<lparr>il_service = ias_service a, il_port = ias_port a, il_podIp = ip, il_targetPort = tp\<rparr>)"
  by (induction names) (auto simp: Let_def split: option.splits)

text \<open>
  Allocations the ingress controller leaves: named after their endpoint, on their instance's node.
\<close>

definition ingress_consistent :: "inputs \<Rightarrow> bool" where
  "ingress_consistent inp \<longleftrightarrow>
     distinct (map instance_name (in_instances inp)) \<and> distinct (map svc_name (in_services inp)) \<and>
     (\<forall>s \<in> set (in_services inp). CHR ''.'' \<notin> set (svc_name s)) \<and>
     (\<forall>name a. fmlookup (in_ingress inp) name = Some a \<longrightarrow>
        name = IngressAllocationName (ias_service a) (ias_instance a) \<and> CHR ''.'' \<notin> set (ias_service a) \<and>
        (\<forall>i \<in> set (in_instances inp). instance_name i = ias_instance a \<longrightarrow> is_node (i_Spec i) = ias_node a))"


definition sample_svc :: Service where
  "sample_svc = zero_Service\<lparr>s_meta := Some (zero_Meta\<lparr>m_name := ''web''\<rparr>),
     s_spec := Some \<lparr>ss_selector = fmap_of_list [(''app'', ''web'')], ss_port = 80, ss_targetPort = 8080\<rparr>\<rparr>"

definition sample_inst :: Instance where
  "sample_inst = zero_Instance\<lparr>
     i_meta := Some (zero_Meta\<lparr>m_name := ''web-1'', m_labels := fmap_of_list [(''app'', ''web'')]\<rparr>),
     i_spec := Some (zero_InstanceSpec\<lparr>is_node := ''n2''\<rparr>),
     i_status := Some (zero_InstanceStatus\<lparr>ist_phase := INSTANCE_PHASE_READY, ist_instanceIp := ''10.44.0.7''\<rparr>)\<rparr>"

definition sample_inputs :: inputs where
  "sample_inputs = \<lparr>in_services = [sample_svc], in_instances = [sample_inst], in_nodes = [''n1'', ''n2''],
     in_policies = [], in_vips = fmempty,
     in_ingress = fmap_of_list [(''web.web-1'', \<lparr>ias_service = ''web'', ias_instance = ''web-1'', ias_node = ''n2'', ias_port = 20032\<rparr>)],
     in_advertise = fmempty\<rparr>"

definition sample_endpoint :: Endpoint where
  "sample_endpoint = \<lparr>ep_ip = ''10.44.0.7'', ep_port = 8080, ep_node = ''n2'', ep_health = ENDPOINT_HEALTH_READY,
     ep_ingressPort = 20032, ep_machineAddress = []\<rparr>"

lemma sample_inputs_consistent: "ingress_consistent sample_inputs"
  by (auto simp: ingress_consistent_def sample_inputs_def sample_svc_def sample_inst_def svc_name_def instance_name_def
      IngressAllocationName_def fmlookup_of_list split: if_splits)

lemma sample_group:
  "fmlookup (buildGroups sample_inputs (in_services sample_inputs) fmempty) ''web''
     = Some \<lparr>eg_service = ''web'', eg_endpoints = [sample_endpoint]\<rparr>"
  by code_simp


end
