(* ===== verification/Klite_Xds.thy ===== *)
theory Klite_Xds
  imports Klite_Policy Klite_NetIP
begin

text \<open>
  The xDS builder of \<open>src/internal/xds/builder.go\<close>, resource by resource: validation of a node's
  \<open>NetDesired\<close>, the VIP listeners with their RBAC filters, the EDS clusters and load assignments,
  and the mTLS ingress listeners with their static clusters. The Envoy messages are records of the
  fields the code sets. Three things are not this program's code and are parameters: \<open>xl_any\<close>,
  whether \<open>anypb.New\<close> can marshal a message (the packed value is the message itself), \<open>xl_index\<close>
  and \<open>xl_consistent\<close>, whether \<open>cachev3.NewSnapshot\<close> and \<open>Consistent\<close> accept the resources.
\<close>

subsection \<open>Envoy resources\<close>

datatype RbacAction = RBAC_ALLOW | RBAC_DENY

datatype Principal = Principal_Any | Principal_DirectRemoteIp string nat

datatype TlsVersion = TLSv1_3

record CommonTls =
  tls_min :: TlsVersion
  tls_max :: TlsVersion
  tls_certificateChain :: string
  tls_privateKey :: string
  tls_trustedCa :: string

datatype AnyMsg =
  Any_RBAC string RbacAction "(string, Principal list) fmap"
| Any_TcpProxy string string int
| Any_RawBuffer
| Any_UpstreamTls CommonTls
| Any_DownstreamTls CommonTls bool

record SocketAddress =
  sa_address :: string
  sa_port :: int

record TransportSocket =
  ts_name :: string
  ts_config :: AnyMsg

record Filter =
  f_name :: string
  f_config :: AnyMsg

record FilterChain =
  fc_socket :: "TransportSocket option"
  fc_filters :: "Filter list"

record Listener =
  l_name :: string
  l_freebind :: bool
  l_address :: SocketAddress
  l_filterChains :: "FilterChain list"

datatype HealthStatus = HealthStatus_UNKNOWN | HealthStatus_HEALTHY | HealthStatus_DRAINING

record LbEndpoint =
  lb_health :: HealthStatus
  lb_address :: SocketAddress
  lb_metadata :: "(string, (string, string) fmap) fmap"

record ClusterLoadAssignment =
  cla_cluster :: string
  cla_endpoints :: "LbEndpoint list list"

record TransportSocketMatch =
  tm_name :: string
  tm_match :: "(string, string) fmap"
  tm_socket :: TransportSocket

datatype DiscoveryType = Cluster_EDS | Cluster_STATIC

record Cluster =
  cl_name :: string
  cl_connectTimeout :: int
  cl_type :: DiscoveryType
  cl_panicThreshold :: "int option"
  cl_matches :: "TransportSocketMatch list"
  cl_loadAssignment :: "ClusterLoadAssignment option"

record XSnapshot =
  xs_version :: string
  xs_clusters :: "Cluster list"
  xs_endpoints :: "ClusterLoadAssignment list"
  xs_listeners :: "Listener list"

record XLib =
  xl_any :: "AnyMsg \<Rightarrow> bool"
  xl_index :: "XSnapshot \<Rightarrow> bool"
  xl_consistent :: "XSnapshot \<Rightarrow> bool"

datatype XErr =
  ErrServiceEmptyName | ErrServiceTwice string | ErrServiceVip string | ErrServicePort string int
| ErrGroupTwice string | ErrEndpointIp string | ErrEndpointPort string int | ErrEndpointMachine string
| ErrEndpointIngress string int
| ErrIngressNoService int | ErrIngressPort string int | ErrIngressTarget string int | ErrIngressPodIp string
| ErrIngressTwice int
| ErrIdentityKey string
| ErrAny string | ErrNewSnapshot | ErrInconsistent | ErrSetSnapshot

definition rbacFilterName :: string where "rbacFilterName = ''envoy.filters.network.rbac''"
definition tcpProxyFilterName :: string where "tcpProxyFilterName = ''envoy.filters.network.tcp_proxy''"
definition anyService :: string where "anyService = ''*''"
definition tlsMountDir :: string where "tlsMountDir = ''/etc/klite/tls''"
definition nodeCertFile :: string where "nodeCertFile = tlsMountDir @ ''/node.crt''"
definition nodeKeyFile :: string where "nodeKeyFile = tlsMountDir @ ''/node.key''"
definition caCertFile :: string where "caCertFile = tlsMountDir @ ''/ca.crt''"
definition tlsSocketName :: string where "tlsSocketName = ''envoy.transport_sockets.tls''"
definition rawSocketName :: string where "rawSocketName = ''envoy.transport_sockets.raw_buffer''"
definition transportMatchMetadataKey :: string where
  "transportMatchMetadataKey = ''envoy.transport_socket_match''"
definition ingressMatchKey :: string where "ingressMatchKey = ''klite''"
definition ingressMatchValue :: string where "ingressMatchValue = ''ingress-mtls''"

text \<open>The conversion \<open>uint32(x)\<close> of an \<open>int32\<close>.\<close>

definition uint32 :: "int \<Rightarrow> int" where "uint32 x = x mod 2 ^ 32"

fun BitLen :: "Addr \<Rightarrow> nat" where
  "BitLen (V4 _) = 32"
| "BitLen (V6 _ _) = 128"

subsection \<open>Validation\<close>

definition bad_port :: "int \<Rightarrow> bool" where "bad_port p \<longleftrightarrow> p < 1 \<or> p > 65535"

fun validateServices :: "ServiceVIP list \<Rightarrow> (string \<Rightarrow> bool) \<Rightarrow> XErr option" where
  "validateServices [] seen = None"
| "validateServices (svc # svcs) seen =
     (let name = sv_service svc in
      if name = [] then Some ErrServiceEmptyName
      else if seen name then Some (ErrServiceTwice name)
      else if ParseAddr (sv_vip svc) = None then Some (ErrServiceVip name)
      else if bad_port (sv_port svc) then Some (ErrServicePort name (sv_port svc))
      else validateServices svcs (seen(name := True)))"

fun validateEndpoints :: "string \<Rightarrow> Endpoint list \<Rightarrow> XErr option" where
  "validateEndpoints svc [] = None"
| "validateEndpoints svc (ep # eps) =
     (if ParseAddr (ep_ip ep) = None then Some (ErrEndpointIp svc)
      else if bad_port (ep_port ep) then Some (ErrEndpointPort svc (ep_port ep))
      else if ep_machineAddress ep \<noteq> [] \<and> ParseAddr (ep_machineAddress ep) = None then Some (ErrEndpointMachine svc)
      else if ep_ingressPort ep < 0 \<or> ep_ingressPort ep > 65535 then Some (ErrEndpointIngress svc (ep_ingressPort ep))
      else validateEndpoints svc eps)"

fun validateEndpointGroups :: "EndpointGroup list \<Rightarrow> (string \<Rightarrow> bool) \<Rightarrow> XErr option" where
  "validateEndpointGroups [] seen = None"
| "validateEndpointGroups (g # gs) seen =
     (if seen (eg_service g) then Some (ErrGroupTwice (eg_service g))
      else err_then (validateEndpoints (eg_service g) (eg_endpoints g))
             (validateEndpointGroups gs (seen(eg_service g := True))))"

fun validateIngressListeners :: "IngressListener list \<Rightarrow> (int \<Rightarrow> bool) \<Rightarrow> XErr option" where
  "validateIngressListeners [] seen = None"
| "validateIngressListeners (ing # ings) seen =
     (if il_service ing = [] then Some (ErrIngressNoService (il_port ing))
      else if bad_port (il_port ing) then Some (ErrIngressPort (il_service ing) (il_port ing))
      else if bad_port (il_targetPort ing) then Some (ErrIngressTarget (il_service ing) (il_targetPort ing))
      else if ParseAddr (il_podIp ing) = None then Some (ErrIngressPodIp (il_service ing))
      else if seen (il_port ing) then Some (ErrIngressTwice (il_port ing))
      else validateIngressListeners ings (seen(il_port ing := True)))"

fun validateIdentity :: "string list \<Rightarrow> XErr option" where
  "validateIdentity [] = None"
| "validateIdentity (ip # ips) = (if ParseAddr ip = None then Some (ErrIdentityKey ip) else validateIdentity ips)"

definition validateNet :: "NetDesired \<Rightarrow> XErr option" where
  "validateNet net =
     err_then (validateServices (nd_services net) (\<lambda>_. False))
       (err_then (validateEndpointGroups (nd_endpoints net) (\<lambda>_. False))
         (err_then (validateIngressListeners (nd_ingressListeners net) (\<lambda>_. False))
           (validateIdentity (sorted_keys (nd_ipIdentity net)))))"

subsection \<open>RBAC filters and VIP listeners\<close>

definition policyTargets :: "CompiledPolicy \<Rightarrow> string \<Rightarrow> bool" where
  "policyTargets pol service = (if cp_to pol = service then True
     else cp_to pol = anyService \<and> \<not> List.member (cp_except pol) service)"

fun ip_principals :: "string list \<Rightarrow> Principal list" where
  "ip_principals [] = []"
| "ip_principals (ip # ips) = (case ParseAddr ip of
     None \<Rightarrow> ip_principals ips
   | Some addr \<Rightarrow> Principal_DirectRemoteIp ip (BitLen addr) # ip_principals ips)"

definition principalsFor :: "string \<Rightarrow> (string, string) fmap \<Rightarrow> Principal list" where
  "principalsFor from' ipIdentity =
     (if from' = anyService then [Principal_Any]
      else ip_principals (filter (\<lambda>ip. fmlookup ipIdentity ip = Some from') (sorted_keys ipIdentity)))"

text \<open>\<open>fmt.Sprintf("%03d-%s", index, name)\<close>.\<close>

definition policy_key :: "nat \<Rightarrow> string \<Rightarrow> string" where
  "policy_key index name = replicate (3 - length (itoa index)) CHR ''0'' @ itoa index @ ''-'' @ name"

definition addPolicy ::
    "(string, Principal list) fmap \<Rightarrow> nat \<Rightarrow> CompiledPolicy \<Rightarrow> (string, string) fmap \<Rightarrow> (string, Principal list) fmap" where
  "addPolicy policies index pol ipIdentity =
     (let principals = principalsFor (cp_from pol) ipIdentity in
      if principals = [] then policies else fmupd (policy_key index (cp_policyName pol)) principals policies)"

fun rbac_tables ::
    "string \<Rightarrow> (string, string) fmap \<Rightarrow> nat \<Rightarrow> CompiledPolicy list \<Rightarrow> (string, Principal list) fmap \<Rightarrow>
     (string, Principal list) fmap \<Rightarrow> bool \<Rightarrow> (string, Principal list) fmap \<times> (string, Principal list) fmap \<times> bool" where
  "rbac_tables service identity i [] deny allow allowlist = (deny, allow, allowlist)"
| "rbac_tables service identity i (pol # pols) deny allow allowlist =
     (if \<not> policyTargets pol service then rbac_tables service identity (i + 1) pols deny allow allowlist
      else case cp_action pol of
        POLICY_ACTION_DENY \<Rightarrow>
          rbac_tables service identity (i + 1) pols (addPolicy deny i pol identity) allow allowlist
      | POLICY_ACTION_ALLOW \<Rightarrow>
          rbac_tables service identity (i + 1) pols deny (addPolicy allow i pol identity) True
      | _ \<Rightarrow> rbac_tables service identity (i + 1) pols deny allow allowlist)"

definition rbacFilter ::
    "XLib \<Rightarrow> string \<Rightarrow> RbacAction \<Rightarrow> (string, Principal list) fmap \<Rightarrow> XErr + Filter" where
  "rbacFilter lib statPrefix action policies =
     (let cfg = Any_RBAC statPrefix action policies in
      if xl_any lib cfg then Inr \<lparr>f_name = rbacFilterName, f_config = cfg\<rparr> else Inl (ErrAny statPrefix))"

definition rbacFilters :: "XLib \<Rightarrow> string \<Rightarrow> NetDesired \<Rightarrow> XErr + Filter list" where
  "rbacFilters lib service net =
     (let (deny, allow, allowlist) =
            rbac_tables service (nd_ipIdentity net) 0 (nd_policies net) fmempty fmempty False in
      case (if sorted_keys deny \<noteq> [] then map_sum id (\<lambda>f. [f]) (rbacFilter lib (service @ ''_deny'') RBAC_DENY deny)
            else Inr []) of
        Inl err \<Rightarrow> Inl err
      | Inr fs \<Rightarrow>
        if allowlist then
          (case rbacFilter lib (service @ ''_allow'') RBAC_ALLOW allow of
             Inl err \<Rightarrow> Inl err
           | Inr f \<Rightarrow> Inr (fs @ [f]))
        else Inr fs)"

definition socketAddress :: "string \<Rightarrow> int \<Rightarrow> SocketAddress" where
  "socketAddress host port = \<lparr>sa_address = host, sa_port = port\<rparr>"

definition buildListener :: "XLib \<Rightarrow> ServiceVIP \<Rightarrow> NetDesired \<Rightarrow> XErr + Listener" where
  "buildListener lib svc net = (case rbacFilters lib (sv_service svc) net of
     Inl err \<Rightarrow> Inl err
   | Inr filters \<Rightarrow>
     (let tcpProxy = Any_TcpProxy (sv_service svc) (sv_service svc) 0 in
      if \<not> xl_any lib tcpProxy then Inl (ErrAny (''svc/'' @ sv_service svc))
      else Inr \<lparr>l_name = ''svc/'' @ sv_service svc, l_freebind = True,
                l_address = socketAddress (sv_vip svc) (uint32 (sv_port svc)),
                l_filterChains = [\<lparr>fc_socket = None,
                  fc_filters = filters @ [\<lparr>f_name = tcpProxyFilterName, f_config = tcpProxy\<rparr>]\<rparr>]\<rparr>))"

fun buildListeners :: "XLib \<Rightarrow> NetDesired \<Rightarrow> ServiceVIP list \<Rightarrow> XErr + Listener list" where
  "buildListeners lib net [] = Inr []"
| "buildListeners lib net (svc # svcs) = (case buildListener lib svc net of
     Inl err \<Rightarrow> Inl err
   | Inr lst \<Rightarrow> map_sum id (\<lambda>ls. lst # ls) (buildListeners lib net svcs))"

subsection \<open>Clusters\<close>

definition commonNodeTLS :: CommonTls where
  "commonNodeTLS = \<lparr>tls_min = TLSv1_3, tls_max = TLSv1_3, tls_certificateChain = nodeCertFile,
     tls_privateKey = nodeKeyFile, tls_trustedCa = caCertFile\<rparr>"

definition upstreamMTLSSocket :: "XLib \<Rightarrow> XErr + TransportSocket" where
  "upstreamMTLSSocket lib =
     (let cfg = Any_UpstreamTls commonNodeTLS in
      if xl_any lib cfg then Inr \<lparr>ts_name = tlsSocketName, ts_config = cfg\<rparr> else Inl (ErrAny ''upstream tls socket''))"

definition transportSocketMatches :: "XLib \<Rightarrow> XErr + TransportSocketMatch list" where
  "transportSocketMatches lib = (case upstreamMTLSSocket lib of
     Inl err \<Rightarrow> Inl err
   | Inr mtls \<Rightarrow>
     if \<not> xl_any lib Any_RawBuffer then Inl (ErrAny ''raw buffer socket'')
     else Inr
       [\<lparr>tm_name = ingressMatchValue, tm_match = fmupd ingressMatchKey ingressMatchValue fmempty, tm_socket = mtls\<rparr>,
        \<lparr>tm_name = ''raw'', tm_match = fmempty, tm_socket = \<lparr>ts_name = rawSocketName, ts_config = Any_RawBuffer\<rparr>\<rparr>])"

definition buildCluster :: "string \<Rightarrow> TransportSocketMatch list \<Rightarrow> Cluster" where
  "buildCluster service matches = \<lparr>cl_name = service, cl_connectTimeout = 1000000000, cl_type = Cluster_EDS,
     cl_panicThreshold = Some 0, cl_matches = matches, cl_loadAssignment = None\<rparr>"

definition buildClusters :: "XLib \<Rightarrow> NetDesired \<Rightarrow> XErr + Cluster list" where
  "buildClusters lib net = (case transportSocketMatches lib of
     Inl err \<Rightarrow> Inl err
   | Inr matches \<Rightarrow> Inr (map (\<lambda>svc. buildCluster (sv_service svc) matches) (nd_services net)))"

subsection \<open>Load assignments\<close>

definition healthStatus :: "EndpointHealth \<Rightarrow> HealthStatus" where
  "healthStatus h = (if h = ENDPOINT_HEALTH_DRAINING then HealthStatus_DRAINING else HealthStatus_HEALTHY)"

definition ingressMatchMetadata :: "(string, (string, string) fmap) fmap" where
  "ingressMatchMetadata =
     fmupd transportMatchMetadataKey (fmupd ingressMatchKey ingressMatchValue fmempty) fmempty"

definition lbAddress :: "string \<Rightarrow> int \<Rightarrow> SocketAddress" where
  "lbAddress host port = socketAddress host port"

fun lb_endpoints :: "string \<Rightarrow> Endpoint list \<Rightarrow> LbEndpoint list" where
  "lb_endpoints node [] = []"
| "lb_endpoints node (ep # eps) =
     (if ep_node ep = [] \<or> ep_node ep = node then
        \<lparr>lb_health = healthStatus (ep_health ep), lb_address = lbAddress (ep_ip ep) (uint32 (ep_port ep)),
         lb_metadata = fmempty\<rparr> # lb_endpoints node eps
      else if ep_ingressPort ep > 0 \<and> ep_machineAddress ep \<noteq> [] then
        \<lparr>lb_health = healthStatus (ep_health ep),
         lb_address = lbAddress (ep_machineAddress ep) (uint32 (ep_ingressPort ep)),
         lb_metadata = ingressMatchMetadata\<rparr> # lb_endpoints node eps
      else lb_endpoints node eps)"

definition buildLoadAssignment :: "string \<Rightarrow> EndpointGroup \<Rightarrow> ClusterLoadAssignment" where
  "buildLoadAssignment node g =
     \<lparr>cla_cluster = eg_service g, cla_endpoints = [lb_endpoints node (eg_endpoints g)]\<rparr>"

fun empty_assignments :: "ServiceVIP list \<Rightarrow> (string \<Rightarrow> bool) \<Rightarrow> ClusterLoadAssignment list" where
  "empty_assignments [] seen = []"
| "empty_assignments (svc # svcs) seen =
     (if seen (sv_service svc) then empty_assignments svcs seen
      else \<lparr>cla_cluster = sv_service svc, cla_endpoints = []\<rparr> # empty_assignments svcs (seen(sv_service svc := True)))"

definition buildEndpoints :: "string \<Rightarrow> NetDesired \<Rightarrow> ClusterLoadAssignment list" where
  "buildEndpoints node net =
     map (buildLoadAssignment node) (nd_endpoints net) @
     empty_assignments (nd_services net) (\<lambda>s. s \<in> set (map eg_service (nd_endpoints net)))"

subsection \<open>Ingress\<close>

definition ingress_name :: "IngressListener \<Rightarrow> string" where
  "ingress_name ing = ''ingress/'' @ il_service ing @ ''/'' @ itoa_int (il_port ing)"

definition buildIngressPair :: "XLib \<Rightarrow> IngressListener \<Rightarrow> XErr + Listener \<times> Cluster" where
  "buildIngressPair lib ing =
     (let name = ingress_name ing;
          tcpProxy = Any_TcpProxy (''ingress_'' @ itoa_int (il_port ing)) name 0;
          downstream = Any_DownstreamTls commonNodeTLS True in
      if \<not> xl_any lib tcpProxy then Inl (ErrAny name)
      else if \<not> xl_any lib downstream then Inl (ErrAny name)
      else Inr
        (\<lparr>l_name = name, l_freebind = False,
          l_address = socketAddress ''0.0.0.0'' (uint32 (il_port ing)),
          l_filterChains = [\<lparr>fc_socket = Some \<lparr>ts_name = tlsSocketName, ts_config = downstream\<rparr>,
            fc_filters = [\<lparr>f_name = tcpProxyFilterName, f_config = tcpProxy\<rparr>]\<rparr>]\<rparr>,
         \<lparr>cl_name = name, cl_connectTimeout = 1000000000, cl_type = Cluster_STATIC, cl_panicThreshold = None,
          cl_matches = [],
          cl_loadAssignment = Some \<lparr>cla_cluster = name, cla_endpoints =
            [[\<lparr>lb_health = HealthStatus_UNKNOWN, lb_address = lbAddress (il_podIp ing) (uint32 (il_targetPort ing)),
               lb_metadata = fmempty\<rparr>]]\<rparr>\<rparr>))"

fun buildIngress :: "XLib \<Rightarrow> IngressListener list \<Rightarrow> XErr + Listener list \<times> Cluster list" where
  "buildIngress lib [] = Inr ([], [])"
| "buildIngress lib (ing # ings) = (case buildIngressPair lib ing of
     Inl err \<Rightarrow> Inl err
   | Inr (lst, cl) \<Rightarrow> map_sum id (\<lambda>(ls, cs). (lst # ls, cl # cs)) (buildIngress lib ings))"

text \<open>\<open>BuildSnapshot\<close>; the node name that prefixes every error message is dropped.\<close>

definition BuildSnapshot :: "XLib \<Rightarrow> string \<Rightarrow> string \<Rightarrow> NetDesired \<Rightarrow> XErr + XSnapshot" where
  "BuildSnapshot lib node version net = (case validateNet net of
     Some err \<Rightarrow> Inl err
   | None \<Rightarrow>
     (case buildListeners lib net (nd_services net) of
        Inl err \<Rightarrow> Inl err
      | Inr listeners \<Rightarrow>
        (case buildIngress lib (nd_ingressListeners net) of
           Inl err \<Rightarrow> Inl err
         | Inr (ingressListeners, ingressClusters) \<Rightarrow>
           (case buildClusters lib net of
              Inl err \<Rightarrow> Inl err
            | Inr clusters \<Rightarrow>
              (let snap = \<lparr>xs_version = version, xs_clusters = clusters @ ingressClusters,
                     xs_endpoints = buildEndpoints node net, xs_listeners = listeners @ ingressListeners\<rparr> in
               if \<not> xl_index lib snap then Inl ErrNewSnapshot
               else if \<not> xl_consistent lib snap then Inl ErrInconsistent
               else Inr snap)))))"

text \<open>The cache: one snapshot per node; \<open>set\<close> says whether \<open>SetSnapshot\<close> accepts it.\<close>

definition SetNodeSnapshot ::
    "XLib \<Rightarrow> (string \<Rightarrow> XSnapshot \<Rightarrow> bool) \<Rightarrow> string \<Rightarrow> string \<Rightarrow> NetDesired \<Rightarrow> (string \<Rightarrow> XSnapshot option) \<Rightarrow>
     XErr option \<times> (string \<Rightarrow> XSnapshot option)" where
  "SetNodeSnapshot lib set' node version net cache = (case BuildSnapshot lib node version net of
     Inl err \<Rightarrow> (Some err, cache)
   | Inr snap \<Rightarrow> if set' node snap then (None, cache(node \<mapsto> snap)) else (Some ErrSetSnapshot, cache))"

subsection \<open>What Envoy makes of the filters\<close>

text \<open>
  Envoy is not this program's code: \<open>ev_matches\<close> says whether a principal matches a source address
  and \<open>ev_passes\<close> whether a network filter with a configuration lets a connection through. What the
  builder relies on is the documented behaviour of the RBAC network filter: an ALLOW filter passes
  a connection some policy matches, a DENY filter one no policy matches, a policy matches when one
  of its principals does, \<open>any\<close> matches everything, and a \<open>direct_remote_ip\<close> range of the full
  length matches its one address. The TCP proxy at the end of the chain refuses nobody.
\<close>

record Envoy =
  ev_matches :: "Principal \<Rightarrow> Addr \<Rightarrow> bool"
  ev_passes :: "AnyMsg \<Rightarrow> Addr \<Rightarrow> bool"

definition table_matches :: "Envoy \<Rightarrow> (string, Principal list) fmap \<Rightarrow> Addr \<Rightarrow> bool" where
  "table_matches ev pols src \<longleftrightarrow> (\<exists>k ps. fmlookup pols k = Some ps \<and> (\<exists>p \<in> set ps. ev_matches ev p src))"

definition envoy_documented :: "Envoy \<Rightarrow> bool" where
  "envoy_documented ev \<longleftrightarrow>
     (\<forall>src. ev_matches ev Principal_Any src) \<and>
     (\<forall>ip a src. ParseAddr ip = Some a \<longrightarrow> ev_matches ev (Principal_DirectRemoteIp ip (BitLen a)) src = (src = a)) \<and>
     (\<forall>st pols src. ev_passes ev (Any_RBAC st RBAC_ALLOW pols) src = table_matches ev pols src) \<and>
     (\<forall>st pols src. ev_passes ev (Any_RBAC st RBAC_DENY pols) src = (\<not> table_matches ev pols src)) \<and>
     (\<forall>st cl t src. ev_passes ev (Any_TcpProxy st cl t) src)"

text \<open>The services whose identity an address carries.\<close>

definition sources :: "NetDesired \<Rightarrow> Addr \<Rightarrow> string set" where
  "sources net src = {s. \<exists>ip. fmlookup (nd_ipIdentity net) ip = Some s \<and> ParseAddr ip = Some src}"

lemma ip_principals_match:
  assumes "envoy_documented ev"
  shows "(\<exists>p \<in> set (ip_principals ips). ev_matches ev p src) \<longleftrightarrow> (\<exists>ip \<in> set ips. ParseAddr ip = Some src)"
  using assms by (induction ips) (auto simp: envoy_documented_def split: option.splits)

lemma principalsFor_match:
  assumes "envoy_documented ev"
  shows "(\<exists>p \<in> set (principalsFor f (nd_ipIdentity net)). ev_matches ev p src) \<longleftrightarrow>
    f = anyService \<or> f \<in> sources net src"
proof (cases "f = anyService")
  case True
  with assms show ?thesis by (simp add: principalsFor_def envoy_documented_def)
next
  case False
  then show ?thesis
    by (auto simp: principalsFor_def ip_principals_match [OF assms] sources_def fmlookup_dom'_iff)
qed

lemma digits_no_dash: "CHR ''-'' \<notin> set (itoa n)"
  using itoa_digits [of "CHR ''-''" n] by (auto simp: less_eq_char_def)

lemma digit_char_0: "digit_char 0 = CHR ''0''"
  by code_simp

lemma itoa_hd: "0 < n \<Longrightarrow> hd (itoa n) \<noteq> CHR ''0''"
proof (induction n rule: less_induct)
  case (less n)
  show ?case
  proof (cases "n < 10")
    case True
    then have "digit_char n \<noteq> digit_char 0" using digit_char_inj [of n 0] less.prems by auto
    then show ?thesis using True by (simp add: itoa_def digits_base_small digit_char_0)
  next
    case False
    then have "itoa n = itoa (n div 10) @ [digit_char (n mod 10)]" by (simp add: itoa_def digits_base_big)
    moreover have "itoa (n div 10) \<noteq> []" by (simp add: itoa_def)
    ultimately show ?thesis using less.IH [of "n div 10"] False by simp
  qed
qed

lemma zero_pad_inj:
  assumes "replicate a CHR ''0'' @ itoa i = replicate b CHR ''0'' @ itoa j" and "a + length (itoa i) = b + length (itoa j)"
    and "a \<le> b"
  shows "i = j"
proof (cases "a = b")
  case True
  with assms(1) show ?thesis by (auto dest: itoa_inj)
next
  case False
  then obtain c where c: "b = a + Suc c" using assms(3) less_iff_Suc_add [of a b] by auto
  have "replicate b CHR ''0'' = replicate a CHR ''0'' @ replicate (Suc c) CHR ''0''"
    unfolding c by (rule replicate_add)
  with assms(1) have "replicate a CHR ''0'' @ itoa i = replicate a CHR ''0'' @ replicate (Suc c) CHR ''0'' @ itoa j"
    by (metis append.assoc)
  then have eq: "itoa i = CHR ''0'' # replicate c CHR ''0'' @ itoa j" by simp
  have "i = 0"
  proof (rule ccontr)
    assume "i \<noteq> 0"
    with itoa_hd [of i] eq show False by simp
  qed
  moreover have "itoa 0 = [CHR ''0'']" by (simp add: itoa_def digits_base_small digit_char_0)
  ultimately have "replicate c CHR ''0'' @ itoa j = []" using eq by simp
  moreover have "itoa j \<noteq> []" by (simp add: itoa_def)
  ultimately show ?thesis by simp
qed

lemma policy_key_inj:
  assumes "policy_key i n = policy_key j m"
  shows "i = j"
proof -
  let ?p = "\<lambda>i. replicate (3 - length (itoa i)) CHR ''0'' @ itoa i"
  have nd: "CHR ''-'' \<notin> set (?p i)" for i using digits_no_dash by auto
  have k: "policy_key i n = ?p i @ ''-'' @ n" for i n by (simp add: policy_key_def)
  have cut: "takeWhile (\<lambda>c. c \<noteq> CHR ''-'') (?p i @ ''-'' @ n) = ?p i" for i n
    using nd [of i] by (subst takeWhile_append2) auto
  from assms have eq: "?p i = ?p j" using cut [of i n] cut [of j m] unfolding k by argo
  have len: "3 - length (itoa i) + length (itoa i) = 3 - length (itoa j) + length (itoa j)"
    using arg_cong [OF eq, of length] by simp
  consider "3 - length (itoa i) \<le> 3 - length (itoa j)" | "3 - length (itoa j) \<le> 3 - length (itoa i)" by linarith
  then show ?thesis
    using zero_pad_inj [OF eq len] zero_pad_inj [OF eq [symmetric] len [symmetric]] by cases auto
qed

definition keys_below :: "(string, Principal list) fmap \<Rightarrow> nat \<Rightarrow> bool" where
  "keys_below tab i \<longleftrightarrow> (\<forall>k ps. fmlookup tab k = Some ps \<longrightarrow> (\<exists>j n. j < i \<and> k = policy_key j n))"

lemma keys_below_mono: "keys_below tab i \<Longrightarrow> i \<le> j \<Longrightarrow> keys_below tab j"
  unfolding keys_below_def by (meson order_less_le_trans)

lemma addPolicy_below:
  assumes "keys_below tab i"
  shows "keys_below (addPolicy tab i pol ident) (i + 1)"
  using keys_below_mono [OF assms, of "i + 1"]
  by (auto simp: addPolicy_def Let_def keys_below_def)

lemma table_matches_fmupd:
  assumes "fmlookup tab k = None"
  shows "table_matches ev (fmupd k ps tab) src \<longleftrightarrow> table_matches ev tab src \<or> (\<exists>p \<in> set ps. ev_matches ev p src)"
proof
  assume "table_matches ev (fmupd k ps tab) src"
  then show "table_matches ev tab src \<or> (\<exists>p \<in> set ps. ev_matches ev p src)"
    by (auto simp: table_matches_def split: if_splits)
next
  assume "table_matches ev tab src \<or> (\<exists>p \<in> set ps. ev_matches ev p src)"
  then consider k' qs p where "fmlookup tab k' = Some qs" "p \<in> set qs" "ev_matches ev p src"
    | p where "p \<in> set ps" "ev_matches ev p src" by (auto simp: table_matches_def)
  then show "table_matches ev (fmupd k ps tab) src"
  proof cases
    case 1
    with assms have "fmlookup (fmupd k ps tab) k' = Some qs" by auto
    with 1 show ?thesis unfolding table_matches_def by blast
  next
    case 2
    moreover have "fmlookup (fmupd k ps tab) k = Some ps" by simp
    ultimately show ?thesis unfolding table_matches_def by blast
  qed
qed

lemma addPolicy_matches:
  assumes "envoy_documented ev" and "keys_below tab i"
  shows "table_matches ev (addPolicy tab i pol (nd_ipIdentity net)) src \<longleftrightarrow>
    table_matches ev tab src \<or> cp_from pol = anyService \<or> cp_from pol \<in> sources net src"
proof -
  let ?ps = "principalsFor (cp_from pol) (nd_ipIdentity net)"
  let ?k = "policy_key i (cp_policyName pol)"
  note pm = principalsFor_match [OF assms(1), of "cp_from pol" net src]
  have fresh: "fmlookup tab ?k = None"
  proof (rule ccontr)
    assume "fmlookup tab ?k \<noteq> None"
    then obtain ps where "fmlookup tab ?k = Some ps" by auto
    with assms(2) obtain j n where "j < i" "?k = policy_key j n" unfolding keys_below_def by blast
    with policy_key_inj [of i "cp_policyName pol" j n] show False by simp
  qed
  show ?thesis
  proof (cases "?ps = []")
    case True
    then have "\<not> (cp_from pol = anyService \<or> cp_from pol \<in> sources net src)" using pm by simp
    with True show ?thesis by (simp add: addPolicy_def Let_def)
  next
    case False
    then have "addPolicy tab i pol (nd_ipIdentity net) = fmupd ?k ?ps tab" by (simp add: addPolicy_def Let_def)
    with table_matches_fmupd [OF fresh] pm show ?thesis by simp
  qed
qed

definition pol_hits :: "NetDesired \<Rightarrow> Addr \<Rightarrow> string \<Rightarrow> PolicyAction \<Rightarrow> CompiledPolicy \<Rightarrow> bool" where
  "pol_hits net src service act pol \<longleftrightarrow> policyTargets pol service \<and> cp_action pol = act \<and>
     (cp_from pol = anyService \<or> cp_from pol \<in> sources net src)"

lemma rbac_tables_match:
  assumes "envoy_documented ev" and "keys_below deny i" and "keys_below allow i"
    and "rbac_tables service (nd_ipIdentity net) i pols deny allow al = (deny', allow', al')"
  shows "(table_matches ev deny' src \<longleftrightarrow> table_matches ev deny src \<or> (\<exists>pol \<in> set pols. pol_hits net src service POLICY_ACTION_DENY pol)) \<and>
    (table_matches ev allow' src \<longleftrightarrow> table_matches ev allow src \<or> (\<exists>pol \<in> set pols. pol_hits net src service POLICY_ACTION_ALLOW pol)) \<and>
    (al' \<longleftrightarrow> al \<or> (\<exists>pol \<in> set pols. policyTargets pol service \<and> cp_action pol = POLICY_ACTION_ALLOW))"
  using assms(2-)
proof (induction pols arbitrary: i deny allow al)
  case (Cons pol pols)
  note below = keys_below_mono [OF Cons.prems(1), of "i + 1"] keys_below_mono [OF Cons.prems(2), of "i + 1"]
    addPolicy_below [OF Cons.prems(1), of pol "nd_ipIdentity net"] addPolicy_below [OF Cons.prems(2), of pol "nd_ipIdentity net"]
  note am = addPolicy_matches [OF assms(1) Cons.prems(1), of pol net src] addPolicy_matches [OF assms(1) Cons.prems(2), of pol net src]
  show ?case
  proof (cases "policyTargets pol service")
    case False
    with Cons.prems(3) have "rbac_tables service (nd_ipIdentity net) (i + 1) pols deny allow al = (deny', allow', al')" by simp
    from Cons.IH [OF _ _ this] below False show ?thesis by (simp add: pol_hits_def)
  next
    case True
    show ?thesis
    proof (cases "cp_action pol")
      case POLICY_ACTION_UNSPECIFIED
      with True Cons.prems(3) have "rbac_tables service (nd_ipIdentity net) (i + 1) pols deny allow al = (deny', allow', al')" by simp
      from Cons.IH [OF _ _ this] below POLICY_ACTION_UNSPECIFIED show ?thesis by (simp add: pol_hits_def)
    next
      case POLICY_ACTION_ALLOW
      with True Cons.prems(3) have "rbac_tables service (nd_ipIdentity net) (i + 1) pols deny
          (addPolicy allow i pol (nd_ipIdentity net)) True = (deny', allow', al')" by simp
      from Cons.IH [OF _ _ this] below POLICY_ACTION_ALLOW True am(2) show ?thesis by (simp add: pol_hits_def)
    next
      case POLICY_ACTION_DENY
      with True Cons.prems(3) have "rbac_tables service (nd_ipIdentity net) (i + 1) pols
          (addPolicy deny i pol (nd_ipIdentity net)) allow al = (deny', allow', al')" by simp
      from Cons.IH [OF _ _ this] below POLICY_ACTION_DENY True am(1) show ?thesis by (simp add: pol_hits_def)
    qed
  qed
qed simp

definition chain_admits :: "Envoy \<Rightarrow> Filter list \<Rightarrow> Addr \<Rightarrow> bool" where
  "chain_admits ev fs src \<longleftrightarrow> list_all (\<lambda>f. ev_passes ev (f_config f) src) fs"

lemma rbacFilters_admit:
  assumes ev: "envoy_documented ev" and run: "rbacFilters lib service net = Inr fs"
  shows "chain_admits ev fs src \<longleftrightarrow>
    \<not> (\<exists>pol \<in> set (nd_policies net). pol_hits net src service POLICY_ACTION_DENY pol) \<and>
    (\<not> (\<exists>pol \<in> set (nd_policies net). policyTargets pol service \<and> cp_action pol = POLICY_ACTION_ALLOW) \<or>
     (\<exists>pol \<in> set (nd_policies net). pol_hits net src service POLICY_ACTION_ALLOW pol))"
proof -
  obtain deny allow al where t: "rbac_tables service (nd_ipIdentity net) 0 (nd_policies net) fmempty fmempty False = (deny, allow, al)"
    by (metis prod_cases3)
  have e0: "keys_below fmempty 0" "\<not> table_matches ev fmempty src" by (simp_all add: keys_below_def table_matches_def)
  note m = rbac_tables_match [OF ev e0(1) e0(1) t, of src]
  have nodeny: "\<not> table_matches ev deny src" if "sorted_keys deny = []"
  proof -
    from that have "fmdom' deny = {}" by (metis set_sorted_keys empty_set)
    then show ?thesis by (auto simp: table_matches_def dest!: fmdom'I)
  qed
  have pd: "ev_passes ev (Any_RBAC st RBAC_DENY pols) src = (\<not> table_matches ev pols src)"
    and pa: "ev_passes ev (Any_RBAC st RBAC_ALLOW pols) src = table_matches ev pols src" for st pols
    using ev by (simp_all add: envoy_documented_def)
  have "chain_admits ev fs src \<longleftrightarrow> \<not> table_matches ev deny src \<and> (\<not> al \<or> table_matches ev allow src)"
    using run nodeny
    by (cases "sorted_keys deny = []"; cases al)
      (auto simp: rbacFilters_def t rbacFilter_def Let_def chain_admits_def pd pa split: if_splits)
  with m e0(2) show ?thesis by simp
qed

lemma Bex_Compile:
  "(\<exists>c \<in> set (Compile policies). P c) \<longleftrightarrow> (\<exists>p \<in> set policies. \<exists>r \<in> set (ps_rules (p_Spec p)). P (compileRule p r))"
  by (auto simp: Compile_def)

lemma policyTargets_compile: "policyTargets (compileRule p r) to' = ruleTargets r to'"
  by (simp add: policyTargets_def ruleTargets_def compileRule_def anyService_def)

lemma compileRule_fields: "cp_action (compileRule p r) = ps_action (p_Spec p)" "cp_from (compileRule p r) = pr_from r"
  by (simp_all add: compileRule_def)

lemma pol_hits_compile:
  assumes "sources net src = {from'}"
  shows "pol_hits net src to' act (compileRule p r) \<longleftrightarrow> ps_action (p_Spec p) = act \<and> ruleMatches r from' to'"
  unfolding pol_hits_def policyTargets_compile compileRule_fields ruleMatches_def ruleFromMatches_def assms anyService_def
  by blast

subsection \<open>Properties\<close>

text \<open>
  C24. What Envoy enforces is what the evaluator decides. Take any Envoy that behaves as its RBAC
  filter is documented, a listener the builder made for a Service from the compiled policies, and
  a source address that carries the identity of exactly one Service. The filter chain admits the
  connection exactly when \<open>Evaluate\<close> allows it on the policies themselves.
\<close>

theorem rbac_enforces_policy:
  assumes "envoy_documented ev" and "buildListener lib svc net = Inr l"
    and "nd_policies net = Compile policies" and "sources net src = {from'}"
    and "fc \<in> set (l_filterChains l)"
  shows "chain_admits ev (fc_filters fc) src \<longleftrightarrow> Allowed (Evaluate policies from' (sv_service svc))"
proof -
  from assms(2,5) obtain fs st cl t nm where
    fs: "rbacFilters lib (sv_service svc) net = Inr fs" "fc_filters fc = fs @ [\<lparr>f_name = nm, f_config = Any_TcpProxy st cl t\<rparr>]"
    by (auto simp: buildListener_def Let_def split: sum.splits if_splits)
  have "chain_admits ev (fc_filters fc) src \<longleftrightarrow> chain_admits ev fs src"
    using assms(1) by (simp add: fs(2) chain_admits_def envoy_documented_def)
  also have "\<dots> \<longleftrightarrow> admits (set policies) from' (sv_service svc)"
    unfolding rbacFilters_admit [OF assms(1) fs(1)] assms(3) admits_def Bex_Compile pol_hits_compile [OF assms(4)]
      policyTargets_compile compileRule_fields(1) denies_def allows_def allowlists_def by blast
  finally show ?thesis by (simp add: Evaluate_Allowed_iff)
qed

definition sample_matches :: "Principal \<Rightarrow> Addr \<Rightarrow> bool" where
  "sample_matches p src = (case p of Principal_Any \<Rightarrow> True | Principal_DirectRemoteIp ip n \<Rightarrow> ParseAddr ip = Some src)"

definition sample_hit :: "(string, Principal list) fmap \<Rightarrow> Addr \<Rightarrow> bool" where
  "sample_hit pols src = list_ex (\<lambda>k. list_ex (\<lambda>p. sample_matches p src) (the (fmlookup pols k))) (sorted_keys pols)"

definition sample_envoy :: Envoy where
  "sample_envoy = \<lparr>ev_matches = sample_matches,
     ev_passes = (\<lambda>c src. case c of
        Any_RBAC st act pols \<Rightarrow> (if act = RBAC_ALLOW then sample_hit pols src else \<not> sample_hit pols src)
      | _ \<Rightarrow> True)\<rparr>"

lemma sample_hit_table: "sample_hit pols src = table_matches sample_envoy pols src"
  by (force simp: sample_hit_def table_matches_def sample_envoy_def list_ex_iff fmlookup_dom'_iff)

lemma sample_envoy_documented: "envoy_documented sample_envoy"
proof -
  have "ev_matches sample_envoy = sample_matches" by (simp add: sample_envoy_def)
  moreover have "ev_passes sample_envoy (Any_RBAC st act pols) src =
      (if act = RBAC_ALLOW then table_matches sample_envoy pols src else \<not> table_matches sample_envoy pols src)"
    "ev_passes sample_envoy (Any_TcpProxy a b t) src" for st act pols src a b t
    unfolding sample_hit_table [symmetric] by (simp_all add: sample_envoy_def)
  ultimately show ?thesis by (auto simp: envoy_documented_def sample_matches_def)
qed

definition sample_net :: NetDesired where
  "sample_net = empty_NetDesired\<lparr>nd_services := [\<lparr>sv_service = ''db'', sv_vip = ''10.44.64.1'', sv_port = 80, sv_targetPort = 8080\<rparr>],
     nd_ipIdentity := fmupd (String4 170655751) ''web'' fmempty, nd_policies := Compile [sample_allow, sample_deny]\<rparr>"

definition sample_lib :: XLib where
  "sample_lib = \<lparr>xl_any = (\<lambda>_. True), xl_index = (\<lambda>_. True), xl_consistent = (\<lambda>_. True)\<rparr>"

lemma rbacFilters_total: "\<forall>c. xl_any lib c \<Longrightarrow> \<exists>fs. rbacFilters lib service net = Inr fs"
  by (cases "rbac_tables service (nd_ipIdentity net) 0 (nd_policies net) fmempty fmempty False")
    (simp add: rbacFilters_def rbacFilter_def Let_def split: prod.splits if_splits)

lemma rbac_enforces_policy_witness:
  "\<exists>l fc. buildListener sample_lib \<lparr>sv_service = ''db'', sv_vip = ''10.44.64.1'', sv_port = 80, sv_targetPort = 8080\<rparr> sample_net = Inr l \<and>
     fc \<in> set (l_filterChains l) \<and>
     chain_admits sample_envoy (fc_filters fc) (V4 170655751) = Allowed (Evaluate [sample_allow, sample_deny] ''web'' ''db'')"
proof -
  let ?svc = "\<lparr>sv_service = ''db'', sv_vip = ''10.44.64.1'', sv_port = 80, sv_targetPort = 8080\<rparr> :: ServiceVIP"
  have "\<forall>c. xl_any sample_lib c" by (simp add: sample_lib_def)
  from rbacFilters_total [OF this] obtain fs where fs: "rbacFilters sample_lib ''db'' sample_net = Inr fs" by blast
  then obtain l where l: "buildListener sample_lib ?svc sample_net = Inr l" "l_filterChains l \<noteq> []"
    by (simp add: buildListener_def Let_def sample_lib_def)
  then obtain fc where fc: "fc \<in> set (l_filterChains l)" by (meson hd_in_set)
  have src: "sources sample_net (V4 170655751) = {''web''}"
    by (auto simp: sources_def sample_net_def ParseAddr_String4)
  have pol: "nd_policies sample_net = Compile [sample_allow, sample_deny]" by (simp add: sample_net_def)
  from rbac_enforces_policy [OF sample_envoy_documented l(1) pol src fc] l fc show ?thesis by auto
qed

lemma lb_endpoints_in:
  "lb \<in> set (lb_endpoints node eps) \<longleftrightarrow> (\<exists>ep \<in> set eps. lb_health lb = healthStatus (ep_health ep) \<and>
     (if ep_node ep = [] \<or> ep_node ep = node
      then lb_address lb = socketAddress (ep_ip ep) (uint32 (ep_port ep)) \<and> lb_metadata lb = fmempty
      else 0 < ep_ingressPort ep \<and> ep_machineAddress ep \<noteq> [] \<and> lb_metadata lb = ingressMatchMetadata \<and>
        lb_address lb = socketAddress (ep_machineAddress ep) (uint32 (ep_ingressPort ep))))"
  by (induction eps) (auto simp: lbAddress_def)

text \<open>
  C25. No plaintext leaves the node. In a snapshot the builder returns, an endpoint of a load
  assignment without the mTLS tag is the pod address of an endpoint on this very node (or of one
  bound to no node); every endpoint on another node is dialled at its machine's address on its
  ingress port, carries the tag, and the tag selects the TLS 1.3 socket that presents the node
  certificate and trusts only the cluster CA. Draining endpoints are marked as such either way.
\<close>

theorem cross_node_dials_are_mtls:
  assumes "BuildSnapshot lib node version net = Inr snap" and "la \<in> set (xs_endpoints snap)"
    and "lb \<in> set (concat (cla_endpoints la))"
  shows "\<exists>g \<in> set (nd_endpoints net). \<exists>ep \<in> set (eg_endpoints g). cla_cluster la = eg_service g \<and>
    (lb_health lb = HealthStatus_DRAINING \<longleftrightarrow> ep_health ep = ENDPOINT_HEALTH_DRAINING) \<and>
    (if ep_node ep \<in> {[], node}
     then lb_metadata lb = fmempty \<and> lb_address lb = socketAddress (ep_ip ep) (uint32 (ep_port ep))
     else lb_metadata lb = ingressMatchMetadata \<and>
       lb_address lb = socketAddress (ep_machineAddress ep) (uint32 (ep_ingressPort ep)) \<and>
       (\<forall>cl \<in> set (xs_clusters snap). cl_type cl = Cluster_EDS \<longrightarrow>
          (\<exists>tm rest. cl_matches cl = tm # rest \<and> Some (tm_match tm) = fmlookup (lb_metadata lb) transportMatchMetadataKey \<and>
             ts_config (tm_socket tm) = Any_UpstreamTls commonNodeTLS)))"
proof -
  from assms(1) obtain cls ics where snap: "xs_endpoints snap = buildEndpoints node net"
    "xs_clusters snap = cls @ ics" "buildClusters lib net = Inr cls"
    "\<exists>ils. buildIngress lib (nd_ingressListeners net) = Inr (ils, ics)"
    by (auto simp: BuildSnapshot_def Let_def split: option.splits sum.splits prod.splits if_splits)
  have empties: "\<forall>la \<in> set (empty_assignments svcs seen). cla_endpoints la = []" for svcs seen
    by (induction svcs arbitrary: seen) auto
  from assms(2,3) snap(1) empties obtain g where g: "g \<in> set (nd_endpoints net)" "la = buildLoadAssignment node g"
    unfolding buildEndpoints_def by fastforce
  with assms(3) have "lb \<in> set (lb_endpoints node (eg_endpoints g))" by (simp add: buildLoadAssignment_def)
  then obtain ep where ep: "ep \<in> set (eg_endpoints g)" "lb_health lb = healthStatus (ep_health ep)"
    "if ep_node ep = [] \<or> ep_node ep = node
      then lb_address lb = socketAddress (ep_ip ep) (uint32 (ep_port ep)) \<and> lb_metadata lb = fmempty
      else 0 < ep_ingressPort ep \<and> ep_machineAddress ep \<noteq> [] \<and> lb_metadata lb = ingressMatchMetadata \<and>
        lb_address lb = socketAddress (ep_machineAddress ep) (uint32 (ep_ingressPort ep))"
    by (auto simp: lb_endpoints_in)
  have static: "cl_type cl = Cluster_STATIC" if "buildIngress lib ings = Inr (ils, ics)" "cl \<in> set ics" for ings ils ics cl
    using that
  proof (induction ings arbitrary: ils ics)
    case (Cons ing ings)
    then show ?case
      by (cases "buildIngress lib ings")
        (auto simp: buildIngressPair_def Let_def split: sum.splits if_splits prod.splits)
  qed simp
  have eds: "\<exists>tm rest. cl_matches cl = tm # rest \<and> tm_match tm = fmupd ingressMatchKey ingressMatchValue fmempty \<and>
      ts_config (tm_socket tm) = Any_UpstreamTls commonNodeTLS" if "cl \<in> set (xs_clusters snap)" "cl_type cl = Cluster_EDS" for cl
  proof -
    from that static snap(2,4) have "cl \<in> set cls" by fastforce
    with snap(3) show ?thesis
      by (auto simp: buildClusters_def transportSocketMatches_def upstreamMTLSSocket_def buildCluster_def Let_def
          split: sum.splits if_splits)
  qed
  have tag: "fmlookup ingressMatchMetadata transportMatchMetadataKey = Some (fmupd ingressMatchKey ingressMatchValue fmempty)"
    by (simp add: ingressMatchMetadata_def)
  have health: "lb_health lb = HealthStatus_DRAINING \<longleftrightarrow> ep_health ep = ENDPOINT_HEALTH_DRAINING"
    using ep(2) by (simp add: healthStatus_def)
  have "cla_cluster la = eg_service g" using g(2) by (simp add: buildLoadAssignment_def)
  with g(1) ep(1) health show ?thesis
    using ep(3) eds tag by (intro bexI [of _ g] bexI [of _ ep] conjI) (auto split: if_splits)
qed

subsection \<open>Validation and the names of the resources\<close>

lemma validateServices_None:
  "validateServices svcs seen = None \<longleftrightarrow> distinct (map sv_service svcs) \<and>
     (\<forall>s \<in> set svcs. sv_service s \<noteq> [] \<and> \<not> seen (sv_service s) \<and> ParseAddr (sv_vip s) \<noteq> None \<and> \<not> bad_port (sv_port s))"
  by (induction svcs arbitrary: seen) (auto simp: Let_def image_iff)

lemma validateEndpoints_None:
  "validateEndpoints svc eps = None \<longleftrightarrow> (\<forall>ep \<in> set eps. ParseAddr (ep_ip ep) \<noteq> None \<and> \<not> bad_port (ep_port ep) \<and>
     (ep_machineAddress ep = [] \<or> ParseAddr (ep_machineAddress ep) \<noteq> None) \<and> 0 \<le> ep_ingressPort ep \<and> ep_ingressPort ep \<le> 65535)"
  by (induction eps) auto

lemma validateEndpointGroups_None:
  "validateEndpointGroups gs seen = None \<longleftrightarrow> distinct (map eg_service gs) \<and>
     (\<forall>g \<in> set gs. \<not> seen (eg_service g) \<and> validateEndpoints (eg_service g) (eg_endpoints g) = None)"
  by (induction gs arbitrary: seen) (auto simp: image_iff)

lemma validateIngressListeners_None:
  "validateIngressListeners ings seen = None \<longleftrightarrow> distinct (map il_port ings) \<and>
     (\<forall>i \<in> set ings. il_service i \<noteq> [] \<and> \<not> bad_port (il_port i) \<and> \<not> bad_port (il_targetPort i) \<and>
        ParseAddr (il_podIp i) \<noteq> None \<and> \<not> seen (il_port i))"
  by (induction ings arbitrary: seen) (auto simp: image_iff)

lemma validateIdentity_None: "validateIdentity ips = None \<longleftrightarrow> (\<forall>ip \<in> set ips. ParseAddr ip \<noteq> None)"
  by (induction ips) auto

lemmas validate_None = validateServices_None validateEndpointGroups_None validateIngressListeners_None validateIdentity_None
  validateEndpoints_None

lemma digits_no_slash: "CHR ''/'' \<notin> set (itoa n)"
  using itoa_digits [of "CHR ''/''" n] by (auto simp: less_eq_char_def)

lemma ingress_name_inj:
  assumes "ingress_name i = ingress_name j" and "0 \<le> il_port i" and "0 \<le> il_port j"
  shows "il_port i = il_port j"
proof -
  have "rev (itoa (nat (il_port i))) @ CHR ''/'' # rev (il_service i) = rev (itoa (nat (il_port j))) @ CHR ''/'' # rev (il_service j)"
    using arg_cong [OF assms(1), of rev] assms(2,3) by (simp add: ingress_name_def itoa_int_def)
  from sep_inj [OF this] digits_no_slash have "rev (itoa (nat (il_port i))) = rev (itoa (nat (il_port j)))" by simp
  then have "nat (il_port i) = nat (il_port j)" using itoa_inj by blast
  with assms(2,3) show ?thesis by simp
qed

lemma buildListeners_names:
  "buildListeners lib net svcs = Inr ls \<Longrightarrow> map l_name ls = map (\<lambda>s. ''svc/'' @ sv_service s) svcs"
proof (induction svcs arbitrary: ls)
  case (Cons s svcs)
  then show ?case
    by (cases "buildListeners lib net svcs") (auto simp: buildListener_def Let_def split: sum.splits if_splits)
qed simp

lemma buildIngress_names:
  "buildIngress lib ings = Inr (ls, cs) \<Longrightarrow> map l_name ls = map ingress_name ings \<and> map cl_name cs = map ingress_name ings \<and>
     (\<forall>c \<in> set cs. cl_type c = Cluster_STATIC)"
proof (induction ings arbitrary: ls cs)
  case (Cons i ings)
  then show ?case
    by (cases "buildIngress lib ings") (auto simp: buildIngressPair_def Let_def split: sum.splits if_splits prod.splits)
qed simp

lemma empty_assignments_names:
  assumes "distinct (map sv_service svcs)"
  shows "map cla_cluster (empty_assignments svcs seen) = filter (\<lambda>s. \<not> seen s) (map sv_service svcs)"
  using assms
proof (induction svcs arbitrary: seen)
  case (Cons s svcs)
  then have "filter (\<lambda>n. \<not> (seen(sv_service s := True)) n) (map sv_service svcs) = filter (\<lambda>n. \<not> seen n) (map sv_service svcs)"
    by (intro filter_cong) (auto simp: image_iff)
  with Cons show ?case by auto
qed simp

text \<open>
  C26. The screen before the build rejects exactly what Envoy would refuse or the snapshot index
  would silently drop: it passes a desired state precisely when the Services are named, named once
  and have a parsable VIP and a port in 1-65535, no endpoint group is listed twice, all endpoint
  addresses parse and their ports are in range, the ingress listeners are named, in range and on
  pairwise different ports, and every identity key is an address.
\<close>

theorem validateNet_accepts_iff:
  "validateNet net = None \<longleftrightarrow>
     distinct (map sv_service (nd_services net)) \<and>
     (\<forall>s \<in> set (nd_services net). sv_service s \<noteq> [] \<and> ParseAddr (sv_vip s) \<noteq> None \<and> sv_port s \<in> {1..65535}) \<and>
     distinct (map eg_service (nd_endpoints net)) \<and>
     (\<forall>g \<in> set (nd_endpoints net). \<forall>ep \<in> set (eg_endpoints g).
        ParseAddr (ep_ip ep) \<noteq> None \<and> ep_port ep \<in> {1..65535} \<and> ep_ingressPort ep \<in> {0..65535} \<and>
        (ep_machineAddress ep = [] \<or> ParseAddr (ep_machineAddress ep) \<noteq> None)) \<and>
     distinct (map il_port (nd_ingressListeners net)) \<and>
     (\<forall>i \<in> set (nd_ingressListeners net). il_service i \<noteq> [] \<and> il_port i \<in> {1..65535} \<and>
        il_targetPort i \<in> {1..65535} \<and> ParseAddr (il_podIp i) \<noteq> None) \<and>
     (\<forall>ip \<in> fmdom' (nd_ipIdentity net). ParseAddr ip \<noteq> None)"
proof -
  have p: "\<not> bad_port p \<longleftrightarrow> p \<in> {1..65535}" for p by (auto simp: bad_port_def)
  have q: "p \<in> {0..65535} \<longleftrightarrow> 0 \<le> p \<and> p \<le> 65535" for p :: int by simp
  show ?thesis
    unfolding validateNet_def err_then_None_iff validate_None p q set_sorted_keys by blast
qed

definition sample_remote :: NetDesired where
  "sample_remote = empty_NetDesired\<lparr>
     nd_services := [\<lparr>sv_service = ''db'', sv_vip = String4 170672129, sv_port = 80, sv_targetPort = 8080\<rparr>],
     nd_endpoints := [\<lparr>eg_service = ''db'', eg_endpoints =
       [\<lparr>ep_ip = String4 170655751, ep_port = 8080, ep_node = ''n2'', ep_health = ENDPOINT_HEALTH_READY,
         ep_ingressPort = 20032, ep_machineAddress = String4 3232235777\<rparr>]\<rparr>]\<rparr>"

lemma validateNet_accepts_iff_witness:
  "validateNet sample_remote = None \<and> validateNet (sample_remote\<lparr>nd_services := []\<rparr>) = None"
  by (simp add: validateNet_accepts_iff sample_remote_def empty_NetDesired_def ParseAddr_String4)

lemma sample_remote_snapshot:
  "\<exists>snap la lb. BuildSnapshot sample_lib ''n1'' ''7'' sample_remote = Inr snap \<and> la \<in> set (xs_endpoints snap) \<and>
     lb \<in> set (concat (cla_endpoints la))"
proof -
  have v: "validateNet sample_remote = None"
    unfolding validateNet_def err_then_None_iff validate_None
    by (simp add: sample_remote_def empty_NetDesired_def ParseAddr_String4 bad_port_def)
  have any: "\<forall>c. xl_any sample_lib c" by (simp add: sample_lib_def)
  obtain fs where fs: "rbacFilters sample_lib ''db'' sample_remote = Inr fs" using rbacFilters_total [OF any] by blast
  then have ls: "\<exists>ls. buildListeners sample_lib sample_remote (nd_services sample_remote) = Inr ls"
    using any by (simp add: sample_remote_def buildListener_def Let_def)
  have ing: "buildIngress sample_lib (nd_ingressListeners sample_remote) = Inr ([], [])"
    by (simp add: sample_remote_def empty_NetDesired_def)
  have cls: "\<exists>cs. buildClusters sample_lib sample_remote = Inr cs"
    using any by (simp add: buildClusters_def transportSocketMatches_def upstreamMTLSSocket_def Let_def)
  from ls cls v ing obtain snap where snap: "BuildSnapshot sample_lib ''n1'' ''7'' sample_remote = Inr snap"
    "xs_endpoints snap = buildEndpoints ''n1'' sample_remote"
    by (auto simp: BuildSnapshot_def Let_def sample_lib_def)
  have "\<exists>la lb. la \<in> set (buildEndpoints ''n1'' sample_remote) \<and> lb \<in> set (concat (cla_endpoints la))"
    by (auto simp: buildEndpoints_def buildLoadAssignment_def sample_remote_def String4_def Let_def itoa_def)
  with snap show ?thesis by metis
qed

lemma cross_node_dials_are_mtls_witness:
  "\<exists>snap la lb g ep. BuildSnapshot sample_lib ''n1'' ''7'' sample_remote = Inr snap \<and> la \<in> set (xs_endpoints snap) \<and>
     lb \<in> set (concat (cla_endpoints la)) \<and> g \<in> set (nd_endpoints sample_remote) \<and> ep \<in> set (eg_endpoints g) \<and>
     lb_metadata lb = ingressMatchMetadata"
proof -
  from sample_remote_snapshot obtain snap la lb where
    s: "BuildSnapshot sample_lib ''n1'' ''7'' sample_remote = Inr snap" "la \<in> set (xs_endpoints snap)"
      "lb \<in> set (concat (cla_endpoints la))" by blast
  from cross_node_dials_are_mtls [OF s] obtain g ep where
    g: "g \<in> set (nd_endpoints sample_remote)" "ep \<in> set (eg_endpoints g)"
      "ep_node ep \<notin> {[], ''n1''} \<longrightarrow> lb_metadata lb = ingressMatchMetadata" by (auto split: if_splits)
  moreover from g(1,2) have "ep_node ep = ''n2''" by (auto simp: sample_remote_def)
  ultimately show ?thesis using s by auto
qed

text \<open>
  C27. Nothing in a snapshot the builder returns shadows anything else: the snapshot index keeps the
  last resource of a name, and with Service names that contain no slash all cluster names, all
  load assignment names and all listener names are pairwise different; every EDS cluster has the
  load assignment of its name, so a Service with no instance still passes.
\<close>

theorem snapshot_names_distinct:
  assumes "BuildSnapshot lib node version net = Inr snap"
    and "\<forall>s \<in> set (nd_services net). CHR ''/'' \<notin> set (sv_service s)"
  shows "distinct (map cl_name (xs_clusters snap)) \<and> distinct (map cla_cluster (xs_endpoints snap)) \<and>
    distinct (map l_name (xs_listeners snap)) \<and>
    (\<forall>cl \<in> set (xs_clusters snap). cl_type cl = Cluster_EDS \<longrightarrow> cl_name cl \<in> cla_cluster ` set (xs_endpoints snap))"
proof -
  from assms(1) obtain ls ils cls ics where run: "validateNet net = None" "buildListeners lib net (nd_services net) = Inr ls"
    "buildIngress lib (nd_ingressListeners net) = Inr (ils, ics)" "buildClusters lib net = Inr cls"
    and snap: "xs_endpoints snap = buildEndpoints node net" "xs_clusters snap = cls @ ics" "xs_listeners snap = ls @ ils"
    by (auto simp: BuildSnapshot_def Let_def split: option.splits sum.splits prod.splits if_splits)
  from run(1) have v: "distinct (map sv_service (nd_services net))" "distinct (map eg_service (nd_endpoints net))"
    "distinct (map il_port (nd_ingressListeners net))" "\<forall>i \<in> set (nd_ingressListeners net). \<not> bad_port (il_port i)"
    unfolding validateNet_def err_then_None_iff validate_None by blast+
  note ln = buildListeners_names [OF run(2)] and ing = buildIngress_names [OF run(3)]
  have cn: "map cl_name cls = map sv_service (nd_services net)"
    using run(4) by (auto simp: buildClusters_def buildCluster_def split: sum.splits)
  have "inj_on ingress_name (set (nd_ingressListeners net))"
  proof (rule inj_onI)
    fix i j assume ij: "i \<in> set (nd_ingressListeners net)" "j \<in> set (nd_ingressListeners net)" "ingress_name i = ingress_name j"
    with v(4) have "il_port i = il_port j" by (intro ingress_name_inj) (auto simp: bad_port_def)
    with ij(1,2) v(3) show "i = j" by (simp add: distinct_map inj_on_def)
  qed
  with v(3) have di: "distinct (map ingress_name (nd_ingressListeners net))" by (simp add: distinct_map)
  have "CHR ''/'' \<in> set (ingress_name i)" for i by (simp add: ingress_name_def)
  then have "sv_service ` set (nd_services net) \<inter> ingress_name ` set (nd_ingressListeners net) = {}"
    using assms(2) by auto
  then have clusters: "distinct (map cl_name (xs_clusters snap))"
    using v(1) di cn ing unfolding snap map_append by (simp only: distinct_append set_map)
  have lists: "distinct (map l_name (xs_listeners snap))"
  proof -
    have "distinct (map (\<lambda>s. ''svc/'' @ sv_service s) (nd_services net))" using v(1) by (simp add: distinct_map inj_on_def)
    moreover have "''svc/'' @ a \<noteq> ingress_name i" for a i by (simp add: ingress_name_def)
    ultimately show ?thesis using di ln ing unfolding snap map_append by (auto simp: distinct_append)
  qed
  have en: "map cla_cluster (buildEndpoints node net) = map eg_service (nd_endpoints net) @
      filter (\<lambda>s. s \<notin> set (map eg_service (nd_endpoints net))) (map sv_service (nd_services net))"
    using empty_assignments_names [OF v(1), of "\<lambda>s. s \<in> set (map eg_service (nd_endpoints net))"]
    by (simp add: buildEndpoints_def buildLoadAssignment_def comp_def)
  have "cl_name cl \<in> cla_cluster ` set (xs_endpoints snap)" if "cl \<in> set (xs_clusters snap)" "cl_type cl = Cluster_EDS" for cl
  proof -
    from that ing snap(2) have "cl \<in> set cls" by auto
    then have "cl_name cl \<in> set (map sv_service (nd_services net))" using cn by (metis image_eqI list.set_map)
    then have "cl_name cl \<in> set (map cla_cluster (buildEndpoints node net))" unfolding en by auto
    then show ?thesis by (simp add: snap(1))
  qed
  moreover have "distinct (map cla_cluster (xs_endpoints snap))"
    unfolding snap(1) en using v(1,2) by (auto simp: distinct_filter)
  ultimately show ?thesis using clusters lists by blast
qed

lemma snapshot_names_distinct_witness:
  "\<exists>snap. BuildSnapshot sample_lib ''n1'' ''7'' sample_remote = Inr snap \<and> distinct (map cl_name (xs_clusters snap)) \<and>
     distinct (map l_name (xs_listeners snap))"
proof -
  from sample_remote_snapshot obtain snap where s: "BuildSnapshot sample_lib ''n1'' ''7'' sample_remote = Inr snap" by blast
  have "\<forall>s \<in> set (nd_services sample_remote). CHR ''/'' \<notin> set (sv_service s)" by (simp add: sample_remote_def)
  from snapshot_names_distinct [OF s this] s show ?thesis by blast
qed

end
