(* ===== verification/Klite_Cluster.thy ===== *)
theory Klite_Cluster
  imports Klite_NodeController Klite_Policy
begin

text \<open>
  The API server of \<open>src/internal/server/server.go\<close> and \<open>policy.go\<close>: Apply with its sanitize,
  default, validate and merge steps, List, Watch, Delete with the node choreography, Scale,
  Uncordon and PolicyCheck. Every read-modify-write
  is \<open>cas_loop\<close>, the \<open>for range casRetries\<close> loop: read, let the body decide, write at the revision
  read, and start over when the write loses a race. gRPC statuses are \<open>Code\<close>, message texts are
  dropped except where a client sees them as data. The YAML decoder is a parameter.
\<close>

datatype Code =
  InvalidArgument | NotFound | AlreadyExists | Aborted | FailedPrecondition | Unavailable
| Unauthenticated | PermissionDenied | Unimplemented | Canceled

definition storeStatus :: "StoreErr \<Rightarrow> Code" where
  "storeStatus err = (case err of
     ErrNotFound \<Rightarrow> NotFound
   | ErrAlreadyExists \<Rightarrow> AlreadyExists
   | ErrConflict \<Rightarrow> Aborted
   | ErrBackend msg \<Rightarrow> (if ContainsStr msg ''context canceled'' then Canceled else Unavailable)
   | _ \<Rightarrow> Unavailable)"

subsection \<open>Read, modify, write\<close>

definition srv_casRetries :: nat where "srv_casRetries = 5"

text \<open>What the body of a retry loop decides on the object it read.\<close>

datatype 'r CasStep = CasDone 'r | CasWrite Object 'r

fun cas_loop ::
    "'s Store \<Rightarrow> string \<Rightarrow> string \<Rightarrow> (Object \<Rightarrow> 'r CasStep) \<Rightarrow> (StoreErr \<Rightarrow> 'r) \<Rightarrow> (StoreErr \<Rightarrow> 'r) \<Rightarrow> 'r \<Rightarrow> nat \<Rightarrow> 's \<Rightarrow> 'r \<times> 's" where
  "cas_loop S kind name body geterr puterr gaveup 0 s = (gaveup, s)"
| "cas_loop S kind name body geterr puterr gaveup (Suc n) s = (case st_Get S kind name s of
     (Inl err, s1) \<Rightarrow> (geterr err, s1)
   | (Inr (obj, rv), s1) \<Rightarrow>
     (case body obj of
        CasDone r \<Rightarrow> (r, s1)
      | CasWrite obj' r \<Rightarrow>
        (case st_Put S obj' rv s1 of
           (Inr _, s2) \<Rightarrow> (r, s2)
         | (Inl ErrConflict, s2) \<Rightarrow> cas_loop S kind name body geterr puterr gaveup n s2
         | (Inl err, s2) \<Rightarrow> (puterr err, s2))))"

text \<open>Writing through the pointers \<open>obj.GetNode()\<close>, \<open>obj.GetWorkload()\<close>, \<open>obj.GetInstance()\<close>.\<close>

fun upd_Node :: "(Node \<Rightarrow> Node) \<Rightarrow> Object \<Rightarrow> Object" where
  "upd_Node f (Object_Node n) = Object_Node (f n)"
| "upd_Node f o' = o'"

fun upd_Workload :: "(Workload \<Rightarrow> Workload) \<Rightarrow> Object \<Rightarrow> Object" where
  "upd_Workload f (Object_Workload w) = Object_Workload (f w)"
| "upd_Workload f o' = o'"

definition labels_pending :: "Object \<Rightarrow> bool" where
  "labels_pending obj \<longleftrightarrow> getm [] (fmlookup (m_labels (MetaOf obj)) LabelPendingDelete) = ''true''"

subsection \<open>Uncordon, Delete, Scale\<close>

definition uncordon_body :: "Object \<Rightarrow> (Code + unit) CasStep" where
  "uncordon_body obj =
     (if labels_pending obj then CasDone (Inl FailedPrecondition)
      else
        (let st = n_Status (GetNode obj) in
         if \<not> nst_unschedulable st \<and> nst_phase st \<noteq> NODE_PHASE_DRAINING then CasDone (Inr ())
         else
           (let st1 = st\<lparr>nst_unschedulable := False\<rparr>;
                st2 = (if nst_phase st1 = NODE_PHASE_DRAINING then st1\<lparr>nst_phase := NODE_PHASE_READY\<rparr> else st1)
            in CasWrite (upd_Node (\<lambda>n. n\<lparr>n_status := Some st2\<rparr>) obj) (Inr ()))))"

definition Uncordon :: "'s Store \<Rightarrow> string \<Rightarrow> 's \<Rightarrow> (Code + unit) \<times> 's" where
  "Uncordon S name s =
     (if name = [] then (Inl InvalidArgument, s)
      else cas_loop S KindNode name uncordon_body (\<lambda>e. Inl (storeStatus e)) (\<lambda>e. Inl (storeStatus e)) (Inl Aborted) srv_casRetries s)"

datatype DeleteErr = DeleteStore StoreErr | DeleteAborted

definition deletePending :: string where "deletePending = ''draining (delete pending)''"

definition mark_delete_body :: "Object \<Rightarrow> (DeleteErr + string) CasStep" where
  "mark_delete_body obj =
     (if labels_pending obj then CasDone (Inr deletePending)
      else
        (let obj1 = upd_Meta (\<lambda>m. m\<lparr>m_labels := fmupd LabelPendingDelete ''true'' (m_labels m)\<rparr>) obj;
             obj2 = upd_Node (\<lambda>n. n\<lparr>n_status := Some ((n_Status n)\<lparr>nst_unschedulable := True,
                       nst_phase := NODE_PHASE_DRAINING\<rparr>)\<rparr>) obj1
         in CasWrite obj2 (Inr deletePending)))"

definition markNodeForDelete :: "'s Store \<Rightarrow> string \<Rightarrow> 's \<Rightarrow> (DeleteErr + string) \<times> 's" where
  "markNodeForDelete S name s =
     cas_loop S KindNode name mark_delete_body (\<lambda>e. Inl (DeleteStore e)) (\<lambda>e. Inl (DeleteStore e)) (Inl DeleteAborted) srv_casRetries s"

definition deleteOne :: "'s Store \<Rightarrow> string \<Rightarrow> string \<Rightarrow> 's \<Rightarrow> (DeleteErr + string) \<times> 's" where
  "deleteOne S kind name s =
     (if kind = KindNode then markNodeForDelete S name s
      else case st_Delete S kind name s of
        (Inl err, s') \<Rightarrow> (Inl (DeleteStore err), s')
      | (Inr _, s') \<Rightarrow> (Inr ''deleted'', s'))"

text \<open>\<open>storeStatus\<close> of an error of \<open>deleteOne\<close>: a status error passes none of its tests.\<close>

definition deleteStatus :: "DeleteErr \<Rightarrow> Code" where
  "deleteStatus e = (case e of DeleteStore err \<Rightarrow> storeStatus err | DeleteAborted \<Rightarrow> Unavailable)"

definition scale_body :: "int \<Rightarrow> Object \<Rightarrow> (Code + unit) CasStep" where
  "scale_body replicas obj =
     (if ws_replicas (w_Spec (GetWorkload obj)) = replicas then CasDone (Inr ())
      else CasWrite (upd_Workload (\<lambda>w. w\<lparr>w_spec := Some ((w_Spec w)\<lparr>ws_replicas := replicas\<rparr>)\<rparr>) obj) (Inr ()))"

definition Scale :: "'s Store \<Rightarrow> string \<Rightarrow> int \<Rightarrow> 's \<Rightarrow> (Code + unit) \<times> 's" where
  "Scale S workload replicas s =
     (if workload = [] then (Inl InvalidArgument, s)
      else if replicas < 0 then (Inl InvalidArgument, s)
      else cas_loop S KindWorkload workload (scale_body replicas) (\<lambda>e. Inl (storeStatus e)) (\<lambda>e. Inl (storeStatus e))
             (Inl Aborted) srv_casRetries s)"

subsection \<open>Apply\<close>

datatype ApplyErr = ReadOnlyKind string | Invalid ValidateErr | StoreFailed StoreErr | RacesLost

record ApplyResult =
  ar_kind :: string
  ar_name :: string
  ar_action :: string
  ar_error :: "ApplyErr option"

fun drop_status :: "Object \<Rightarrow> Object \<times> bool" where
  "drop_status (Object_Workload w) = (Object_Workload (w\<lparr>w_status := None\<rparr>), w_status w \<noteq> None)"
| "drop_status (Object_Node n) = (Object_Node (n\<lparr>n_status := None\<rparr>), n_status n \<noteq> None)"
| "drop_status (Object_Instance i) = (Object_Instance (i\<lparr>i_status := None\<rparr>), i_status i \<noteq> None)"
| "drop_status o' = (o', False)"

definition sanitize :: "Object \<Rightarrow> Object \<times> bool" where
  "sanitize o' = drop_status (upd_Meta (\<lambda>m. m\<lparr>m_uid := [], m_resourceVersion := 0, m_createdUnix := 0\<rparr>) o')"

fun merge_spec :: "Object \<Rightarrow> Object \<Rightarrow> Object" where
  "merge_spec (Object_Workload w) incoming = Object_Workload (w\<lparr>w_spec := w_spec (GetWorkload incoming)\<rparr>)"
| "merge_spec (Object_Service s) incoming = Object_Service (s\<lparr>s_spec := s_spec (GetService incoming)\<rparr>)"
| "merge_spec (Object_Node n) incoming = Object_Node (n\<lparr>n_spec := n_spec (GetNode incoming)\<rparr>)"
| "merge_spec (Object_NetworkPolicy p) incoming = Object_NetworkPolicy (p\<lparr>p_spec := p_spec (GetNetworkPolicy incoming)\<rparr>)"
| "merge_spec (Object_Instance i) incoming = Object_Instance (i\<lparr>i_spec := i_spec (GetInstance incoming)\<rparr>)"
| "merge_spec o' incoming = o'"

definition mergeSpec :: "Object \<Rightarrow> Object \<Rightarrow> Object" where
  "mergeSpec existing incoming =
     merge_spec (upd_Meta (\<lambda>m. m\<lparr>m_labels := m_labels (MetaOf incoming)\<rparr>) existing) incoming"

text \<open>The retry loop of \<open>applyOne\<close>: create when absent, write the merge when it differs.\<close>

fun apply_loop :: "'s Store \<Rightarrow> string \<Rightarrow> string \<Rightarrow> Object \<Rightarrow> nat \<Rightarrow> 's \<Rightarrow> (ApplyErr + string) \<times> 's" where
  "apply_loop S kind name o' 0 s = (Inl RacesLost, s)"
| "apply_loop S kind name o' (Suc n) s = (case st_Get S kind name s of
     (Inl ErrNotFound, s1) \<Rightarrow>
       (case st_Put S o' RevCreate s1 of
          (Inl ErrAlreadyExists, s2) \<Rightarrow> apply_loop S kind name o' n s2
        | (Inl err, s2) \<Rightarrow> (Inl (StoreFailed err), s2)
        | (Inr _, s2) \<Rightarrow> (Inr ''created'', s2))
   | (Inl err, s1) \<Rightarrow> (Inl (StoreFailed err), s1)
   | (Inr (existing, rv), s1) \<Rightarrow>
     (let merged = mergeSpec existing o' in
      if merged = existing then (Inr ''unchanged'', s1)
      else case st_Put S merged rv s1 of
          (Inl ErrConflict, s2) \<Rightarrow> apply_loop S kind name o' n s2
        | (Inl err, s2) \<Rightarrow> (Inl (StoreFailed err), s2)
        | (Inr _, s2) \<Rightarrow> (Inr ''updated'', s2)))"

definition readOnlyKind :: "string \<Rightarrow> bool" where
  "readOnlyKind kind \<longleftrightarrow> kind = KindInstance \<or> kind = KindVIPAllocation \<or> kind = KindIngressAllocation"

definition applyOne :: "'s Store \<Rightarrow> Object \<Rightarrow> 's \<Rightarrow> ApplyResult \<times> 's" where
  "applyOne S o0 s =
     (let kind = KindOf o0; name = m_name (MetaOf o0);
          res = \<lparr>ar_kind = kind, ar_name = name, ar_action = [], ar_error = None\<rparr> in
      if readOnlyKind kind then (res\<lparr>ar_error := Some (ReadOnlyKind kind)\<rparr>, s)
      else
        (let (o1, dropped) = sanitize o0; o2 = Default o1 in
         case Validate o2 of
           Some err \<Rightarrow> (res\<lparr>ar_error := Some (Invalid err)\<rparr>, s)
         | None \<Rightarrow>
           (case apply_loop S kind name o2 srv_casRetries s of
              (Inl err, s') \<Rightarrow> (res\<lparr>ar_error := Some err\<rparr>, s')
            | (Inr action, s') \<Rightarrow>
                (res\<lparr>ar_action := (if dropped then action @ '' (client status ignored)'' else action)\<rparr>, s'))))"

fun applyAll :: "'s Store \<Rightarrow> Object list \<Rightarrow> 's \<Rightarrow> ApplyResult list \<times> 's" where
  "applyAll S [] s = ([], s)"
| "applyAll S (o' # os) s =
     (let (res, s1) = applyOne S o' s; (rest, s2) = applyAll S os s1 in (res # rest, s2))"

definition Apply :: "(string \<Rightarrow> Object list option) \<Rightarrow> 's Store \<Rightarrow> string \<Rightarrow> 's \<Rightarrow> (Code + ApplyResult list) \<times> 's" where
  "Apply decode S yaml s = (case decode yaml of
     None \<Rightarrow> (Inl InvalidArgument, s)
   | Some [] \<Rightarrow> (Inl InvalidArgument, s)
   | Some objs \<Rightarrow> (let (rs, s') = applyAll S objs s in (Inr rs, s')))"

subsection \<open>List, Watch, Delete, PolicyCheck\<close>

definition srv_List :: "'s Store \<Rightarrow> string \<Rightarrow> string \<Rightarrow> 's \<Rightarrow> (Code + Object list) \<times> 's" where
  "srv_List S reqKind name s = (case Canonical reqKind of
     None \<Rightarrow> (Inl InvalidArgument, s)
   | Some kind \<Rightarrow>
     if name \<noteq> [] then
       (case st_Get S kind name s of
          (Inl err, s') \<Rightarrow> (Inl (storeStatus err), s')
        | (Inr (obj, _), s') \<Rightarrow> (Inr [obj], s'))
     else
       (case st_List S kind s of
          (Inl err, s') \<Rightarrow> (Inl (storeStatus err), s')
        | (Inr (objs, _), s') \<Rightarrow> (Inr objs, s')))"

text \<open>
  A watch relays the store's events in order until one carries an error or the client's stream
  refuses a message; \<open>accepts\<close> is how many messages the client's side still takes, and \<open>ctxErr\<close>
  what the context reports once the channel is closed.
\<close>

record WatchEvent =
  we_type :: nat
  we_object :: "Object option"
  we_revision :: int
  we_err :: "string option"

datatype StreamEnd = EndStatus Code | EndSend | EndContext "string option"

fun watch_relay :: "nat \<Rightarrow> string option \<Rightarrow> WatchEvent list \<Rightarrow> WatchEvent list \<times> StreamEnd" where
  "watch_relay accepts ctxErr [] = ([], EndContext ctxErr)"
| "watch_relay accepts ctxErr (ev # evs) =
     (if we_err ev \<noteq> None then ([], EndStatus Unavailable)
      else case accepts of
        0 \<Rightarrow> ([], EndSend)
      | Suc n \<Rightarrow> (let (sent, e) = watch_relay n ctxErr evs in (ev\<lparr>we_err := None\<rparr> # sent, e)))"

definition srv_Watch ::
    "(string list \<Rightarrow> int \<Rightarrow> StoreErr + WatchEvent list) \<Rightarrow> nat \<Rightarrow> string option \<Rightarrow> string list \<Rightarrow> int \<Rightarrow> WatchEvent list \<times> StreamEnd" where
  "srv_Watch storeWatch accepts ctxErr kinds from' =
     (if \<exists>k \<in> set kinds. Canonical k = None then ([], EndStatus InvalidArgument)
      else case storeWatch kinds from' of
        Inl err \<Rightarrow> ([], EndStatus (storeStatus err))
      | Inr events \<Rightarrow> watch_relay accepts ctxErr events)"

record DeleteResult =
  dr_kind :: string
  dr_name :: string
  dr_action :: string
  dr_error :: "DeleteErr option"

fun srv_deleteAll :: "'s Store \<Rightarrow> Object list \<Rightarrow> 's \<Rightarrow> DeleteResult list \<times> 's" where
  "srv_deleteAll S [] s = ([], s)"
| "srv_deleteAll S (o' # os) s =
     (let kind = KindOf o'; name = m_name (MetaOf o');
          (r, s1) = deleteOne S kind name s;
          res = (case r of
              Inl err \<Rightarrow> \<lparr>dr_kind = kind, dr_name = name, dr_action = [], dr_error = Some err\<rparr>
            | Inr action \<Rightarrow> \<lparr>dr_kind = kind, dr_name = name, dr_action = action, dr_error = None\<rparr>);
          (rest, s2) = srv_deleteAll S os s1
      in (res # rest, s2))"

definition srv_Delete ::
    "(string \<Rightarrow> Object list option) \<Rightarrow> 's Store \<Rightarrow> string \<Rightarrow> string \<Rightarrow> string \<Rightarrow> 's \<Rightarrow> (Code + DeleteResult list) \<times> 's" where
  "srv_Delete decode S yaml reqKind name s =
     (if yaml \<noteq> [] then
        (case decode yaml of
           None \<Rightarrow> (Inl InvalidArgument, s)
         | Some objs \<Rightarrow> (let (rs, s') = srv_deleteAll S objs s in (Inr rs, s')))
      else case Canonical reqKind of
        None \<Rightarrow> (Inl InvalidArgument, s)
      | Some kind \<Rightarrow>
        if name = [] then (Inl InvalidArgument, s)
        else (case deleteOne S kind name s of
            (Inl err, s') \<Rightarrow> (Inl (deleteStatus err), s')
          | (Inr action, s') \<Rightarrow>
              (Inr [\<lparr>dr_kind = kind, dr_name = name, dr_action = action, dr_error = None\<rparr>], s')))"

definition PolicyCheck :: "'s Store \<Rightarrow> string \<Rightarrow> string \<Rightarrow> 's \<Rightarrow> (Code + Decision) \<times> 's" where
  "PolicyCheck S from' to' s =
     (if from' = [] \<or> to' = [] then (Inl InvalidArgument, s)
      else case st_List S KindNetworkPolicy s of
        (Inl err, s') \<Rightarrow> (Inl (storeStatus err), s')
      | (Inr (objs, _), s') \<Rightarrow> (Inr (Evaluate (map GetNetworkPolicy objs) from' to'), s'))"

subsection \<open>What a retry loop does to the store\<close>

lemma keep_key [simp]:
  "KindOf (upd_Node f x) = KindOf x" "KindOf (upd_Workload g x) = KindOf x"
  by (cases x; simp)+

lemma upd_Node_name [simp]: "(\<And>n. n_meta (f n) = n_meta n) \<Longrightarrow> MetaOf (upd_Node f x) = MetaOf x"
  by (cases x) simp_all

lemma upd_Workload_name [simp]:
  "(\<And>w. w_meta (f w) = w_meta w) \<Longrightarrow> MetaOf (upd_Workload f x) = MetaOf x"
  by (cases x) simp_all

lemma stampedE:
  assumes "stamped y v x"
  obtains u c where "x = upd_Meta (\<lambda>m. m\<lparr>m_uid := u, m_createdUnix := c, m_resourceVersion := v\<rparr>) y"
    and "m_uid (MetaOf y) \<noteq> [] \<Longrightarrow> u = m_uid (MetaOf y)"
    and "m_createdUnix (MetaOf y) \<noteq> 0 \<Longrightarrow> c = m_createdUnix (MetaOf y)"
  using assms unfolding stamped_def by blast

definition body_keeps_key :: "(Object \<Rightarrow> 'r CasStep) \<Rightarrow> string \<Rightarrow> bool" where
  "body_keeps_key body k \<longleftrightarrow> (\<forall>x y r. KindOf x = k \<longrightarrow> body x = CasWrite y r \<longrightarrow> key_of y = key_of x)"

lemma body_keeps_keyD: "body_keeps_key body k \<Longrightarrow> KindOf x = k \<Longrightarrow> body x = CasWrite y r \<Longrightarrow> key_of y = key_of x"
  by (simp add: body_keeps_key_def)

context store_contract
begin

text \<open>
  Whatever the store answers on the way, a retry loop ends in one of two ways: the store's
  contents are untouched, and the result is an error or what the body said of the stored object;
  or exactly one entry changed, the one read, to what the body made of it.
\<close>

definition cas_effect ::
    "string \<Rightarrow> string \<Rightarrow> (Object \<Rightarrow> 'r CasStep) \<Rightarrow> 'r set \<Rightarrow> 's \<Rightarrow> 'r \<Rightarrow> 's \<Rightarrow> bool" where
  "cas_effect k n body errs s r s' \<longleftrightarrow> ok s' \<and>
     (view s' = view s \<and> (r \<in> errs \<or> (\<exists>x v. view s (k, n) = Some (x, v) \<and> body x = CasDone r))
      \<or> (\<exists>x v y w x'. view s (k, n) = Some (x, v) \<and> body x = CasWrite y r \<and> stamped y w x' \<and>
           view s' = (view s)((k, n) \<mapsto> (x', w))))"

lemma cas_effect_view: "cas_effect k n body errs s r s' \<Longrightarrow> view t = view s \<Longrightarrow> cas_effect k n body errs t r s'"
  by (simp add: cas_effect_def)

lemma cas_loop_effect:
  assumes "ok s" and "k \<in> set Kinds" and "body_keeps_key body k"
  shows "cas_loop S k n body geterr puterr gaveup fuel s = (r, s') \<Longrightarrow>
    cas_effect k n body (range geterr \<union> range puterr \<union> {gaveup}) s r s'"
  using assms(1)
proof (induction fuel arbitrary: s)
  case 0
  then show ?case by (simp add: cas_effect_def)
next
  case (Suc fuel)
  obtain g s1 where g: "st_Get S k n s = (g, s1)" by fastforce
  from get_frame [OF Suc.prems(2) g] have s1: "ok s1" "view s1 = view s" by auto
  show ?case
  proof (cases g)
    case (Inl e)
    with Suc.prems g s1 show ?thesis by (auto simp: cas_effect_def)
  next
    case (Inr xv)
    obtain x v where xv: "xv = (x, v)" by fastforce
    from get_found [OF Suc.prems(2) g [unfolded Inr xv]] Canonical_kind [OF assms(2)]
    have x: "view s (k, n) = Some (x, v)" by auto
    from view_ok [OF Suc.prems(2) x] have kx: "KindOf x = k" "object_name x = n" by auto
    show ?thesis
    proof (cases "body x")
      case (CasDone r')
      with Suc.prems g s1 x Inr xv show ?thesis by (auto simp: cas_effect_def)
    next
      case (CasWrite y r')
      obtain p s2 where p: "st_Put S y v s1 = (p, s2)" by fastforce
      have key: "key_of y = (k, n)"
        using body_keeps_keyD [OF assms(3) kx(1) CasWrite] kx by (simp add: key_of_def)
      show ?thesis
      proof (cases p)
        case (Inr w)
        with Suc.prems g p CasWrite \<open>g = Inr xv\<close> xv have "r = r'" "s' = s2" by auto
        with put_done [OF s1(1) p [unfolded Inr]] key x s1 CasWrite show ?thesis
          unfolding cas_effect_def by auto
      next
        case (Inl e)
        from put_refused [OF s1(1) p [unfolded Inl]] s1 have s2: "ok s2" "view s2 = view s" by auto
        show ?thesis
        proof (cases "e = ErrConflict")
          case True
          with Suc.prems g p CasWrite \<open>g = Inr xv\<close> xv Inl
          have "cas_loop S k n body geterr puterr gaveup fuel s2 = (r, s')" by simp
          from cas_effect_view [OF Suc.IH [OF this s2(1)] s2(2) [symmetric]] show ?thesis .
        next
          case False
          with Suc.prems g p CasWrite \<open>g = Inr xv\<close> xv Inl have "r = puterr e" "s' = s2"
            by (auto split: StoreErr.splits)
          with s2 show ?thesis by (simp add: cas_effect_def)
        qed
      qed
    qed
  qed
qed

end

context reliable_store
begin

text \<open>On a store that fails only where its contract says so, the first attempt settles it.\<close>

lemma cas_loop_absent:
  assumes "ok s" and "k \<in> set Kinds" and "valid_name n" and "view s (k, n) = None"
  shows "fst (cas_loop S k n body geterr puterr gaveup (Suc fuel) s) = geterr ErrNotFound"
proof -
  from get_total [OF assms(1-3)] assms(4) have "fst (st_Get S k n s) = Inl ErrNotFound" by simp
  then show ?thesis by (cases "st_Get S k n s") simp
qed

lemma cas_loop_done:
  assumes "ok s" and "k \<in> set Kinds" and "view s (k, n) = Some (x, v)" and "body x = CasDone r"
  shows "fst (cas_loop S k n body geterr puterr gaveup (Suc fuel) s) = r"
proof -
  from view_ok [OF assms(1,3)] have "valid_name n" by simp
  with get_total [OF assms(1,2)] assms(3) have "fst (st_Get S k n s) = Inr (x, v)" by simp
  with assms(4) show ?thesis by (cases "st_Get S k n s") simp
qed

lemma cas_loop_write:
  assumes "ok s" and "k \<in> set Kinds" and "view s (k, n) = Some (x, v)" and "body x = CasWrite y r"
    and "key_of y = key_of x"
  shows "\<exists>x' w s'. cas_loop S k n body geterr puterr gaveup (Suc fuel) s = (r, s') \<and> ok s' \<and>
    stamped y w x' \<and> view s' = (view s)((k, n) \<mapsto> (x', w))"
proof -
  from view_ok [OF assms(1,3)] have x: "valid_name n" "KindOf x = k" "object_name x = n" "0 < v"
    by auto
  from get_total [OF assms(1,2) x(1)] assms(3) obtain s1 where
    g: "st_Get S k n s = (Inr (x, v), s1)" by (cases "st_Get S k n s") auto
  from get_frame [OF assms(1) g] have s1: "ok s1" "view s1 = view s" by auto
  from assms(2) x(2) have "x \<noteq> Object_Empty" by (auto simp: Kinds_def kind_defs)
  moreover have ky: "KindOf y = k" "object_name y = n" using assms(5) x by (auto simp: key_of_def)
  ultimately have "y \<noteq> Object_Empty" using x(2) by (metis KindOf_empty_iff)
  with put_total [OF s1(1), of y v] ky x s1(2) assms(3)
  obtain w s2 where p: "st_Put S y v s1 = (Inr w, s2)"
    by (cases "st_Put S y v s1") (auto simp: key_of_def)
  from put_done [OF s1(1) p] ky s1(2) show ?thesis
    using g p assms(4) by (auto simp: key_of_def)
qed

end

subsection \<open>Apply against its specification\<close>

text \<open>What a client asks for once the server-owned fields are gone and the defaults filled in.\<close>

definition desired :: "Object \<Rightarrow> Object" where
  "desired o' = Default (fst (sanitize o'))"

text \<open>The part of an object a manifest owns, and the part the controllers own.\<close>

fun spec_part :: "Object \<Rightarrow> Object" where
  "spec_part (Object_Workload a) = Object_Workload (zero_Workload\<lparr>w_spec := w_spec a\<rparr>)"
| "spec_part (Object_Service a) = Object_Service (zero_Service\<lparr>s_spec := s_spec a\<rparr>)"
| "spec_part (Object_Node a) = Object_Node (zero_Node\<lparr>n_spec := n_spec a\<rparr>)"
| "spec_part (Object_NetworkPolicy a) = Object_NetworkPolicy (zero_NetworkPolicy\<lparr>p_spec := p_spec a\<rparr>)"
| "spec_part a = Object_Empty"

fun status_part :: "Object \<Rightarrow> Object" where
  "status_part (Object_Workload a) = Object_Workload (zero_Workload\<lparr>w_status := w_status a\<rparr>)"
| "status_part (Object_Node a) = Object_Node (zero_Node\<lparr>n_status := n_status a\<rparr>)"
| "status_part a = Object_Empty"

fun no_status :: "Object \<Rightarrow> bool" where
  "no_status (Object_Workload a) \<longleftrightarrow> w_status a = None"
| "no_status (Object_Node a) \<longleftrightarrow> n_status a = None"
| "no_status (Object_Instance a) \<longleftrightarrow> i_status a = None"
| "no_status a \<longleftrightarrow> True"

lemma drop_status_fields [simp]:
  "KindOf (fst (drop_status x)) = KindOf x" "MetaOf (fst (drop_status x)) = MetaOf x"
  "no_status (fst (drop_status x))"
  by (cases x; simp)+

lemma no_status_Default [simp]: "no_status (Default x) = no_status x"
  by (cases x) (simp_all add: defaultWorkload_def defaultNode_def Let_def)

lemma desired_kind [simp]: "KindOf (desired o') = KindOf o'"
  by (simp add: desired_def sanitize_def)

lemma desired_meta [simp]:
  "m_name (MetaOf (desired o')) = m_name (MetaOf o')"
  "m_labels (MetaOf (desired o')) = m_labels (MetaOf o')"
  by (cases "o' = Object_Empty"; simp add: desired_def sanitize_def)+

lemma desired_key [simp]: "object_name (desired o') = object_name o'" "key_of (desired o') = key_of o'"
  by (simp_all add: object_name_def key_of_def)

lemma desired_no_status: "no_status (desired o')"
  by (simp add: desired_def sanitize_def)

lemma upd_Meta_parts [simp]:
  "spec_part (upd_Meta f a) = spec_part a" "status_part (upd_Meta f a) = status_part a"
  "no_status (upd_Meta f a) = no_status a"
  by (cases a; simp)+

lemma wf_kind_Meta [simp]: "wf_kind (upd_Meta f a) = wf_kind a"
  by (cases a) simp_all

lemma wf_object_Meta:
  "m_name (f (MetaOf x)) = m_name (MetaOf x) \<Longrightarrow> m_labels (f (MetaOf x)) = m_labels (MetaOf x) \<Longrightarrow>
   wf_object (upd_Meta f x) = wf_object x"
  by (cases "x = Object_Empty") (simp_all add: wf_object_def)

lemma stamped_parts:
  assumes "stamped y v x"
  shows "spec_part x = spec_part y" "status_part x = status_part y" "no_status x = no_status y"
    "wf_object x = wf_object y"
  using assms by (auto elim!: stampedE simp: wf_object_Meta)

lemma stamped_meta:
  assumes "stamped y v x" and "y \<noteq> Object_Empty"
  shows "m_name (MetaOf x) = m_name (MetaOf y)" "m_labels (MetaOf x) = m_labels (MetaOf y)"
    "m_uid (MetaOf y) \<noteq> [] \<Longrightarrow> m_uid (MetaOf x) = m_uid (MetaOf y)"
    "m_createdUnix (MetaOf y) \<noteq> 0 \<Longrightarrow> m_createdUnix (MetaOf x) = m_createdUnix (MetaOf y)"
  using assms by (auto elim!: stampedE)

definition user_object :: "Object \<Rightarrow> bool" where
  "user_object o' \<longleftrightarrow> \<not> readOnlyKind (KindOf o') \<and> o' \<noteq> Object_Empty"

lemma user_objectE:
  assumes "user_object o'"
  obtains (w) w where "o' = Object_Workload w" | (s) s where "o' = Object_Service s"
    | (n) n where "o' = Object_Node n" | (p) p where "o' = Object_NetworkPolicy p"
  using assms by (cases o') (auto simp: user_object_def readOnlyKind_def)

lemmas zero_kinds = zero_Workload_def zero_Service_def zero_Node_def zero_NetworkPolicy_def

lemma merge_user:
  assumes "KindOf x = KindOf d" and "user_object d"
  shows "spec_part (mergeSpec x d) = spec_part d" "status_part (mergeSpec x d) = status_part x"
    "KindOf (mergeSpec x d) = KindOf d"
    "MetaOf (mergeSpec x d) = (MetaOf x)\<lparr>m_labels := m_labels (MetaOf d)\<rparr>"
  using assms(2,1) by (cases rule: user_objectE; cases x; simp add: mergeSpec_def kind_defs)+

lemma wf_object_spec:
  assumes "spec_part x = spec_part d" and "user_object d" and "m_name (MetaOf x) = m_name (MetaOf d)"
    and "m_labels (MetaOf x) = m_labels (MetaOf d)"
  shows "wf_object x = wf_object d"
  using assms(2,1,3,4)
  by (cases rule: user_objectE; cases x) (simp_all add: wf_object_def zero_kinds)

lemma upd_Meta_same:
  assumes "f (MetaOf x) = MetaOf x" and "m_name (MetaOf x) \<noteq> []"
  shows "upd_Meta f x = x"
proof -
  have some: "m_name (getm zero_Meta m) \<noteq> [] \<Longrightarrow> Some (getm zero_Meta m) = m" for m
    by (cases m) (auto simp: zero_Meta_def)
  show ?thesis
    using assms by (cases x) (auto simp: some intro!: Workload.equality Service.equality Node.equality
        NetworkPolicy.equality Instance.equality VIPAllocation.equality IngressAllocation.equality)
qed

lemma merge_fixpoint:
  assumes "spec_part x = spec_part d" and "user_object d" and "m_labels (MetaOf x) = m_labels (MetaOf d)"
    and "m_name (MetaOf x) \<noteq> []"
  shows "mergeSpec x d = x"
proof -
  have "upd_Meta (\<lambda>m. m\<lparr>m_labels := m_labels (MetaOf d)\<rparr>) x = x"
    by (rule upd_Meta_same) (simp_all add: assms(4) assms(3) [symmetric])
  with assms(2,1) show ?thesis
    by (cases rule: user_objectE; cases x) (simp_all add: mergeSpec_def zero_kinds)
qed

text \<open>
  The whole of \<open>applyOne\<close> on the view of the store: which result goes with which change of the
  one entry the manifest names.
\<close>

definition applied :: "Object \<Rightarrow> (Object \<times> int) option \<Rightarrow> string \<Rightarrow> Object \<Rightarrow> bool" where
  "applied d before action x' \<longleftrightarrow> (case before of
     None \<Rightarrow> action = ''created'' \<and> (\<exists>w. stamped d w x')
   | Some (x, v) \<Rightarrow>
       if mergeSpec x d = x then action = ''unchanged'' \<and> x' = x
       else action = ''updated'' \<and> (\<exists>w. stamped (mergeSpec x d) w x'))"

context store_contract
begin

definition apply_effect :: "Object \<Rightarrow> 's \<Rightarrow> ApplyErr + string \<Rightarrow> 's \<Rightarrow> bool" where
  "apply_effect d s r s' \<longleftrightarrow> ok s' \<and> (\<forall>q. q \<noteq> key_of d \<longrightarrow> view s' q = view s q) \<and>
     (case r of
        Inl e \<Rightarrow> view s' = view s
      | Inr action \<Rightarrow> (\<exists>x' w. view s' (key_of d) = Some (x', w) \<and> applied d (view s (key_of d)) action x'))"

lemma apply_effect_view: "view t = view s \<Longrightarrow> apply_effect d t r s' = apply_effect d s r s'"
  unfolding apply_effect_def by (simp cong: sum.case_cong)

lemma apply_effect_error: "ok s' \<Longrightarrow> view s' = view s \<Longrightarrow> apply_effect d s (Inl e) s'"
  by (simp add: apply_effect_def)

text \<open>The write at the end of either arm: it lands with the action, or the store is as before.\<close>

lemma apply_put:
  assumes "ok t" and "view t = view s" and "st_Put S y v t = (p, u)" and "key_of y = key_of d"
    and "\<And>w x'. stamped y w x' \<Longrightarrow> applied d (view s (key_of d)) action x'"
  shows "(\<exists>w. p = Inr w) \<and> apply_effect d s (Inr action) u \<or> (\<exists>e. p = Inl e) \<and> ok u \<and> view u = view s"
proof (cases p)
  case (Inl e)
  with put_refused [OF assms(1), of y v e u] assms(2,3) show ?thesis by simp
next
  case (Inr w)
  with put_done [OF assms(1), of y v w u] assms(3) obtain x' where
    "ok u" "stamped y w x'" "view u = (view t)(key_of y \<mapsto> (x', w))" by blast
  with assms(2,4,5) Inr show ?thesis by (auto simp: apply_effect_def)
qed

lemma apply_loop_effect:
  assumes "ok s" and "user_object d"
  shows "apply_loop S (KindOf d) (object_name d) d fuel s = (r, s') \<Longrightarrow> apply_effect d s r s'"
  using assms(1)
proof (induction fuel arbitrary: s)
  case 0
  then show ?case by (auto simp: apply_effect_error)
next
  case (Suc fuel)
  have kd: "Canonical (KindOf d) = Some (KindOf d)" using assms(2) by (simp add: user_object_def)
  have again: "apply_loop S (KindOf d) (object_name d) d fuel t = (r, s') \<Longrightarrow> ok t \<Longrightarrow> view t = view s \<Longrightarrow>
      apply_effect d s r s'" for t
    using Suc.IH [of t] apply_effect_view [of t s d r s'] by blast
  obtain g s1 where g: "st_Get S (KindOf d) (object_name d) s = (g, s1)" by fastforce
  from get_frame [OF Suc.prems(2) g] have s1: "ok s1" "view s1 = view s" by auto
  consider (absent) "g = Inl ErrNotFound" | (failed) e where "g = Inl e" "e \<noteq> ErrNotFound"
    | (found) x v where "g = Inr (x, v)" by (cases g) auto
  then show ?case
  proof cases
    case failed
    with Suc.prems g have "r = Inl (StoreFailed e)" "s' = s1" by (auto split: StoreErr.splits)
    with s1 show ?thesis by (simp add: apply_effect_error)
  next
    case absent
    with get_absent [OF Suc.prems(2), of "KindOf d" "object_name d" s1] g kd
    have none: "view s (key_of d) = None" by (auto simp: key_of_def)
    obtain p s2 where p: "st_Put S d RevCreate s1 = (p, s2)" by fastforce
    from apply_put [OF s1 p refl, of "''created''"] none
    have "(\<exists>w. p = Inr w) \<and> apply_effect d s (Inr ''created'') s2 \<or> (\<exists>e. p = Inl e) \<and> ok s2 \<and> view s2 = view s"
      by (auto simp: applied_def)
    with Suc.prems(1) g absent p again [of s2] show ?thesis
      by (auto split: StoreErr.splits simp: apply_effect_error)
  next
    case found
    from get_found [OF Suc.prems(2) g [unfolded found]] kd
    have x: "view s (key_of d) = Some (x, v)" by (auto simp: key_of_def)
    from view_ok [OF Suc.prems(2) x [unfolded key_of_def]]
    have kx: "KindOf x = KindOf d" "object_name x = object_name d" by blast+
    from merge_user [OF kx(1) assms(2)] kx
    have key: "key_of (mergeSpec x d) = key_of d" by (simp add: key_of_def object_name_def)
    show ?thesis
    proof (cases "mergeSpec x d = x")
      case True
      with Suc.prems(1) g found have "r = Inr ''unchanged''" "s' = s1" by auto
      with s1 x True show ?thesis by (simp add: apply_effect_def applied_def)
    next
      case False
      obtain p s2 where p: "st_Put S (mergeSpec x d) v s1 = (p, s2)" by fastforce
      from apply_put [OF s1 p key, of "''updated''"] x False
      have "(\<exists>w. p = Inr w) \<and> apply_effect d s (Inr ''updated'') s2 \<or> (\<exists>e. p = Inl e) \<and> ok s2 \<and> view s2 = view s"
        by (auto simp: applied_def)
      with Suc.prems(1) g found p False again [of s2] show ?thesis
        by (auto split: StoreErr.splits simp: apply_effect_error)
    qed
  qed
qed

end

context reliable_store
begin

lemma apply_loop_total:
  assumes "ok s" and "user_object d" and "valid_name (object_name d)"
  shows "\<exists>action. fst (apply_loop S (KindOf d) (object_name d) d (Suc fuel) s) = Inr action"
proof -
  from assms(2) have kd: "KindOf d \<in> set Kinds" "d \<noteq> Object_Empty"
    by (auto simp: user_object_def intro: Canonical_range [OF Canonical_KindOf])
  obtain s1 where g: "st_Get S (KindOf d) (object_name d) s =
      ((case view s (key_of d) of Some xv \<Rightarrow> Inr xv | None \<Rightarrow> Inl ErrNotFound), s1)"
    using get_total [OF assms(1) kd(1) assms(3)] by (metis key_of_def prod.collapse)
  from get_frame [OF assms(1) g] have s1: "ok s1" "view s1 = view s" by auto
  show ?thesis
  proof (cases "view s (key_of d)")
    case None
    with put_total [OF s1(1) kd(2) assms(3), of RevCreate] s1(2) obtain v where
      "fst (st_Put S d RevCreate s1) = Inr v" by auto
    with g None show ?thesis by (cases "st_Put S d RevCreate s1") simp
  next
    case (Some xv)
    obtain x v where xv: "view s (key_of d) = Some (x, v)" using Some by (cases xv) auto
    from view_ok [OF assms(1) xv [unfolded key_of_def]]
    have kx: "KindOf x = KindOf d" "object_name x = object_name d" "0 < v" by blast+
    let ?y = "mergeSpec x d"
    from merge_user [OF kx(1) assms(2)] kx
    have key: "key_of ?y = key_of d" "KindOf ?y = KindOf d" "object_name ?y = object_name d"
      by (simp_all add: key_of_def object_name_def)
    from key(2) kd(2) have "?y \<noteq> Object_Empty" by (metis KindOf_empty_iff)
    with put_total [OF s1(1), of ?y v] key assms(3) kx(3) xv s1(2) obtain w where
      "fst (st_Put S ?y v s1) = Inr w" by auto
    with g xv show ?thesis by (cases "st_Put S ?y v s1") (simp add: Let_def)
  qed
qed

end

lemma wf_object_valid_name:
  assumes "wf_object d"
  shows "valid_name (object_name d)"
proof -
  from assms have n: "dnsLabel (object_name d)" by (simp add: wf_object_def wf_name_def object_name_def)
  from dnsLabel_no_slash [OF n] n show ?thesis by (auto simp: valid_name_def dnsLabel_def)
qed

lemma desired_user: "\<not> readOnlyKind (KindOf o') \<Longrightarrow> wf_object (desired o') \<Longrightarrow> user_object (desired o')"
  by (simp add: user_object_def wf_object_def)

text \<open>\<open>applyOne\<close> in the terms of its loop.\<close>

lemma applyOne_eq:
  "applyOne S o' s =
     (let res = \<lparr>ar_kind = KindOf o', ar_name = object_name o', ar_action = [], ar_error = None\<rparr> in
      if readOnlyKind (KindOf o') then (res\<lparr>ar_error := Some (ReadOnlyKind (KindOf o'))\<rparr>, s)
      else case Validate (desired o') of
        Some err \<Rightarrow> (res\<lparr>ar_error := Some (Invalid err)\<rparr>, s)
      | None \<Rightarrow> (case apply_loop S (KindOf o') (object_name o') (desired o') srv_casRetries s of
          (Inl err, s') \<Rightarrow> (res\<lparr>ar_error := Some err\<rparr>, s')
        | (Inr action, s') \<Rightarrow> (res\<lparr>ar_action := (if snd (sanitize o') then action @ '' (client status ignored)'' else action)\<rparr>, s')))"
  unfolding applyOne_def Let_def desired_def object_name_def by (simp only: case_prod_beta)

lemma srv_casRetries_Suc: "srv_casRetries = Suc 4"
  by (simp add: srv_casRetries_def)

definition flagged :: "Object \<Rightarrow> string \<Rightarrow> string" where
  "flagged o' action = (if snd (sanitize o') then action @ '' (client status ignored)'' else action)"

lemma applyOne_rejects:
  assumes "readOnlyKind (KindOf o') \<or> \<not> wf_object (desired o')"
  shows "ar_error (fst (applyOne S o' s)) \<noteq> None" and "snd (applyOne S o' s) = s"
proof -
  have "readOnlyKind (KindOf o') \<or> (\<exists>e. Validate (desired o') = Some e)"
    using assms by (cases "Validate (desired o')") (auto simp: Validate_None_iff)
  then show "ar_error (fst (applyOne S o' s)) \<noteq> None" and "snd (applyOne S o' s) = s"
    by (auto simp: applyOne_eq Let_def)
qed

lemma applyOne_accepts:
  assumes "mem_ok m" and "\<not> readOnlyKind (KindOf o')" and "wf_object (desired o')"
  shows "\<exists>res m' action. applyOne (memory_store now) o' m = (res, m') \<and> ar_error res = None \<and>
    ar_action res = flagged o' action \<and> mem.apply_effect (desired o') m (Inr action) m'"
proof -
  note user = desired_user [OF assms(2,3)]
  let ?loop = "apply_loop (memory_store now) (KindOf o') (object_name o') (desired o') srv_casRetries m"
  from mem.apply_loop_total [OF assms(1) user wf_object_valid_name [OF assms(3)], of now 4]
  obtain action t where run: "?loop = (Inr action, t)"
    by (cases ?loop) (auto simp: srv_casRetries_Suc)
  have effect: "mem.apply_effect (desired o') m (Inr action) t"
    using mem.apply_loop_effect [OF assms(1) user, of now srv_casRetries "Inr action" t] run by simp
  have "Validate (desired o') = None" using assms(3) by (simp add: Validate_None_iff)
  with assms(2) have "applyOne (memory_store now) o' m =
      (\<lparr>ar_kind = KindOf o', ar_name = object_name o', ar_action = flagged o' action, ar_error = None\<rparr>, t)"
    by (simp add: applyOne_eq Let_def flagged_def run)
  with effect show ?thesis by auto
qed

subsection \<open>What Apply promises\<close>

text \<open>The entry a successful apply leaves behind.\<close>

lemma applied_parts:
  assumes "user_object d" and "wf_object d" and "no_status d" and "applied d before action x'"
    and "\<forall>x v. before = Some (x, v) \<longrightarrow> KindOf x = KindOf d \<and> m_name (MetaOf x) = m_name (MetaOf d)"
  shows "spec_part x' = spec_part d" "m_labels (MetaOf x') = m_labels (MetaOf d)" "wf_object x'"
    "before = None \<Longrightarrow> no_status x'"
    "before = Some (x, v) \<Longrightarrow> status_part x' = status_part x"
    "before = Some (x, v) \<Longrightarrow> m_uid (MetaOf x) \<noteq> [] \<Longrightarrow> m_uid (MetaOf x') = m_uid (MetaOf x)"
    "before = Some (x, v) \<Longrightarrow> m_createdUnix (MetaOf x) \<noteq> 0 \<Longrightarrow> m_createdUnix (MetaOf x') = m_createdUnix (MetaOf x)"
proof -
  have d: "d \<noteq> Object_Empty" using assms(1) by (simp add: user_object_def)
  have new: "\<exists>w. stamped d w x'" if "before = None"
    using assms(4) that by (auto simp: applied_def)
  have old: "x' = x \<and> mergeSpec x d = x \<or> (\<exists>w. stamped (mergeSpec x d) w x')" if "before = Some (x, v)" for x v
    using assms(4) that by (auto simp: applied_def split: if_splits)
  note same = assms(5) [rule_format]
  note mrg = merge_user [OF conjunct1 [OF same] assms(1)]
  have kd: "mergeSpec x d \<noteq> Object_Empty" if "before = Some (x, v)" for x v
    using mrg(3) [OF that] d by (metis KindOf_empty_iff)
  show spec: "spec_part x' = spec_part d"
  proof (cases before)
    case None
    with new stamped_parts(1) show ?thesis by blast
  next
    case (Some xv)
    obtain x v where xv: "before = Some (x, v)" using Some by (cases xv) auto
    from old [OF xv] mrg(1) [OF xv] show ?thesis by (metis stamped_parts(1))
  qed
  have meta: "m_labels (MetaOf x') = m_labels (MetaOf d) \<and> m_name (MetaOf x') = m_name (MetaOf d)"
  proof (cases before)
    case None
    with new stamped_meta(1,2) [OF _ d] show ?thesis by blast
  next
    case (Some xv)
    obtain x v where xv: "before = Some (x, v)" using Some by (cases xv) auto
    have "m_labels (MetaOf (mergeSpec x d)) = m_labels (MetaOf d)" "m_name (MetaOf (mergeSpec x d)) = m_name (MetaOf d)"
      using mrg(4) [OF xv] same [OF xv] by simp_all
    with old [OF xv] stamped_meta(1,2) [OF _ kd [OF xv]] show ?thesis by metis
  qed
  then show "m_labels (MetaOf x') = m_labels (MetaOf d)" by simp
  show "wf_object x'" using wf_object_spec [OF spec assms(1)] meta assms(2) by simp
  show "no_status x'" if "before = None" using new [OF that] stamped_parts(3) assms(3) by blast
  show "status_part x' = status_part x" if "before = Some (x, v)"
    using old [OF that] mrg(2) [OF that] by (metis stamped_parts(2))
  have uid: "m_uid (MetaOf (mergeSpec x d)) = m_uid (MetaOf x)" "m_createdUnix (MetaOf (mergeSpec x d)) = m_createdUnix (MetaOf x)"
    if "before = Some (x, v)" using mrg(4) [OF that] by simp_all
  show "m_uid (MetaOf x') = m_uid (MetaOf x)" if "before = Some (x, v)" "m_uid (MetaOf x) \<noteq> []"
    using old [OF that(1)] uid(1) [OF that(1)] stamped_meta(3) [OF _ kd [OF that(1)]] that(2) by metis
  show "m_createdUnix (MetaOf x') = m_createdUnix (MetaOf x)" if "before = Some (x, v)" "m_createdUnix (MetaOf x) \<noteq> 0"
    using old [OF that(1)] uid(2) [OF that(1)] stamped_meta(4) [OF _ kd [OF that(1)]] that(2) by metis
qed

lemma mem_view_same:
  assumes "mem_ok m"
  shows "\<forall>x v. mem_view m (key_of o') = Some (x, v) \<longrightarrow>
    KindOf x = KindOf (desired o') \<and> m_name (MetaOf x) = m_name (MetaOf (desired o'))"
  unfolding key_of_def by (intro allI impI, drule mem.view_ok [OF assms]) (simp add: object_name_def)

text \<open>
  C28. Apply respects ownership. Whatever a reachable store holds and whatever object a client
  applies: the apply succeeds exactly when the kind is one a user may write and the defaulted
  object is well formed; a refused apply changes nothing; an accepted one touches only the entry
  the object names, which then has the manifest's specification and labels and passes
  validation, while the status, the uid and the creation time are those of before (and a status
  the client sent is dropped, so that a created object has none).
\<close>

theorem apply_keeps_ownership:
  assumes "applyOne (memory_store now) o' (run_ops (memory_store now) ops mem_New) = (res, m')"
  defines "m \<equiv> run_ops (memory_store now) ops mem_New"
  shows "(ar_error res = None \<longleftrightarrow> \<not> readOnlyKind (KindOf o') \<and> wf_object (desired o')) \<and>
    (ar_error res \<noteq> None \<longrightarrow> m' = m) \<and>
    (\<forall>q. q \<noteq> key_of o' \<longrightarrow> mem_view m' q = mem_view m q) \<and>
    (ar_error res = None \<longrightarrow> (\<exists>x' w. mem_view m' (key_of o') = Some (x', w) \<and>
       spec_part x' = spec_part (desired o') \<and> m_labels (MetaOf x') = m_labels (MetaOf o') \<and>
       Validate x' = None \<and>
       (case mem_view m (key_of o') of
          None \<Rightarrow> no_status x'
        | Some (x, v) \<Rightarrow> status_part x' = status_part x \<and>
            (m_uid (MetaOf x) = [] \<or> m_uid (MetaOf x') = m_uid (MetaOf x)) \<and>
            (m_createdUnix (MetaOf x) = 0 \<or> m_createdUnix (MetaOf x') = m_createdUnix (MetaOf x)))))"
proof (cases "\<not> readOnlyKind (KindOf o') \<and> wf_object (desired o')")
  case False
  with applyOne_rejects [of o' "memory_store now" m] assms(1) show ?thesis by (auto simp: m_def)
next
  case True
  have ok: "mem_ok m" unfolding m_def by (rule mem_reachable_ok)
  from applyOne_accepts [OF ok, of o' now] True assms(1) obtain action where
    res: "ar_error res = None" and effect: "mem.apply_effect (desired o') m (Inr action) m'"
    by (auto simp: m_def)
  from effect obtain x' w where x': "mem_view m' (key_of o') = Some (x', w)"
    and ap: "applied (desired o') (mem_view m (key_of o')) action x'"
    and frame: "\<forall>q. q \<noteq> key_of o' \<longrightarrow> mem_view m' q = mem_view m q"
    by (auto simp: mem.apply_effect_def)
  note same = mem_view_same [OF ok, of o']
  note parts = applied_parts [OF desired_user [OF conjunct1 [OF True] conjunct2 [OF True]]
    conjunct2 [OF True] desired_no_status ap same]
  have "case mem_view m (key_of o') of
          None \<Rightarrow> no_status x'
        | Some (x, v) \<Rightarrow> status_part x' = status_part x \<and>
            (m_uid (MetaOf x) = [] \<or> m_uid (MetaOf x') = m_uid (MetaOf x)) \<and>
            (m_createdUnix (MetaOf x) = 0 \<or> m_createdUnix (MetaOf x') = m_createdUnix (MetaOf x))"
    using parts(4-7) by (cases "mem_view m (key_of o')") (auto, blast)
  with parts(1-3) x' frame res True show ?thesis by (simp add: Validate_None_iff)
qed

definition sample_node :: "(string, string) fmap \<Rightarrow> int \<Rightarrow> NodeStatus option \<Rightarrow> Object" where
  "sample_node labels cap status = Object_Node \<lparr>n_meta = Some (zero_Meta\<lparr>m_name := ''n1'', m_labels := labels\<rparr>),
     n_spec = Some (zero_NodeSpec\<lparr>ns_maxInstances := cap\<rparr>), n_status = status\<rparr>"

definition sample_joined :: NodeStatus where
  "sample_joined = zero_NodeStatus\<lparr>nst_phase := NODE_PHASE_READY, nst_nodeIndex := 3\<rparr>"

definition sample_joined_ops :: "Op list" where
  "sample_joined_ops = [OpPut (sample_node fmempty 8 (Some sample_joined)) RevCreate]"

lemma apply_keeps_ownership_witness:
  "\<exists>m' x' w. applyOne (memory_store 7) (sample_node fmempty 4 (Some zero_NodeStatus))
       (run_ops (memory_store 7) sample_joined_ops mem_New) =
     (\<lparr>ar_kind = KindNode, ar_name = ''n1'', ar_action = ''updated (client status ignored)'', ar_error = None\<rparr>, m') \<and>
     mem_view m' (KindNode, ''n1'') = Some (x', w) \<and>
     status_part x' = Object_Node (zero_Node\<lparr>n_status := Some sample_joined\<rparr>) \<and> Validate x' = None"
proof -
  let ?m = "run_ops (memory_store 7) sample_joined_ops mem_New"
  let ?o = "sample_node fmempty 4 (Some zero_NodeStatus)"
  obtain res m' where run: "applyOne (memory_store 7) ?o ?m = (res, m')" by fastforce
  have "fst (applyOne (memory_store 7) ?o ?m) =
      \<lparr>ar_kind = KindNode, ar_name = ''n1'', ar_action = ''updated (client status ignored)'', ar_error = None\<rparr>"
    by code_simp
  with run have res: "res = \<lparr>ar_kind = KindNode, ar_name = ''n1'', ar_action = ''updated (client status ignored)'', ar_error = None\<rparr>"
    by simp
  have key: "key_of ?o = (KindNode, ''n1'')" by code_simp
  have "case mem_view ?m (KindNode, ''n1'') of Some (x, v) \<Rightarrow> status_part x = Object_Node (zero_Node\<lparr>n_status := Some sample_joined\<rparr>)
     | None \<Rightarrow> False" by code_simp
  with apply_keeps_ownership [OF run] res key run show ?thesis
    by (auto split: option.splits)
qed

text \<open>
  C29. Apply is idempotent: applying the same manifest again right after a successful apply
  reports no change and leaves every entry of the store as it is.
\<close>

theorem apply_idempotent:
  assumes "applyOne (memory_store now) o' (run_ops (memory_store now) ops mem_New) = (res, m')"
    and "ar_error res = None" and "applyOne (memory_store now) o' m' = (res', m'')"
  shows "ar_error res' = None \<and> ar_action res' = flagged o' ''unchanged'' \<and> mem_view m'' = mem_view m'"
proof -
  define m where "m = run_ops (memory_store now) ops mem_New"
  have ok: "mem_ok m" unfolding m_def by (rule mem_reachable_ok)
  have good: "\<not> readOnlyKind (KindOf o')" "wf_object (desired o')"
    using applyOne_rejects(1) [of o' "memory_store now" m] assms(1,2) by (auto simp: m_def)
  from applyOne_accepts [OF ok good, of now] assms(1) obtain action where
    effect: "mem.apply_effect (desired o') m (Inr action) m'" by (auto simp: m_def)
  then have ok': "mem_ok m'" by (simp add: mem.apply_effect_def)
  from effect obtain x' w where x': "mem_view m' (key_of o') = Some (x', w)"
    and ap: "applied (desired o') (mem_view m (key_of o')) action x'"
    by (auto simp: mem.apply_effect_def)
  note user = desired_user [OF good]
  note parts = applied_parts(1,2) [OF user good(2) desired_no_status ap mem_view_same [OF ok]]
  have "m_name (MetaOf x') \<noteq> []"
    using mem_view_same [OF ok', of o'] x' wf_object_valid_name [OF good(2)] by (simp add: valid_name_def object_name_def)
  from merge_fixpoint [OF parts(1) user parts(2) this] have merged: "mergeSpec x' (desired o') = x'" .
  from applyOne_accepts [OF ok' good, of now] assms(3) obtain action' where
    res': "ar_error res' = None" "ar_action res' = flagged o' action'" and
    effect': "mem.apply_effect (desired o') m' (Inr action') m''" by auto
  from effect' x' merged obtain w' where un: "action' = ''unchanged''" "mem_ok m''"
    "mem_view m'' (key_of o') = Some (x', w')" "\<forall>q. q \<noteq> key_of o' \<longrightarrow> mem_view m'' q = mem_view m' q"
    by (auto simp: mem.apply_effect_def applied_def)
  from mem.view_ok [OF ok' x' [unfolded key_of_def]] mem.view_ok [OF un(2) un(3) [unfolded key_of_def]]
  have "w' = w" by metis
  with un x' have "mem_view m'' = mem_view m'" by (intro ext) metis
  with res' un(1) show ?thesis by simp
qed

lemma apply_idempotent_witness:
  "\<exists>res m' res' m''. applyOne (memory_store 7) (sample_node fmempty 4 (Some zero_NodeStatus))
       (run_ops (memory_store 7) sample_joined_ops mem_New) = (res, m') \<and>
     applyOne (memory_store 7) (sample_node fmempty 4 (Some zero_NodeStatus)) m' = (res', m'') \<and>
     ar_action res' = ''unchanged (client status ignored)'' \<and> mem_view m'' = mem_view m'"
proof -
  let ?m = "run_ops (memory_store 7) sample_joined_ops mem_New"
  let ?o = "sample_node fmempty 4 (Some zero_NodeStatus)"
  obtain res m' where run: "applyOne (memory_store 7) ?o ?m = (res, m')" by fastforce
  obtain res' m'' where run': "applyOne (memory_store 7) ?o m' = (res', m'')" by fastforce
  have "ar_error (fst (applyOne (memory_store 7) ?o ?m)) = None" by code_simp
  with run have "ar_error res = None" by simp
  from apply_idempotent [OF run this run'] run run'
  have "ar_action res' = flagged ?o ''unchanged''" "mem_view m'' = mem_view m'" by auto
  moreover have "flagged ?o ''unchanged'' = ''unchanged (client status ignored)''" by code_simp
  ultimately show ?thesis using run run' by auto
qed

subsection \<open>Node deletion, Uncordon and Scale\<close>

lemma mark_delete_keeps_key: "body_keeps_key mark_delete_body KindNode"
  by (auto simp: body_keeps_key_def mark_delete_body_def Let_def key_of_def object_name_def kind_defs
      split: if_splits elim!: KindOf.elims)

lemma uncordon_keeps_key: "body_keeps_key uncordon_body KindNode"
  by (auto simp: body_keeps_key_def uncordon_body_def Let_def key_of_def object_name_def split: if_splits)

lemma scale_keeps_key: "body_keeps_key (scale_body replicas) KindWorkload"
  by (auto simp: body_keeps_key_def scale_body_def Let_def key_of_def object_name_def split: if_splits)

lemma labels_pending_Node [simp]: "labels_pending (Object_Node n) = pending_delete n"
  by (simp add: labels_pending_def pending_delete_def)

lemma stamped_Node_parts:
  assumes "stamped (Object_Node n) v x"
  shows "\<exists>n'. x = Object_Node n' \<and> n_status n' = n_status n \<and> n_spec n' = n_spec n \<and> pending_delete n' = pending_delete n"
  using assms by (auto elim!: stampedE simp: pending_delete_def)

definition draining_for_delete :: "Node \<Rightarrow> bool" where
  "draining_for_delete n \<longleftrightarrow> pending_delete n \<and> nst_unschedulable (n_Status n) \<and>
     nst_phase (n_Status n) = NODE_PHASE_DRAINING"



lemma stamped_Workload_parts:
  assumes "stamped (Object_Workload n) v x"
  shows "\<exists>n'. x = Object_Workload n' \<and> w_status n' = w_status n \<and> w_spec n' = w_spec n \<and>
    m_labels (w_Meta n') = m_labels (w_Meta n)"
  using assms by (auto elim!: stampedE)

text \<open>
  C31. What Scale writes, and what it does not check. For a stored workload and any replica count that
  is not negative the call succeeds and changes that workload alone, to the same object with the
  count set. It never consults the validator: a count over the limit \<open>maxReplicas\<close>, which Apply
  refuses for every manifest, is stored, and the stored workload then fails validation.
\<close>

theorem Scale_sets_replicas_unvalidated:
  assumes "mem_view (run_ops (memory_store now) ops mem_New) (KindWorkload, name) = Some (Object_Workload wl, v)"
    and "0 \<le> replicas"
    and "Scale (memory_store now) name replicas (run_ops (memory_store now) ops mem_New) = (r, m')"
  shows "r = Inr () \<and>
    (\<forall>q. q \<noteq> (KindWorkload, name) \<longrightarrow> mem_view m' q = mem_view (run_ops (memory_store now) ops mem_New) q) \<and>
    (\<exists>wl' w. mem_view m' (KindWorkload, name) = Some (Object_Workload wl', w) \<and>
       w_Spec wl' = (w_Spec wl)\<lparr>ws_replicas := replicas\<rparr> \<and> w_status wl' = w_status wl \<and>
       m_labels (w_Meta wl') = m_labels (w_Meta wl) \<and>
       (replicas \<le> maxReplicas \<or> Validate (Object_Workload wl') \<noteq> None))"
proof -
  define m where "m = run_ops (memory_store now) ops mem_New"
  have ok: "mem_ok m" unfolding m_def by (rule mem_reachable_ok)
  note entry = assms(1) [folded m_def]
  have name: "name \<noteq> []" using mem.view_ok [OF ok entry] by (auto simp: valid_name_def)
  have run: "cas_loop (memory_store now) KindWorkload name (scale_body replicas) (\<lambda>e. Inl (storeStatus e))
      (\<lambda>e. Inl (storeStatus e)) (Inl Aborted) (Suc 4) m = (r, m')"
    using assms(2,3) name by (simp add: Scale_def srv_casRetries_Suc m_def)
  have invalid: "replicas \<le> maxReplicas \<or> Validate (Object_Workload u) \<noteq> None"
    if "ws_replicas (w_Spec u) = replicas" for u
    using that by (auto simp: Validate_None_iff wf_object_def maxReplicas_def)
  show ?thesis
  proof (cases "ws_replicas (w_Spec wl) = replicas")
    case True
    then have body: "scale_body replicas (Object_Workload wl) = CasDone (Inr ())" by (simp add: scale_body_def)
    from mem.cas_loop_done [where body = "scale_body replicas", OF ok kinds_in(1) entry body] run
    have "r = Inr ()" by (metis fst_conv)
    moreover from mem.cas_loop_effect [OF ok kinds_in(1) scale_keeps_key run] entry body
    have "mem_view m' = mem_view m" by (auto simp: mem.cas_effect_def)
    ultimately show ?thesis using entry True invalid by (auto simp: m_def)
  next
    case False
    define y where "y = wl\<lparr>w_spec := Some ((w_Spec wl)\<lparr>ws_replicas := replicas\<rparr>)\<rparr>"
    have body: "scale_body replicas (Object_Workload wl) = CasWrite (Object_Workload y) (Inr ())"
      using False by (simp add: scale_body_def y_def)
    have key: "key_of (Object_Workload y) = key_of (Object_Workload wl)"
      by (simp add: key_of_def object_name_def y_def)
    from mem.cas_loop_write [where body = "scale_body replicas", OF ok kinds_in(1) entry body key] run
    obtain x' w where x': "r = Inr ()" "stamped (Object_Workload y) w x'"
        "mem_view m' = (mem_view m)((KindWorkload, name) \<mapsto> (x', w))" by (metis prod.inject)
    from stamped_Workload_parts [OF x'(2)] x' invalid show ?thesis by (auto simp: y_def m_def)
  qed
qed

definition sample_workload :: Object where
  "sample_workload = Object_Workload \<lparr>w_meta = Some (zero_Meta\<lparr>m_name := ''web''\<rparr>),
     w_spec = Some (zero_WorkloadSpec\<lparr>ws_replicas := 2, ws_template := Some (zero_Template\<lparr>t_containers :=
       [zero_Container\<lparr>c_image := ''nginx''\<rparr>]\<rparr>)\<rparr>), w_status = None\<rparr>"

lemma Scale_sets_replicas_unvalidated_witness:
  "\<exists>wl wl' v m'. Validate (Object_Workload wl) = None \<and>
    mem_view (run_ops (memory_store 7) [OpPut sample_workload RevCreate] mem_New) (KindWorkload, ''web'') =
      Some (Object_Workload wl, v) \<and>
    Scale (memory_store 7) ''web'' 5000 (run_ops (memory_store 7) [OpPut sample_workload RevCreate] mem_New) = (Inr (), m') \<and>
    (\<exists>w. mem_view m' (KindWorkload, ''web'') = Some (Object_Workload wl', w)) \<and> Validate (Object_Workload wl') \<noteq> None"
proof -
  let ?m = "run_ops (memory_store 7) [OpPut sample_workload RevCreate] mem_New"
  obtain r m' where run: "Scale (memory_store 7) ''web'' 5000 ?m = (r, m')" by fastforce
  have "case mem_view ?m (KindWorkload, ''web'') of
      Some (Object_Workload n, v) \<Rightarrow> Validate (Object_Workload n) = None | _ \<Rightarrow> False" by code_simp
  then obtain wl v where wl: "mem_view ?m (KindWorkload, ''web'') = Some (Object_Workload wl, v)"
    "Validate (Object_Workload wl) = None" by (auto split: option.splits Object.splits)
  from Scale_sets_replicas_unvalidated [OF wl(1) _ run] run obtain wl' w where
    "r = Inr ()" "mem_view m' (KindWorkload, ''web'') = Some (Object_Workload wl', w)"
    "(5000::int) \<le> maxReplicas \<or> Validate (Object_Workload wl') \<noteq> None" by auto
  moreover have "\<not> (5000::int) \<le> maxReplicas" by (simp add: maxReplicas_def)
  ultimately show ?thesis using wl run by blast
qed

end
