(* ===== verification/Klite_Drain.thy ===== *)
theory Klite_Drain
  imports Klite_Cluster Klite_Scheduler
begin

text \<open>
  The drain of a node, \<open>src/internal/server/drain.go\<close>: the cordon, the narrator that turns
  successive instance listings into progress lines, the forced deletes pinned to the revisions the
  narrator saw, and the polling loop of the RPC. What the rest of the cluster does between two
  polls is an argument of the loop, and so is the poll at which the client goes away; progress
  lines are the strings the code sends. A Go map is iterated in an unspecified order, here by key.
\<close>

subsection \<open>Cordon and drain phase\<close>

definition draining_body :: "Object \<Rightarrow> (Code + unit) CasStep" where
  "draining_body obj =
     (let st = n_Status (GetNode obj) in
      if nst_unschedulable st \<and> nst_phase st = NODE_PHASE_DRAINING then CasDone (Inr ())
      else CasWrite (upd_Node (\<lambda>n. n\<lparr>n_status := Some (st\<lparr>nst_unschedulable := True,
             nst_phase := NODE_PHASE_DRAINING\<rparr>)\<rparr>) obj) (Inr ()))"

definition markNodeDraining :: "'s Store \<Rightarrow> string \<Rightarrow> 's \<Rightarrow> (Code + unit) \<times> 's" where
  "markNodeDraining S name s =
     cas_loop S KindNode name draining_body (\<lambda>e. Inl (storeStatus e)) (\<lambda>e. Inl (storeStatus e)) (Inl Aborted) srv_casRetries s"

subsection \<open>The narrator\<close>

record instView =
  iv_workload :: string
  iv_node :: string
  iv_phase :: InstancePhase
  iv_message :: string
  iv_drainSec :: int
  iv_rev :: int

record narrator =
  nr_node :: string
  nr_first :: bool
  nr_prev :: "(string, instView) fmap"
  nr_workloads :: "string list"
  nr_reported :: "string list"

definition newNarrator :: "string \<Rightarrow> narrator" where
  "newNarrator node = \<lparr>nr_node = node, nr_first = True, nr_prev = fmempty, nr_workloads = [], nr_reported = []\<rparr>"

definition inst_view :: "Instance \<Rightarrow> instView" where
  "inst_view inst = \<lparr>iv_workload = is_workload (i_Spec inst), iv_node = is_node (i_Spec inst),
     iv_phase = ist_phase (i_Status inst), iv_message = ist_message (i_Status inst),
     iv_drainSec = drainTimeoutSeconds (is_Drain (i_Spec inst)),
     iv_rev = m_resourceVersion (i_Meta inst)\<rparr>"

definition drainNote :: "string \<Rightarrow> string" where
  "drainNote msg = (if ContainsStr msg ''fallback'' then '' ('' @ msg @ '')'' else [])"

definition blockedMessage :: "string \<Rightarrow> bool" where
  "blockedMessage msg \<longleftrightarrow> msg = MsgNoCapacity \<or> HasPrefix msg ''pinned node ''"

definition lineFor :: "narrator \<Rightarrow> string \<Rightarrow> instView \<Rightarrow> string \<times> narrator" where
  "lineFor n name v =
     (let old = fmlookup (nr_prev n) name; seen = (old \<noteq> None) in
      if iv_node v = nr_node n \<and> iv_phase v = INSTANCE_PHASE_DRAINING \<and> (\<not> seen \<or> iv_phase (the old) \<noteq> iv_phase v) then
        (let sec = (if iv_drainSec v \<le> 0 then DefaultDrainTimeoutSeconds else iv_drainSec v) in
         (''draining '' @ name @ '' ('' @ itoa_int sec @ ''s)'' @ drainNote (iv_message v), n))
      else if iv_node v \<noteq> nr_node n \<and> iv_node v \<noteq> [] \<and> iv_workload v \<in> set (nr_workloads n) \<and> (\<not> seen \<or> iv_node (the old) = []) then
        (''surged '' @ name @ '' to '' @ iv_node v, n)
      else if iv_node v = [] \<and> iv_workload v \<in> set (nr_workloads n) \<and> blockedMessage (iv_message v) \<and> name \<notin> set (nr_reported n) then
        (''surge '' @ name @ '' pending: '' @ iv_message v @ ''; falling back to drain-first (brief dip)'',
         n\<lparr>nr_reported := name # nr_reported n\<rparr>)
      else ([], n))"

fun diff_cur :: "(string, instView) fmap \<Rightarrow> string list \<Rightarrow> narrator \<Rightarrow> string list \<times> narrator" where
  "diff_cur cur [] n = ([], n)"
| "diff_cur cur (name # names) n =
     (case fmlookup cur name of
        None \<Rightarrow> diff_cur cur names n
      | Some v \<Rightarrow>
        (let (line, n1) = lineFor n name v; (rest, n2) = diff_cur cur names n1
         in (if line = [] then rest else line # rest, n2)))"

definition diff_gone :: "narrator \<Rightarrow> (string, instView) fmap \<Rightarrow> string list" where
  "diff_gone n cur = map (\<lambda>name. ''drained '' @ name)
     (filter (\<lambda>name. fmlookup cur name = None \<and>
        (case fmlookup (nr_prev n) name of Some old \<Rightarrow> iv_node old = nr_node n | None \<Rightarrow> False))
        (sorted_keys (nr_prev n)))"

definition narrator_diff :: "narrator \<Rightarrow> (string, instView) fmap \<Rightarrow> string list \<times> narrator" where
  "narrator_diff n cur =
     (let (lines, n1) = diff_cur cur (sorted_keys cur) n in (lines @ diff_gone n cur, n1))"

fun observe_loop :: "string \<Rightarrow> Object list \<Rightarrow> (string, instView) fmap \<Rightarrow> string list \<Rightarrow> nat \<Rightarrow>
    (string, instView) fmap \<times> string list \<times> nat" where
  "observe_loop node [] cur wls remaining = (cur, wls, remaining)"
| "observe_loop node (o' # os) cur wls remaining =
     (let inst = GetInstance o'; v = inst_view inst; cur' = fmupd (m_name (i_Meta inst)) v cur in
      if iv_node v = node then observe_loop node os cur' (iv_workload v # wls) (remaining + 1)
      else observe_loop node os cur' wls remaining)"

definition observe :: "narrator \<Rightarrow> Object list \<Rightarrow> string list \<times> nat \<times> narrator" where
  "observe n objs =
     (let (cur, wls, remaining) = observe_loop (nr_node n) objs fmempty (nr_workloads n) 0;
          n1 = n\<lparr>nr_workloads := wls\<rparr> in
      if nr_first n1 then
        ((if 0 < remaining then [''draining '' @ itoa remaining @ '' instance(s) on '' @ nr_node n1] else []),
         remaining, n1\<lparr>nr_first := False, nr_prev := cur\<rparr>)
      else
        (let (lines, n2) = narrator_diff n1 cur in (lines, remaining, n2\<lparr>nr_prev := cur\<rparr>)))"

subsection \<open>Forced deletes and the stream\<close>

fun forceDelete_loop :: "'s Store \<Rightarrow> string list \<Rightarrow> narrator \<Rightarrow> 's \<Rightarrow> string list \<times> narrator \<times> 's" where
  "forceDelete_loop S [] n s = ([], n, s)"
| "forceDelete_loop S (name # names) n s =
     (case fmlookup (nr_prev n) name of
        None \<Rightarrow> forceDelete_loop S names n s
      | Some v \<Rightarrow>
        if iv_node v \<noteq> nr_node n \<or> iv_phase v \<noteq> INSTANCE_PHASE_DRAINING then forceDelete_loop S names n s
        else
          (case st_DeleteIfRevision S KindInstance name (iv_rev v) s of
             (Inl _, s1) \<Rightarrow> forceDelete_loop S names n s1
           | (Inr _, s1) \<Rightarrow>
             (let (lines, n2, s2) = forceDelete_loop S names (n\<lparr>nr_prev := fmdrop name (nr_prev n)\<rparr>) s1
              in ((''force-removed '' @ name) # lines, n2, s2))))"

definition forceDelete :: "'s Store \<Rightarrow> narrator \<Rightarrow> 's \<Rightarrow> string list \<times> narrator \<times> 's" where
  "forceDelete S n s = forceDelete_loop S (sorted_keys (nr_prev n)) n s"

datatype DrainEnd = DrainDone | DrainFailed Code | DrainBroken

text \<open>
  One turn of the loop of \<open>Drain\<close>: \<open>None\<close> when it goes on to sleep. The world moves between the
  listing and the forced deletes as well as during the sleep.
\<close>

definition drain_poll :: "'s Store \<Rightarrow> ('s \<Rightarrow> 's) \<Rightarrow> bool \<Rightarrow> narrator \<Rightarrow> 's \<Rightarrow> string list \<times> DrainEnd option \<times> narrator \<times> 's" where
  "drain_poll S world force n s = (case st_List S KindInstance s of
     (Inl err, s1) \<Rightarrow> ([], Some (DrainFailed (storeStatus err)), n, s1)
   | (Inr (insts, _), s1) \<Rightarrow>
     (let (lines, remaining, n1) = observe n insts;
          (forced, n2, s2) = (if force then forceDelete S n1 (world s1) else ([], n1, world s1)) in
      if remaining = 0 then (lines @ forced @ [''done: '' @ nr_node n @ '' drained''], Some DrainDone, n2, s2)
      else
        (case markNodeDraining S (nr_node n) s2 of
           (Inl code, s3) \<Rightarrow> (lines @ forced, Some (DrainFailed code), n2, s3)
         | (Inr _, s3) \<Rightarrow> (lines @ forced, None, n2, s3))))"

text \<open>\<open>polls\<close> is the number of polls after which the client breaks the stream.\<close>

fun drain_loop :: "'s Store \<Rightarrow> (nat \<Rightarrow> 's \<Rightarrow> 's) \<Rightarrow> bool \<Rightarrow> nat \<Rightarrow> narrator \<Rightarrow> 's \<Rightarrow> string list \<times> DrainEnd \<times> 's" where
  "drain_loop S world force 0 n s = ([], DrainBroken, s)"
| "drain_loop S world force (Suc polls) n s =
     (case drain_poll S (world polls) force n s of
        (lines, Some e, n1, s1) \<Rightarrow> (lines, e, s1)
      | (lines, None, n1, s1) \<Rightarrow>
          (let (more, e, s2) = drain_loop S world force polls n1 (world polls s1) in (lines @ more, e, s2)))"

definition Drain :: "'s Store \<Rightarrow> (nat \<Rightarrow> 's \<Rightarrow> 's) \<Rightarrow> nat \<Rightarrow> string \<Rightarrow> bool \<Rightarrow> 's \<Rightarrow> string list \<times> DrainEnd \<times> 's" where
  "Drain S world polls node force s =
     (if node = [] then ([], DrainFailed InvalidArgument, s)
      else case markNodeDraining S node s of
        (Inl code, s1) \<Rightarrow> ([], DrainFailed code, s1)
      | (Inr _, s1) \<Rightarrow>
          (let (lines, e, s2) = drain_loop S world force polls (newNarrator node) s1
           in ((''cordoned '' @ node) # lines, e, s2)))"

subsection \<open>What an observation records\<close>

lemma inst_view_simps [simp]:
  "iv_node (inst_view i) = is_node (i_Spec i)" "iv_phase (inst_view i) = ist_phase (i_Status i)"
  "iv_workload (inst_view i) = is_workload (i_Spec i)" "iv_rev (inst_view i) = m_resourceVersion (i_Meta i)"
  by (simp_all add: inst_view_def)

lemma observe_loop_remaining:
  "observe_loop node os cur wls r = (cur', wls', r') \<Longrightarrow>
   r' = r + length (filter (\<lambda>x. is_node (i_Spec (GetInstance x)) = node) os)"
  by (induction os arbitrary: cur wls r) (simp, fastforce simp: Let_def split: if_splits)

lemma observe_loop_cur:
  "observe_loop node os cur wls r = (cur', wls', r') \<Longrightarrow> fmlookup cur' nm = Some v \<Longrightarrow>
   fmlookup cur nm = Some v \<or>
   (\<exists>x \<in> set os. m_name (i_Meta (GetInstance x)) = nm \<and> v = inst_view (GetInstance x))"
proof (induction os arbitrary: cur wls r)
  case (Cons x os)
  let ?cur = "fmupd (m_name (i_Meta (GetInstance x))) (inst_view (GetInstance x)) cur"
  from Cons.prems(1) obtain wls1 r1 where "observe_loop node os ?cur wls1 r1 = (cur', wls', r')"
    by (auto simp: Let_def split: if_splits)
  from Cons.IH [OF this Cons.prems(2)] show ?case by (auto split: if_splits)
qed simp

lemma lineFor_node [simp]: "nr_node (snd (lineFor n name v)) = nr_node n"
  by (simp add: lineFor_def Let_def)

lemma diff_cur_node: "diff_cur cur names n = (ls, n') \<Longrightarrow> nr_node n' = nr_node n"
proof (induction cur names n arbitrary: ls n' rule: diff_cur.induct)
  case (2 cur name names n)
  show ?case
  proof (cases "fmlookup cur name")
    case (Some v)
    obtain line n1 where l: "lineFor n name v = (line, n1)" by fastforce
    obtain rest n2 where d: "diff_cur cur names n1 = (rest, n2)" by fastforce
    from lineFor_node [of n name v] l have "nr_node n1 = nr_node n" by simp
    with 2(2) [OF Some refl l [symmetric] d] "2.prems" Some l d show ?thesis by simp
  qed (use 2 in simp)
qed simp

lemma observe_facts:
  assumes "observe n xs = (ls, remaining, n')"
  shows "nr_node n' = nr_node n"
    and "remaining = length (filter (\<lambda>x. is_node (i_Spec (GetInstance x)) = nr_node n) xs)"
    and "fmlookup (nr_prev n') nm = Some v \<Longrightarrow>
      \<exists>x \<in> set xs. m_name (i_Meta (GetInstance x)) = nm \<and> v = inst_view (GetInstance x)"
proof -
  obtain cur wls r where o: "observe_loop (nr_node n) xs fmempty (nr_workloads n) 0 = (cur, wls, r)"
    by (metis prod_cases3)
  have n': "nr_node n' = nr_node n \<and> remaining = r \<and> nr_prev n' = cur"
    using assms unfolding observe_def Let_def o narrator_diff_def
    by (auto split: if_splits prod.splits dest: diff_cur_node)
  then show "nr_node n' = nr_node n" by simp
  show "remaining = length (filter (\<lambda>x. is_node (i_Spec (GetInstance x)) = nr_node n) xs)"
    using n' observe_loop_remaining [OF o] by simp
  show "\<exists>x \<in> set xs. m_name (i_Meta (GetInstance x)) = nm \<and> v = inst_view (GetInstance x)"
    if "fmlookup (nr_prev n') nm = Some v"
    using n' observe_loop_cur [OF o] that by fastforce
qed

subsection \<open>Forced deletes hit only what was seen draining\<close>

definition seen_draining :: "string \<Rightarrow> (Object \<times> int) option \<Rightarrow> bool" where
  "seen_draining node e \<longleftrightarrow> (\<exists>i v. e = Some (Object_Instance i, v) \<and> is_node (i_Spec i) = node \<and>
     ist_phase (i_Status i) = INSTANCE_PHASE_DRAINING)"

context store_contract
begin

lemma aged_old: "aged s s' \<Longrightarrow> view s' q = Some (x, v) \<Longrightarrow> v \<le> cur s \<Longrightarrow> view s q = Some (x, v)"
  unfolding aged_def by (metis linorder_not_le)

text \<open>Every view the narrator holds is an entry of the store state it listed.\<close>

definition narrates :: "'s \<Rightarrow> narrator \<Rightarrow> bool" where
  "narrates s0 n \<longleftrightarrow> (\<forall>nm v. fmlookup (nr_prev n) nm = Some v \<longrightarrow>
     (\<exists>i. view s0 (KindInstance, nm) = Some (Object_Instance i, iv_rev v) \<and> v = inst_view i))"

lemma narrates_drop: "narrates s0 n \<Longrightarrow> narrates s0 (n\<lparr>nr_prev := fmdrop nm (nr_prev n)\<rparr>)"
  by (auto simp: narrates_def split: if_splits)

definition forced :: "'s \<Rightarrow> string \<Rightarrow> 's \<Rightarrow> 's \<Rightarrow> bool" where
  "forced s0 node s s' \<longleftrightarrow> aged s s' \<and> (\<forall>q. view s' q = view s q \<or>
     view s' q = None \<and> fst q = KindInstance \<and> view s q = view s0 q \<and> seen_draining node (view s q))"

lemma forced_trans: "forced s0 node s t \<Longrightarrow> forced s0 node t u \<Longrightarrow> forced s0 node s u"
  unfolding forced_def by (metis aged_trans)

lemma forced_refl: "ok s \<Longrightarrow> forced s0 node s s"
  by (simp add: forced_def aged_refl)

lemma pinned_delete_forced:
  assumes "ok s0" and "aged s0 s" and "ok s" and "narrates s0 n" and "fmlookup (nr_prev n) nm = Some v"
    and "iv_node v = node" and "iv_phase v = INSTANCE_PHASE_DRAINING"
    and "st_DeleteIfRevision S KindInstance nm (iv_rev v) s = (r, s')"
  shows "forced s0 node s s'"
proof (cases r)
  case (Inl e)
  with delete_if_refused [OF assms(3), of KindInstance nm "iv_rev v" e s'] delete_if_aged [OF assms(3,8)] assms(8)
  show ?thesis by (simp add: forced_def)
next
  case (Inr u)
  from delete_if_done [OF assms(3) assms(8) [unfolded Inr]] obtain x where
    x: "view s (KindInstance, nm) = Some (x, iv_rev v)" "view s' = (view s)((KindInstance, nm) := None)"
    by (auto simp: Canonical_kinds)
  from assms(4,5) obtain i where i: "view s0 (KindInstance, nm) = Some (Object_Instance i, iv_rev v)"
    "v = inst_view i" unfolding narrates_def by blast
  from view_ok [OF assms(1) i(1)] have "iv_rev v \<le> cur s0" by simp
  from aged_old [OF assms(2) x(1) this] have "view s0 (KindInstance, nm) = Some (x, iv_rev v)" .
  with x i assms(6,7) delete_if_aged [OF assms(3,8)] show ?thesis
    by (auto simp: forced_def seen_draining_def inst_view_def)
qed

lemma forceDelete_loop_forced:
  assumes "ok s0"
  shows "forceDelete_loop S names n s = (ls, n', s') \<Longrightarrow> ok s \<Longrightarrow> aged s0 s \<Longrightarrow> narrates s0 n \<Longrightarrow>
    forced s0 (nr_node n) s s'"
proof (induction names arbitrary: n s ls)
  case (Cons name names)
  show ?case
  proof (cases "fmlookup (nr_prev n) name")
    case None
    with Cons show ?thesis by simp
  next
    case (Some v)
    show ?thesis
    proof (cases "iv_node v \<noteq> nr_node n \<or> iv_phase v \<noteq> INSTANCE_PHASE_DRAINING")
      case True
      with Cons Some show ?thesis by simp
    next
      case False
      obtain r s1 where d: "st_DeleteIfRevision S KindInstance name (iv_rev v) s = (r, s1)" by fastforce
      from False pinned_delete_forced [OF assms Cons.prems(3,2,4) Some _ _ d]
      have f: "forced s0 (nr_node n) s s1" by simp
      then have a: "aged s s1" by (simp add: forced_def)
      then have s1: "ok s1" "aged s0 s1" using aged_trans [OF Cons.prems(3) a] by (auto simp: aged_def)
      define n1 where "n1 = (case r of Inl _ \<Rightarrow> n | Inr _ \<Rightarrow> n\<lparr>nr_prev := fmdrop name (nr_prev n)\<rparr>)"
      have n1: "nr_node n1 = nr_node n" "narrates s0 n1"
        using Cons.prems(4) narrates_drop by (auto simp: n1_def split: sum.split)
      from Cons.prems(1) Some False d obtain ls1 where "forceDelete_loop S names n1 s1 = (ls1, n', s')"
        by (auto simp: n1_def Let_def split: sum.splits prod.splits)
      from forced_trans [OF f] Cons.IH [OF this s1 n1(2)] n1(1) show ?thesis by simp
    qed
  qed
qed (simp add: forced_refl)

end

lemma draining_keeps_key: "body_keeps_key draining_body KindNode"
  by (auto simp: body_keeps_key_def draining_body_def Let_def key_of_def object_name_def split: if_splits)

lemma markNodeDraining_frame:
  assumes "mem_ok m" and "markNodeDraining (memory_store now) node m = (r, m')"
  shows "mem_ok m'" and "q \<noteq> (KindNode, node) \<Longrightarrow> mem_view m' q = mem_view m q"
  using mem.cas_loop_effect [OF assms(1) kinds_in(3) draining_keeps_key assms(2) [unfolded markNodeDraining_def]]
  by (auto simp: mem.cas_effect_def)

text \<open>The narrator after observing a listing of the memory store narrates that store.\<close>

lemma observe_narrates:
  assumes "mem_ok m" and "st_List (memory_store now) KindInstance m = (Inr (xs, r), m)"
    and "observe n xs = (ls, remaining, n')"
  shows "mem.narrates m n'"
    and "remaining = 0 \<longleftrightarrow>
      (\<forall>nm i v. mem_view m (KindInstance, nm) = Some (Object_Instance i, v) \<longrightarrow> is_node (i_Spec i) \<noteq> nr_node n)"
proof -
  note listed = mem.listed_entry [OF assms(1,2) kinds_in(5)]
  have inst: "\<exists>i. x = Object_Instance i \<and> GetInstance x = i" if "x \<in> set xs" for x
    using Object_of_kind(1) [of x] listed [OF that] by auto
  show "mem.narrates m n'" unfolding mem.narrates_def
  proof (intro allI impI)
    fix nm v assume "fmlookup (nr_prev n') nm = Some v"
    from observe_facts(3) [OF assms(3) this] obtain x where
      x: "x \<in> set xs" "m_name (i_Meta (GetInstance x)) = nm" "v = inst_view (GetInstance x)" by blast
    with inst obtain i where i: "x = Object_Instance i" by blast
    from listed [OF x(1)] x i
    show "\<exists>i. mem_view m (KindInstance, nm) = Some (Object_Instance i, iv_rev v) \<and> v = inst_view i"
      by (auto simp: object_name_def)
  qed
  have all: "x \<in> set xs \<longleftrightarrow> mem_view m (KindInstance, object_name x) = Some (x, m_resourceVersion (MetaOf x))" for x
    by (rule mem.listed_view(1) [OF assms(1,2) kinds_in(5)])
  have "remaining = 0 \<longleftrightarrow> (\<forall>x \<in> set xs. is_node (i_Spec (GetInstance x)) \<noteq> nr_node n)"
    using observe_facts(2) [OF assms(3)] by (simp add: filter_empty_conv)
  also have "\<dots> \<longleftrightarrow> (\<forall>nm i v. mem_view m (KindInstance, nm) = Some (Object_Instance i, v) \<longrightarrow> is_node (i_Spec i) \<noteq> nr_node n)"
  proof (intro iffI allI impI ballI)
    fix nm i v assume a: "\<forall>x \<in> set xs. is_node (i_Spec (GetInstance x)) \<noteq> nr_node n"
      and e: "mem_view m (KindInstance, nm) = Some (Object_Instance i, v)"
    from mem.view_ok [OF assms(1) e] e have "Object_Instance i \<in> set xs" by (simp add: all)
    with a show "is_node (i_Spec i) \<noteq> nr_node n" by fastforce
  next
    fix x assume a: "\<forall>nm i v. mem_view m (KindInstance, nm) = Some (Object_Instance i, v) \<longrightarrow> is_node (i_Spec i) \<noteq> nr_node n"
      and x: "x \<in> set xs"
    from inst [OF x] obtain i where i: "x = Object_Instance i" by blast
    from x all [of x] i a show "is_node (i_Spec (GetInstance x)) \<noteq> nr_node n" by auto
  qed
  finally show "remaining = 0 \<longleftrightarrow>
      (\<forall>nm i v. mem_view m (KindInstance, nm) = Some (Object_Instance i, v) \<longrightarrow> is_node (i_Spec i) \<noteq> nr_node n)" .
qed

text \<open>
  C32. A forced drain deletes only what it saw draining. One poll of a forced drain lists a
  reachable store \<open>m\<close>; any operations of other callers run before the deletes, and give \<open>t\<close>. An
  entry the poll removes is an instance that the listing showed on this node and draining, and
  that is still that very object; apart from those and the node's own record nothing changes. The
  poll reports the drain as done exactly when the listing has no instance on the node.
\<close>

theorem forced_drain_poll_safe:
  assumes "drain_poll (memory_store now) (run_ops (memory_store now) others) True n
      (run_ops (memory_store now) before mem_New) = (ls, e, n', m')"
  defines "m \<equiv> run_ops (memory_store now) before mem_New"
  defines "t \<equiv> run_ops (memory_store now) others m"
  shows "(\<forall>q. q \<noteq> (KindNode, nr_node n) \<longrightarrow> mem_view m' q = mem_view t q \<or>
      mem_view m' q = None \<and> fst q = KindInstance \<and> mem_view t q = mem_view m q \<and> seen_draining (nr_node n) (mem_view t q)) \<and>
    (e = Some DrainDone \<longleftrightarrow>
      (\<forall>nm i v. mem_view m (KindInstance, nm) = Some (Object_Instance i, v) \<longrightarrow> is_node (i_Spec i) \<noteq> nr_node n))"
proof -
  have ok: "mem_ok m" unfolding m_def by (rule mem_reachable_ok)
  from mem_lists [OF kinds_in(5)] obtain xs where l: "st_List (memory_store now) KindInstance m = (Inr (xs, mem_rev m), m)"
    by blast
  obtain lines remaining n1 where o: "observe n xs = (lines, remaining, n1)" by (metis prod_cases3)
  note nar = observe_narrates [OF ok l o]
  obtain fl n2 s2 where f: "forceDelete (memory_store now) n1 t = (fl, n2, s2)" by (metis prod_cases3)
  have aged: "mem.aged m t" unfolding t_def by (rule mem.run_ops_aged [OF ok])
  then have okt: "mem_ok t" by (simp add: mem.aged_def)
  from mem.forceDelete_loop_forced [OF ok f [unfolded forceDelete_def] okt aged nar(1)] observe_facts(1) [OF o]
  have forced: "mem.forced m (nr_node n) t s2" by simp
  then have ok2: "mem_ok s2" by (simp add: mem.forced_def mem.aged_def)
  obtain r s3 where k: "markNodeDraining (memory_store now) (nr_node n) s2 = (r, s3)" by fastforce
  note run = assms(1) [folded m_def, unfolded drain_poll_def l, simplified, unfolded o Let_def, simplified,
      folded t_def, unfolded f, simplified, unfolded k]
  from run have e: "e = Some DrainDone \<longleftrightarrow> remaining = 0" by (auto split: if_splits sum.splits)
  have "\<forall>q. q \<noteq> (KindNode, nr_node n) \<longrightarrow> mem_view m' q = mem_view s2 q"
  proof (cases "remaining = 0")
    case False
    with run have "m' = s3" by (auto split: sum.splits)
    with markNodeDraining_frame(2) [OF ok2 k] show ?thesis by simp
  qed (use run in simp)
  with forced nar(2) e show ?thesis by (simp add: mem.forced_def)
qed

definition sample_draining :: "string \<Rightarrow> InstancePhase \<Rightarrow> Object" where
  "sample_draining name phase = Object_Instance \<lparr>i_meta = Some (zero_Meta\<lparr>m_name := name\<rparr>),
     i_spec = Some (zero_InstanceSpec\<lparr>is_workload := ''web'', is_node := ''n1''\<rparr>),
     i_status = Some (zero_InstanceStatus\<lparr>ist_phase := phase\<rparr>)\<rparr>"

definition sample_drain_ops :: "Op list" where
  "sample_drain_ops = sample_joined_ops @ [OpPut (sample_draining ''a'' INSTANCE_PHASE_DRAINING) RevCreate,
     OpPut (sample_draining ''b'' INSTANCE_PHASE_DRAINING) RevCreate]"

text \<open>Here \<open>b\<close> is rewritten between the listing and the deletes, and survives; \<open>a\<close> goes.\<close>

lemma forced_drain_poll_safe_witness:
  "\<exists>ls e n' m'. drain_poll (memory_store 7)
      (run_ops (memory_store 7) [OpPut (sample_draining ''b'' INSTANCE_PHASE_READY) RevAny]) True (newNarrator ''n1'')
      (run_ops (memory_store 7) sample_drain_ops mem_New) = (ls, e, n', m') \<and>
    mem_view m' (KindInstance, ''a'') = None \<and> mem_view m' (KindInstance, ''b'') \<noteq> None \<and>
    seen_draining ''n1'' (mem_view (run_ops (memory_store 7) sample_drain_ops mem_New) (KindInstance, ''a'')) \<and> e \<noteq> Some DrainDone"
proof -
  let ?m = "run_ops (memory_store 7) sample_drain_ops mem_New"
  let ?w = "run_ops (memory_store 7) [OpPut (sample_draining ''b'' INSTANCE_PHASE_READY) RevAny]"
  let ?poll = "drain_poll (memory_store 7) ?w True (newNarrator ''n1'') ?m"
  obtain ls e n' m' where run: "?poll = (ls, e, n', m')" by (metis prod_cases4)
  have node: "nr_node (newNarrator ''n1'') = ''n1''" by (simp add: newNarrator_def)
  have "mem_view (snd (snd (snd ?poll))) (KindInstance, ''a'') = None \<and>
      mem_view (snd (snd (snd ?poll))) (KindInstance, ''b'') \<noteq> None \<and> fst (snd ?poll) = None" by code_simp
  then have r: "mem_view m' (KindInstance, ''a'') = None" "mem_view m' (KindInstance, ''b'') \<noteq> None" "e = None"
    using run by simp_all
  have t: "mem_view (?w ?m) (KindInstance, ''a'') \<noteq> None" by code_simp
  have q: "(KindInstance, ''a'') \<noteq> (KindNode, ''n1'')" by (simp add: kind_defs)
  from conjunct1 [OF forced_drain_poll_safe [OF run], rule_format, of "(KindInstance, ''a'')"] r t q node
  have "seen_draining ''n1'' (mem_view ?m (KindInstance, ''a''))" by auto
  with run r show ?thesis by blast
qed

end
