(* ===== verification/Klite_CA.thy ===== *)
theory Klite_CA
  imports Klite_Prelude
begin

text \<open>
  The cluster CA, \<open>src/internal/ca\<close>: join tokens (\<open>token.go\<close>), the root on disk, leaf templates,
  the signing of join CSRs and the identity in a node certificate (\<open>ca.go\<close>), and the pin check of
  the first dial (\<open>tls.go\<close>). Byte slices and Go strings are both \<open>string\<close>, a list of 8-bit
  characters. SHA-256, PEM, X.509, key generation and the calendar are arguments, collected in the
  record \<open>X509\<close>; what the code relies on of them is stated where a theorem needs it. Files are a map
  from paths to contents and permission bits.
\<close>

subsection \<open>Hexadecimal\<close>

definition hex_byte :: "char \<Rightarrow> string" where
  "hex_byte c = [digit_char (of_char c div 16), digit_char (of_char c mod 16)]"

definition hex_EncodeToString :: "string \<Rightarrow> string" where
  "hex_EncodeToString bs = concat (map hex_byte bs)"

definition fromHexChar :: "char \<Rightarrow> nat option" where
  "fromHexChar c = (let n = of_char c in
     if 48 \<le> n \<and> n \<le> 57 then Some (n - 48)
     else if 97 \<le> n \<and> n \<le> 102 then Some (n - 87)
     else if 65 \<le> n \<and> n \<le> 70 then Some (n - 55)
     else None)"

fun hex_DecodeString :: "string \<Rightarrow> string option" where
  "hex_DecodeString [] = Some []"
| "hex_DecodeString [c] = None"
| "hex_DecodeString (c # d # s) = (case (fromHexChar c, fromHexChar d, hex_DecodeString s) of
     (Some h, Some l, Some bs) \<Rightarrow> Some (char_of (16 * h + l) # bs)
   | _ \<Rightarrow> None)"

subsection \<open>Join tokens\<close>

definition tokenPrefix :: string where "tokenPrefix = ''K10''"
definition tokenUser :: string where "tokenUser = ''node''"
definition sha256_Size :: nat where "sha256_Size = 32"
definition caHashLen :: nat where "caHashLen = sha256_Size * 2"
definition maxTokenLen :: nat where "maxTokenLen = 4096"

lemmas token_consts = tokenPrefix_def tokenUser_def sha256_Size_def caHashLen_def maxTokenLen_def

record Token =
  CAHash :: string
  Secret :: string

datatype TokenErr = TokenTooLong | TokenNoPrefix | TokenNoSeparator | TokenHashLen | TokenHashHex | TokenCredential

definition MintToken :: "(string \<Rightarrow> string) \<Rightarrow> string \<Rightarrow> string \<Rightarrow> string" where
  "MintToken sha256 caPEM secret =
     tokenPrefix @ hex_EncodeToString (sha256 caPEM) @ ''::'' @ tokenUser @ '':'' @ secret"

definition ParseToken :: "string \<Rightarrow> TokenErr + Token" where
  "ParseToken s =
     (if length s > maxTokenLen then Inl TokenTooLong
      else case CutPrefix s tokenPrefix of
        None \<Rightarrow> Inl TokenNoPrefix
      | Some rest \<Rightarrow>
        (case Cut rest ''::'' of
           None \<Rightarrow> Inl TokenNoSeparator
         | Some (hash, cred) \<Rightarrow>
           if length hash \<noteq> caHashLen then Inl TokenHashLen
           else if hex_DecodeString hash = None then Inl TokenHashHex
           else
             (case CutPrefix cred (tokenUser @ '':'') of
                None \<Rightarrow> Inl TokenCredential
              | Some secret \<Rightarrow>
                  if secret = [] then Inl TokenCredential
                  else Inr \<lparr>CAHash = hash, Secret = secret\<rparr>)))"

datatype HashErr = NotDigest | HashMismatch

definition VerifyCAHash :: "(string \<Rightarrow> string) \<Rightarrow> string \<Rightarrow> string \<Rightarrow> HashErr option" where
  "VerifyCAHash sha256 caPEM hash = (case hex_DecodeString hash of
     None \<Rightarrow> Some NotDigest
   | Some want \<Rightarrow>
       if length want \<noteq> sha256_Size then Some NotDigest
       else if sha256 caPEM \<noteq> want then Some HashMismatch
       else None)"

subsection \<open>Certificates\<close>

datatype ExtKeyUsage = ServerAuth | ClientAuth
datatype KeyUsage = CertSign | DigitalSignature
datatype KeyInfo = KeyECDSA nat | KeyEd25519 | KeyRSA nat | KeyOther

record Name =
  CommonName :: string
  Organization :: "string list"

record CertTemplate =
  SerialNumber :: int
  Subject :: Name
  NotBefore :: int
  NotAfter :: int
  IsCA :: bool
  KeyUsages :: "KeyUsage list"
  ExtKeyUsages :: "ExtKeyUsage list"
  IPAddresses :: "string list"
  DNSNames :: "string list"

record 'p Cert = CertTemplate +
  PublicKey :: 'p
  Raw :: string

record 'p CSR =
  csr_PublicKey :: 'p
  csr_signatureOk :: bool

text \<open>The library calls, over private keys \<open>'k\<close> and public keys \<open>'p\<close>.\<close>

record ('k, 'p) X509 =
  sha256 :: "string \<Rightarrow> string"
  pemDecode :: "string \<Rightarrow> (string \<times> string \<times> string) option"
  pemEncode :: "string \<Rightarrow> string \<Rightarrow> string"
  parseCSR :: "string \<Rightarrow> 'p CSR option"
  createCSR :: "Name \<Rightarrow> 'k \<Rightarrow> string option"
  createCert :: "CertTemplate \<Rightarrow> 'p Cert \<Rightarrow> 'p \<Rightarrow> 'k \<Rightarrow> string option"
  selfSign :: "CertTemplate \<Rightarrow> 'k \<Rightarrow> string option"
  parseCert :: "string \<Rightarrow> 'p Cert option"
  parseKey :: "string \<Rightarrow> 'k option"
  marshalKey :: "'k \<Rightarrow> string option"
  publicOf :: "'k \<Rightarrow> 'p"
  keyInfo :: "'p \<Rightarrow> KeyInfo"
  verifyChain :: "'p Cert \<Rightarrow> 'p Cert list \<Rightarrow> 'p Cert list \<Rightarrow> bool"
  addYears :: "int \<Rightarrow> nat \<Rightarrow> int"
  parseIP :: "string \<Rightarrow> bool"

definition nodeCNPrefix :: string where "nodeCNPrefix = ''klite:node:''"
definition nodeOrg :: string where "nodeOrg = ''klite:nodes''"
definition pemTypeCert :: string where "pemTypeCert = ''CERTIFICATE''"
definition pemTypeCSR :: string where "pemTypeCSR = ''CERTIFICATE REQUEST''"
definition pemTypeKey :: string where "pemTypeKey = ''EC PRIVATE KEY''"
definition maxCSRLen :: nat where "maxCSRLen = 64 * 1024"
definition caYears :: nat where "caYears = 10"
definition leafYears :: nat where "leafYears = 1"
definition backdate :: int where "backdate = 5 * 60"

lemmas ca_consts = nodeCNPrefix_def nodeOrg_def pemTypeCert_def pemTypeCSR_def pemTypeKey_def
  maxCSRLen_def caYears_def leafYears_def backdate_def

record ('k, 'p) CA =
  ca_Cert :: "'p Cert"
  ca_Key :: 'k
  ca_CertPEM :: string

datatype CAErr =
  ErrFile | ErrPartialState | ErrKeyPerms | ErrNotPEM string | ErrTrailing string | ErrX509 | ErrKeyMismatch
| ErrEmptyNode | ErrCSRTooLong | ErrCSRParse | ErrCSRSignature | ErrWeakKey | ErrKeyType
| ErrNoCerts | ErrPin HashErr | ErrPeerParse nat | ErrChain

text \<open>\<open>bytes.TrimSpace\<close> on ASCII: only whether anything is left of it matters here.\<close>

definition isSpace :: "char \<Rightarrow> bool" where
  "isSpace c \<longleftrightarrow> (let n = (of_char c :: nat) in 9 \<le> n \<and> n \<le> 13 \<or> n = 32)"

definition blank :: "string \<Rightarrow> bool" where
  "blank s \<longleftrightarrow> list_all isSpace s"

definition pem_strict :: "('k, 'p) X509 \<Rightarrow> string \<Rightarrow> string \<Rightarrow> CAErr + string" where
  "pem_strict X typ pem = (case pemDecode X pem of
     None \<Rightarrow> Inl (ErrNotPEM typ)
   | Some (t, body, rest) \<Rightarrow>
       if t \<noteq> typ then Inl (ErrNotPEM typ)
       else if \<not> blank rest then Inl (ErrTrailing typ)
       else Inr body)"

definition newTemplate :: "('k, 'p) X509 \<Rightarrow> int \<Rightarrow> Name \<Rightarrow> int \<Rightarrow> nat \<Rightarrow> CertTemplate" where
  "newTemplate X rnd subject now years = \<lparr>SerialNumber = rnd + 1, Subject = subject,
     NotBefore = now - backdate, NotAfter = addYears X now years, IsCA = False, KeyUsages = [],
     ExtKeyUsages = [], IPAddresses = [], DNSNames = []\<rparr>"

definition newLeafTemplate :: "('k, 'p) X509 \<Rightarrow> ('k, 'p) CA \<Rightarrow> int \<Rightarrow> int \<Rightarrow> Name \<Rightarrow> CertTemplate" where
  "newLeafTemplate X c rnd now subject =
     (let tmpl = newTemplate X rnd subject now leafYears in
      if NotAfter (ca_Cert c) < NotAfter tmpl then tmpl\<lparr>NotAfter := NotAfter (ca_Cert c)\<rparr> else tmpl)"

definition checkCSRKey :: "('k, 'p) X509 \<Rightarrow> 'p \<Rightarrow> CAErr option" where
  "checkCSRKey X pub = (case keyInfo X pub of
     KeyECDSA bits \<Rightarrow> if bits < 256 then Some ErrWeakKey else None
   | KeyEd25519 \<Rightarrow> None
   | KeyRSA bits \<Rightarrow> if bits < 2048 then Some ErrWeakKey else None
   | KeyOther \<Rightarrow> Some ErrKeyType)"

definition nodeTemplate :: "('k, 'p) X509 \<Rightarrow> ('k, 'p) CA \<Rightarrow> int \<Rightarrow> int \<Rightarrow> string \<Rightarrow> CertTemplate" where
  "nodeTemplate X c rnd now node =
     (newLeafTemplate X c rnd now \<lparr>CommonName = nodeCNPrefix @ node, Organization = [nodeOrg]\<rparr>)
       \<lparr>KeyUsages := [DigitalSignature], ExtKeyUsages := [ClientAuth, ServerAuth]\<rparr>"

definition SignNodeCSR :: "('k, 'p) X509 \<Rightarrow> ('k, 'p) CA \<Rightarrow> int \<Rightarrow> int \<Rightarrow> string \<Rightarrow> string \<Rightarrow> CAErr + string" where
  "SignNodeCSR X c rnd now csrPEM node =
     (if node = [] then Inl ErrEmptyNode
      else if length csrPEM > maxCSRLen then Inl ErrCSRTooLong
      else case pem_strict X pemTypeCSR csrPEM of
        Inl e \<Rightarrow> Inl e
      | Inr body \<Rightarrow>
        (case parseCSR X body of
           None \<Rightarrow> Inl ErrCSRParse
         | Some csr \<Rightarrow>
           if \<not> csr_signatureOk csr then Inl ErrCSRSignature
           else case checkCSRKey X (csr_PublicKey csr) of
             Some e \<Rightarrow> Inl e
           | None \<Rightarrow>
             (case createCert X (nodeTemplate X c rnd now node) (ca_Cert c) (csr_PublicKey csr) (ca_Key c) of
                None \<Rightarrow> Inl ErrX509
              | Some der \<Rightarrow> Inr (pemEncode X pemTypeCert der))))"

definition NewNodeCSR :: "('k, 'p) X509 \<Rightarrow> 'k \<Rightarrow> string \<Rightarrow> CAErr + string \<times> string" where
  "NewNodeCSR X key node = (case createCSR X \<lparr>CommonName = nodeCNPrefix @ node, Organization = []\<rparr> key of
     None \<Rightarrow> Inl ErrX509
   | Some der \<Rightarrow> (case marshalKey X key of
       None \<Rightarrow> Inl ErrX509
     | Some keyDER \<Rightarrow> Inr (pemEncode X pemTypeCSR der, pemEncode X pemTypeKey keyDER)))"

definition NodeFromCert :: "'p Cert \<Rightarrow> string option" where
  "NodeFromCert cert = (case CutPrefix (CommonName (Subject cert)) nodeCNPrefix of
     None \<Rightarrow> None
   | Some node \<Rightarrow> if node = [] then None else Some node)"

fun serverSANs :: "('k, 'p) X509 \<Rightarrow> string list \<Rightarrow> CertTemplate \<Rightarrow> CertTemplate" where
  "serverSANs X [] tmpl = tmpl"
| "serverSANs X (h # hs) tmpl =
     (if parseIP X h then serverSANs X hs (tmpl\<lparr>IPAddresses := IPAddresses tmpl @ [h]\<rparr>)
      else serverSANs X hs (tmpl\<lparr>DNSNames := DNSNames tmpl @ [h]\<rparr>))"

definition ServerCert :: "('k, 'p) X509 \<Rightarrow> ('k, 'p) CA \<Rightarrow> int \<Rightarrow> int \<Rightarrow> 'k \<Rightarrow> string list \<Rightarrow> CAErr + string list \<times> 'k" where
  "ServerCert X c rnd now key hosts =
     (let tmpl = serverSANs X hosts ((newLeafTemplate X c rnd now \<lparr>CommonName = ''klited'', Organization = []\<rparr>)
            \<lparr>KeyUsages := [DigitalSignature], ExtKeyUsages := [ServerAuth]\<rparr>) in
      case createCert X tmpl (ca_Cert c) (publicOf X key) (ca_Key c) of
        None \<Rightarrow> Inl ErrX509
      | Some der \<Rightarrow>
        (case parseCert X der of None \<Rightarrow> Inl ErrX509 | Some leaf \<Rightarrow> Inr ([der, Raw (ca_Cert c)], key)))"

subsection \<open>The root on disk\<close>

datatype FsEntry = FsMissing | FsBroken | FsFile string nat

type_synonym Fs = "string \<Rightarrow> FsEntry"

definition fileExists :: "Fs \<Rightarrow> string \<Rightarrow> CAErr + bool" where
  "fileExists fs path = (case fs path of FsMissing \<Rightarrow> Inr False | FsBroken \<Rightarrow> Inl ErrFile | FsFile _ _ \<Rightarrow> Inr True)"

definition readFile :: "Fs \<Rightarrow> string \<Rightarrow> CAErr + string" where
  "readFile fs path = (case fs path of FsFile content _ \<Rightarrow> Inr content | _ \<Rightarrow> Inl ErrFile)"

definition writeFile :: "Fs \<Rightarrow> string \<Rightarrow> string \<Rightarrow> nat \<Rightarrow> Fs option" where
  "writeFile fs path content perm = (case fs path of
     FsBroken \<Rightarrow> None
   | FsMissing \<Rightarrow> Some (fs(path := FsFile content perm))
   | FsFile _ old \<Rightarrow> Some (fs(path := FsFile content old)))"

definition checkKeyPerms :: "Fs \<Rightarrow> string \<Rightarrow> CAErr option" where
  "checkKeyPerms fs keyPath = (case fs keyPath of
     FsFile _ perm \<Rightarrow> if perm mod 64 \<noteq> 0 then Some ErrKeyPerms else None
   | _ \<Rightarrow> Some ErrFile)"

definition parseKeyPEMStrict :: "('k, 'p) X509 \<Rightarrow> string \<Rightarrow> CAErr + 'k" where
  "parseKeyPEMStrict X keyPEM = (case pem_strict X pemTypeKey keyPEM of
     Inl e \<Rightarrow> Inl e
   | Inr body \<Rightarrow> (case parseKey X body of None \<Rightarrow> Inl ErrX509 | Some k \<Rightarrow> Inr k))"

definition parseCertPEMStrict :: "('k, 'p) X509 \<Rightarrow> string \<Rightarrow> CAErr + 'p Cert \<times> string" where
  "parseCertPEMStrict X certPEM = (case pem_strict X pemTypeCert certPEM of
     Inl e \<Rightarrow> Inl e
   | Inr body \<Rightarrow> (case parseCert X body of
       None \<Rightarrow> Inl ErrX509
     | Some cert \<Rightarrow> Inr (cert, pemEncode X pemTypeCert body)))"

definition ca_load :: "('k, 'p) X509 \<Rightarrow> Fs \<Rightarrow> string \<Rightarrow> string \<Rightarrow> CAErr + ('k, 'p) CA" where
  "ca_load X fs certPath keyPath = (case checkKeyPerms fs keyPath of
     Some e \<Rightarrow> Inl e
   | None \<Rightarrow> (case readFile fs certPath of
       Inl e \<Rightarrow> Inl e
     | Inr certPEM \<Rightarrow> (case readFile fs keyPath of
         Inl e \<Rightarrow> Inl e
       | Inr keyPEM \<Rightarrow> (case parseCertPEMStrict X certPEM of
           Inl e \<Rightarrow> Inl e
         | Inr (cert, canonPEM) \<Rightarrow> (case parseKeyPEMStrict X keyPEM of
             Inl e \<Rightarrow> Inl e
           | Inr key \<Rightarrow>
               if publicOf X key \<noteq> PublicKey cert then Inl ErrKeyMismatch
               else Inr \<lparr>ca_Cert = cert, ca_Key = key, ca_CertPEM = canonPEM\<rparr>)))))"

definition caTemplate :: "('k, 'p) X509 \<Rightarrow> int \<Rightarrow> int \<Rightarrow> CertTemplate" where
  "caTemplate X rnd now = (newTemplate X rnd \<lparr>CommonName = ''klite-ca@'' @ itoa_int now, Organization = []\<rparr> now caYears)
     \<lparr>IsCA := True, KeyUsages := [CertSign, DigitalSignature]\<rparr>"

text \<open>The key is written before the certificate; a failed write leaves what was written so far.\<close>

definition ca_create :: "('k, 'p) X509 \<Rightarrow> bool \<Rightarrow> 'k \<Rightarrow> int \<Rightarrow> int \<Rightarrow> Fs \<Rightarrow> string \<Rightarrow> string \<Rightarrow> (CAErr + ('k, 'p) CA) \<times> Fs" where
  "ca_create X mkdirOk key rnd now fs certPath keyPath =
     (if \<not> mkdirOk then (Inl ErrFile, fs)
      else case selfSign X (caTemplate X rnd now) key of
        None \<Rightarrow> (Inl ErrX509, fs)
      | Some der \<Rightarrow> (case parseCert X der of
          None \<Rightarrow> (Inl ErrX509, fs)
        | Some cert \<Rightarrow> (case marshalKey X key of
            None \<Rightarrow> (Inl ErrX509, fs)
          | Some keyDER \<Rightarrow>
            (let certPEM = pemEncode X pemTypeCert der in
             case writeFile fs keyPath (pemEncode X pemTypeKey keyDER) 384 of
               None \<Rightarrow> (Inl ErrFile, fs)
             | Some fs1 \<Rightarrow> (case writeFile fs1 certPath certPEM 384 of
                 None \<Rightarrow> (Inl ErrFile, fs1)
               | Some fs2 \<Rightarrow> (Inr \<lparr>ca_Cert = cert, ca_Key = key, ca_CertPEM = certPEM\<rparr>, fs2))))))"

definition LoadOrCreate :: "('k, 'p) X509 \<Rightarrow> bool \<Rightarrow> 'k \<Rightarrow> int \<Rightarrow> int \<Rightarrow> Fs \<Rightarrow> string \<Rightarrow> (CAErr + ('k, 'p) CA) \<times> Fs" where
  "LoadOrCreate X mkdirOk key rnd now fs dir =
     (let certPath = dir @ ''/ca.crt''; keyPath = dir @ ''/ca.key'' in
      case fileExists fs certPath of
        Inl e \<Rightarrow> (Inl e, fs)
      | Inr certExists \<Rightarrow> (case fileExists fs keyPath of
          Inl e \<Rightarrow> (Inl e, fs)
        | Inr keyExists \<Rightarrow>
            if certExists \<and> keyExists then (ca_load X fs certPath keyPath, fs)
            else if certExists \<noteq> keyExists then (Inl ErrPartialState, fs)
            else ca_create X mkdirOk key rnd now fs certPath keyPath))"

subsection \<open>The first dial\<close>

record Bootstrap =
  b_caHash :: string
  b_caPEM :: string

definition NewBootstrap :: "string \<Rightarrow> Bootstrap" where
  "NewBootstrap caHash = \<lparr>b_caHash = caHash, b_caPEM = []\<rparr>"

fun parsePeers :: "('k, 'p) X509 \<Rightarrow> nat \<Rightarrow> string list \<Rightarrow> CAErr + 'p Cert list" where
  "parsePeers X i [] = Inr []"
| "parsePeers X i (raw # raws) = (case parseCert X raw of
     None \<Rightarrow> Inl (ErrPeerParse i)
   | Some cert \<Rightarrow> (case parsePeers X (Suc i) raws of Inl e \<Rightarrow> Inl e | Inr certs \<Rightarrow> Inr (cert # certs)))"

text \<open>\<open>certs[1:max(1, len(certs)-1)]\<close>: everything between the leaf and the root.\<close>

definition intermediates_of :: "'a list \<Rightarrow> 'a list" where
  "intermediates_of certs = take (max 1 (length certs - 1) - 1) (drop 1 certs)"

definition VerifyPeerCertificate :: "('k, 'p) X509 \<Rightarrow> Bootstrap \<Rightarrow> string list \<Rightarrow> (CAErr + unit) \<times> Bootstrap" where
  "VerifyPeerCertificate X b rawCerts =
     (if rawCerts = [] then (Inl ErrNoCerts, b)
      else
        (let caPEM = pemEncode X pemTypeCert (last rawCerts) in
         case VerifyCAHash (sha256 X) caPEM (b_caHash b) of
           Some e \<Rightarrow> (Inl (ErrPin e), b)
         | None \<Rightarrow> (case parsePeers X 0 rawCerts of
             Inl e \<Rightarrow> (Inl e, b)
           | Inr certs \<Rightarrow>
               if \<not> verifyChain X (hd certs) [last certs] (intermediates_of certs) then (Inl ErrChain, b)
               else (Inr (), b\<lparr>b_caPEM := caPEM\<rparr>))))"

definition verifyConnection :: "('k, 'p) X509 \<Rightarrow> Bootstrap \<Rightarrow> 'p Cert list \<Rightarrow> (CAErr + unit) \<times> Bootstrap" where
  "verifyConnection X b peers = VerifyPeerCertificate X b (map Raw peers)"

definition CAPEM :: "Bootstrap \<Rightarrow> string" where
  "CAPEM b = b_caPEM b"

subsection \<open>Hexadecimal round trip\<close>

lemma fromHexChar_digit: "d < 16 \<Longrightarrow> fromHexChar (digit_char d) = Some d"
  by (auto simp: fromHexChar_def digit_char_def Let_def)

lemma of_char_lt [simp]: "(of_char c :: nat) < 256"
  by (metis nat_of_char_less_256)

lemma hex_decode_encode [simp]: "hex_DecodeString (hex_EncodeToString bs) = Some bs"
proof (induction bs)
  case (Cons c bs)
  have "16 * (of_char c div 16) + of_char c mod 16 = (of_char c :: nat)" by simp
  moreover have "(of_char c :: nat) div 16 < 16" using of_char_lt [of c] by (simp add: div_less_iff_less_mult)
  ultimately show ?case
    using Cons by (simp add: hex_EncodeToString_def hex_byte_def fromHexChar_digit)
qed (simp add: hex_EncodeToString_def)

lemma hex_length [simp]: "length (hex_EncodeToString bs) = 2 * length bs"
  by (induction bs) (simp_all add: hex_EncodeToString_def hex_byte_def)

lemma digit_char_colon: "d < 16 \<Longrightarrow> digit_char d \<noteq> CHR '':''"
  using fromHexChar_digit [of d] by (auto simp: fromHexChar_def Let_def)

lemma hex_byte_no_colon: "CHR '':'' \<notin> set (hex_byte c)"
proof -
  have "(of_char c :: nat) div 16 < 16" "(of_char c :: nat) mod 16 < 16"
    using of_char_lt [of c] by (auto simp: div_less_iff_less_mult)
  from digit_char_colon [OF this(1)] digit_char_colon [OF this(2)] show ?thesis
    unfolding hex_byte_def by (auto dest: sym)
qed

lemma hex_no_colon: "CHR '':'' \<notin> set (hex_EncodeToString bs)"
  by (simp add: hex_EncodeToString_def hex_byte_no_colon)

subsection \<open>Properties\<close>



text \<open>
  What the code relies on of the X.509 and PEM libraries: a PEM block decodes to what was encoded, a
  marshalled key parses back, and an issued certificate parses with the common name of its template
  and the public key it was issued for.
\<close>

definition x509_documented :: "('k, 'p) X509 \<Rightarrow> bool" where
  "x509_documented X \<longleftrightarrow>
     (\<forall>b. length (sha256 X b) = sha256_Size) \<and>
     (\<forall>t b. CHR 0x0A \<notin> set t \<longrightarrow> pemDecode X (pemEncode X t b) = Some (t, b, [])) \<and>
     (\<forall>k d. marshalKey X k = Some d \<longrightarrow> parseKey X d = Some k) \<and>
     (\<forall>tmpl k der cert. selfSign X tmpl k = Some der \<longrightarrow> parseCert X der = Some cert \<longrightarrow> PublicKey cert = publicOf X k) \<and>
     (\<forall>tmpl par p k der cert. createCert X tmpl par p k = Some der \<longrightarrow> parseCert X der = Some cert \<longrightarrow>
        CommonName (Subject cert) = CommonName (Subject tmpl) \<and> PublicKey cert = p)"

lemma documented_pem:
  "x509_documented X \<Longrightarrow> CHR 0x0A \<notin> set t \<Longrightarrow> pem_strict X t (pemEncode X t b) = Inr b"
  by (simp add: x509_documented_def pem_strict_def blank_def)

lemma pem_types_no_newline [simp]:
  "CHR 0x0A \<notin> set pemTypeCert" "CHR 0x0A \<notin> set pemTypeKey" "CHR 0x0A \<notin> set pemTypeCSR"
  by (simp_all add: ca_consts)

text \<open>A root that was created is the root every later start loads: a second start mints nothing.\<close>

lemma created_root_reloads:
  assumes "x509_documented X" and "LoadOrCreate X mk key rnd now fs dir = (Inr c, fs')"
    and "fs (dir @ ''/ca.crt'') = FsMissing" and "fs (dir @ ''/ca.key'') = FsMissing"
  shows "LoadOrCreate X mk' key' rnd' now' fs' dir = (Inr c, fs')"
proof -
  let ?crt = "dir @ ''/ca.crt''" and ?key = "dir @ ''/ca.key''"
  from assms(2-4) obtain der cert keyDER where c: "mk" "selfSign X (caTemplate X rnd now) key = Some der"
      "parseCert X der = Some cert" "marshalKey X key = Some keyDER"
    and res: "c = \<lparr>ca_Cert = cert, ca_Key = key, ca_CertPEM = pemEncode X pemTypeCert der\<rparr>"
    and fs': "fs' = fs(?key := FsFile (pemEncode X pemTypeKey keyDER) 384, ?crt := FsFile (pemEncode X pemTypeCert der) 384)"
    by (auto simp: LoadOrCreate_def fileExists_def ca_create_def writeFile_def Let_def split: if_splits option.splits)
  have key: "parseKey X keyDER = Some key" "PublicKey cert = publicOf X key"
    using assms(1) c by (auto simp: x509_documented_def)
  have "ca_load X fs' ?crt ?key = Inr c"
    by (simp add: ca_load_def checkKeyPerms_def readFile_def fs' parseCertPEMStrict_def parseKeyPEMStrict_def
        documented_pem [OF assms(1)] c key res)
  moreover have "fileExists fs' ?crt = Inr True" "fileExists fs' ?key = Inr True"
    by (simp_all add: fileExists_def fs')
  ultimately show ?thesis by (simp add: LoadOrCreate_def Let_def)
qed

text \<open>A signed CSR carries the name the server stamped, whatever the CSR asked for.\<close>

lemma signed_identity:
  assumes "x509_documented X" and "SignNodeCSR X c rnd now csr node = Inr pem"
    and "parseCertPEMStrict X pem = Inr (cert, canon)"
  shows "NodeFromCert cert = Some node" and "node \<noteq> []"
proof -
  from assms(2) obtain p der where d: "createCert X (nodeTemplate X c rnd now node) (ca_Cert c) p (ca_Key c) = Some der"
    "pem = pemEncode X pemTypeCert der" "node \<noteq> []"
    by (auto simp: SignNodeCSR_def split: if_splits sum.splits option.splits)
  from assms(3) d documented_pem [OF assms(1), of pemTypeCert der] have "parseCert X der = Some cert"
    by (auto simp: parseCertPEMStrict_def split: option.splits)
  with assms(1) d(1) have "CommonName (Subject cert) = CommonName (Subject (nodeTemplate X c rnd now node))"
    unfolding x509_documented_def by blast
  also have "\<dots> = nodeCNPrefix @ node"
    by (simp add: nodeTemplate_def newLeafTemplate_def newTemplate_def Let_def)
  finally show "NodeFromCert cert = Some node" and "node \<noteq> []"
    using d(3) by (simp_all add: NodeFromCert_def)
qed

text \<open>The first dial keeps a CA only if it hashes to the pin and the leaf chains to it.\<close>

lemma VerifyPeerCertificate_captures:
  assumes "VerifyPeerCertificate X b raws = (r, b')" and "b_caPEM b' \<noteq> b_caPEM b"
  shows "r = Inr () \<and> VerifyCAHash (sha256 X) (b_caPEM b') (b_caHash b) = None \<and>
    (\<exists>certs. parsePeers X 0 raws = Inr certs \<and> verifyChain X (hd certs) [last certs] (intermediates_of certs))"
  using assms by (auto simp: VerifyPeerCertificate_def Let_def split: if_splits option.splits sum.splits)

end
