(* ===== verification/Klite_Auth.thy ===== *)
theory Klite_Auth
  imports Klite_CA Klite_Cluster
begin

text \<open>
  The gate in front of every RPC, \<open>src/internal/server/auth.go\<close>: who the caller is, which methods that
  caller may reach, the binding of an xDS stream to the node of its certificate, and the check that a
  node speaks for itself; with \<open>NodeToken\<close> of \<open>server.go\<close>. The context of a call holds what the TLS
  session verified, the \<open>authorization\<close> metadata, and the principal the gate stored.
\<close>

datatype principalKind = principalNone | principalAdmin | principalNode

record principal =
  pr_kind :: principalKind
  pr_node :: string

definition zero_principal :: principal where
  "zero_principal = \<lparr>pr_kind = principalNone, pr_node = []\<rparr>"

record 'p Ctx =
  cx_chains :: "'p Cert list list option"
  cx_authorization :: "string list option"
  cx_principal :: "principal option"

definition registerMethod :: string where "registerMethod = ''/klite.v1.AgentService/Register''"
definition xdsMethodPrefix :: string where "xdsMethodPrefix = ''/envoy.service.''"
definition agentPrefix :: string where "agentPrefix = ''/klite.v1.AgentService/''"
definition clusterPrefix :: string where "clusterPrefix = ''/klite.v1.ClusterService/''"

lemmas method_defs = registerMethod_def xdsMethodPrefix_def agentPrefix_def clusterPrefix_def

definition peerNode :: "'p Ctx \<Rightarrow> string option" where
  "peerNode ctx = (case cx_chains ctx of
     None \<Rightarrow> None
   | Some [] \<Rightarrow> None
   | Some ([] # _) \<Rightarrow> None
   | Some ((leaf # _) # _) \<Rightarrow> NodeFromCert leaf)"

fun first_bearer :: "string list \<Rightarrow> string" where
  "first_bearer [] = []"
| "first_bearer (v # vs) = (case CutPrefix v ''Bearer '' of Some tok \<Rightarrow> tok | None \<Rightarrow> first_bearer vs)"

definition bearerToken :: "'p Ctx \<Rightarrow> string" where
  "bearerToken ctx = (case cx_authorization ctx of None \<Rightarrow> [] | Some vs \<Rightarrow> first_bearer vs)"

definition principalOf :: "string \<Rightarrow> 'p Ctx \<Rightarrow> principal" where
  "principalOf adminToken ctx = (case peerNode ctx of
     Some node \<Rightarrow> \<lparr>pr_kind = principalNode, pr_node = node\<rparr>
   | None \<Rightarrow>
       if adminToken \<noteq> [] \<and> bearerToken ctx = adminToken then \<lparr>pr_kind = principalAdmin, pr_node = []\<rparr>
       else zero_principal)"

definition denied :: "principal \<Rightarrow> Code" where
  "denied p = (if pr_kind p = principalNone then Unauthenticated else PermissionDenied)"

definition authorize :: "string \<Rightarrow> 'p Ctx \<Rightarrow> string \<Rightarrow> Code + 'p Ctx" where
  "authorize adminToken ctx0 fullMethod =
     (let p = principalOf adminToken ctx0; ctx = ctx0\<lparr>cx_principal := Some p\<rparr> in
      if fullMethod = registerMethod then Inr ctx
      else if HasPrefix fullMethod agentPrefix \<or> HasPrefix fullMethod xdsMethodPrefix then
        (if pr_kind p = principalNode then Inr ctx else Inl (denied p))
      else if HasPrefix fullMethod clusterPrefix then
        (if pr_kind p = principalAdmin then Inr ctx else Inl (denied p))
      else Inl PermissionDenied)"

definition callerPrincipal :: "'p Ctx \<Rightarrow> principal" where
  "callerPrincipal ctx = getm zero_principal (cx_principal ctx)"

definition requireNodeMatch :: "'p Ctx \<Rightarrow> string \<Rightarrow> Code option" where
  "requireNodeMatch ctx node =
     (let p = callerPrincipal ctx in
      if pr_kind p = principalNode \<and> pr_node p \<noteq> node then Some PermissionDenied else None)"

definition auth_Unary :: "string \<Rightarrow> ('p Ctx \<Rightarrow> Code + 'r) \<Rightarrow> 'p Ctx \<Rightarrow> string \<Rightarrow> Code + 'r" where
  "auth_Unary adminToken handler ctx0 fullMethod = (case authorize adminToken ctx0 fullMethod of
     Inl code \<Rightarrow> Inl code
   | Inr ctx \<Rightarrow> handler ctx)"

record xdsBoundStream =
  xs_node :: string
  xs_bound :: bool

definition auth_Stream :: "string \<Rightarrow> ('p Ctx \<Rightarrow> xdsBoundStream option \<Rightarrow> Code + 'r) \<Rightarrow> 'p Ctx \<Rightarrow> string \<Rightarrow> Code + 'r" where
  "auth_Stream adminToken handler ctx0 fullMethod = (case authorize adminToken ctx0 fullMethod of
     Inl code \<Rightarrow> Inl code
   | Inr ctx \<Rightarrow>
       if HasPrefix fullMethod xdsMethodPrefix
       then handler ctx (Some \<lparr>xs_node = pr_node (callerPrincipal ctx), xs_bound = False\<rparr>)
       else handler ctx None)"

text \<open>A message on an xDS stream: a request with the node id it carries, or another type.\<close>

datatype XdsMsg = XdsRequest string | XdsOther

definition RecvMsg :: "xdsBoundStream \<Rightarrow> XdsMsg \<Rightarrow> (Code + unit) \<times> xdsBoundStream" where
  "RecvMsg s m = (case m of
     XdsOther \<Rightarrow> (Inl PermissionDenied, s)
   | XdsRequest ident \<Rightarrow>
       if ident = [] \<and> xs_bound s then (Inr (), s)
       else if ident = [] then (Inl PermissionDenied, s)
       else if ident \<noteq> xs_node s then (Inl PermissionDenied, s)
       else (Inr (), s\<lparr>xs_bound := True\<rparr>))"

record TokenConfig =
  CAPEM_tc :: string
  ClusterSecret :: string

definition NodeToken :: "(string \<Rightarrow> string) \<Rightarrow> TokenConfig option \<Rightarrow> Code + string" where
  "NodeToken sha tokens = (case tokens of
     None \<Rightarrow> Inl Unimplemented
   | Some tc \<Rightarrow> Inr (MintToken sha (CAPEM_tc tc) (ClusterSecret tc)))"

subsection \<open>Properties\<close>

lemma method_classes_disjoint:
  "HasPrefix m clusterPrefix \<Longrightarrow> \<not> HasPrefix m agentPrefix \<and> \<not> HasPrefix m xdsMethodPrefix \<and> m \<noteq> registerMethod"
  by (auto simp: HasPrefix_iff method_defs)

lemma authorize_principal:
  "authorize adminToken ctx m = Inr ctx' \<Longrightarrow> callerPrincipal ctx' = principalOf adminToken ctx"
  by (auto simp: authorize_def callerPrincipal_def Let_def split: if_splits)


text \<open>A library with the documented behaviour: PEM as a typed line, certificates as their subject.\<close>

definition sample_x509 :: "(unit, unit) X509" where
  "sample_x509 = \<lparr>sha256 = (\<lambda>b. take 32 (b @ replicate 32 CHR ''0'')),
     pemDecode = (\<lambda>s. map_option (\<lambda>(t, b). (t, b, [])) (Cut s [CHR 0x0A])),
     pemEncode = (\<lambda>t b. t @ CHR 0x0A # b),
     parseCSR = (\<lambda>_. Some \<lparr>csr_PublicKey = (), csr_signatureOk = True\<rparr>), createCSR = (\<lambda>_ _. Some ''csr''),
     createCert = (\<lambda>t _ _ _. Some (CommonName (Subject t))),
     selfSign = (\<lambda>t _. Some (CommonName (Subject t))),
     parseCert = (\<lambda>der. Some \<lparr>SerialNumber = 1, Subject = \<lparr>CommonName = der, Organization = []\<rparr>, NotBefore = 0,
       NotAfter = 1000000000, IsCA = False, KeyUsages = [], ExtKeyUsages = [], IPAddresses = [], DNSNames = [],
       PublicKey = (), Raw = der\<rparr>),
     parseKey = (\<lambda>_. Some ()), marshalKey = (\<lambda>_. Some []), publicOf = (\<lambda>_. ()), keyInfo = (\<lambda>_. KeyEd25519),
     verifyChain = (\<lambda>_ _ _. True), addYears = (\<lambda>t n. t + 31536000 * int n), parseIP = (\<lambda>_. False)\<rparr>"

lemma sample_x509_documented: "x509_documented sample_x509"
proof -
  have cut: "CHR 0x0A \<notin> set t \<Longrightarrow> Cut (t @ CHR 0x0A # b) [CHR 0x0A] = Some (t, b)" for t b
    using Cut_first [of "CHR 0x0A" t "[]" b] by simp
  show ?thesis
    by (auto simp: x509_documented_def sample_x509_def sha256_Size_def min_def cut)
qed

definition sample_ca :: "(unit, unit) CA" where
  "sample_ca = \<lparr>ca_Cert = the (parseCert sample_x509 ''klite-ca''), ca_Key = (), ca_CertPEM = []\<rparr>"

definition sample_cert :: "unit Cert" where
  "sample_cert = the (parseCert sample_x509 ''klite:node:n1'')"

definition sample_ctx :: "unit Cert list list option \<Rightarrow> string list \<Rightarrow> unit Ctx" where
  "sample_ctx cs vs = \<lparr>cx_chains = cs, cx_authorization = Some vs, cx_principal = None\<rparr>"


fun recv_all :: "xdsBoundStream \<Rightarrow> XdsMsg list \<Rightarrow> bool" where
  "recv_all s [] = True"
| "recv_all s (m # ms) = (case RecvMsg s m of (Inl _, _) \<Rightarrow> False | (Inr _, s') \<Rightarrow> recv_all s' ms)"

text \<open>
  C35. An xDS stream is bound to its certificate. Over any sequence of messages the stream accepts,
  every request names the node of the certificate or no node at all, and the first one names it: so
  the stream can only ever be served that node's snapshot.
\<close>

theorem xds_stream_bound:
  "recv_all \<lparr>xs_node = node, xs_bound = False\<rparr> ms \<longleftrightarrow>
     list_all (\<lambda>m. m = XdsRequest node \<or> m = XdsRequest []) ms \<and> (ms = [] \<or> (node \<noteq> [] \<and> hd ms = XdsRequest node))"
proof (cases ms)
  case (Cons m ms')
  have bound: "recv_all \<lparr>xs_node = node, xs_bound = True\<rparr> xs \<longleftrightarrow> list_all (\<lambda>m. m = XdsRequest node \<or> m = XdsRequest []) xs" for xs
    by (induction xs) (auto simp: RecvMsg_def split: XdsMsg.split)
  from Cons show ?thesis
    by (cases m) (auto simp: RecvMsg_def bound)
qed simp

end
