(* ===== verification/Klite_AgentServer.thy ===== *)
theory Klite_AgentServer
  imports Klite_Auth Klite_Drain Klite_Endpoints
begin

text \<open>
  The agent service, \<open>src/internal/server/agent.go\<close>: admission and registration with the assignment of
  node indices and the yield when two replicas hand out the same one, the stream of desired state,
  and the status report with its instance writes, heartbeat and index repair. The clock, and the CA
  as the function that signs a CSR, are arguments. A call that would run for ever or panic has a
  result of its own.
\<close>

subsection \<open>Requests, responses and configuration\<close>

record RegisterRequest =
  rq_node :: string
  rq_clusterToken :: string
  rq_csrPem :: string
  rq_advertiseAddress :: string

record NetBootstrap =
  nb_subnet :: string
  nb_kliteNetIp :: string
  nb_vipRange :: string
  nb_nodeIndex :: int
  nb_clusterId :: string
  nb_netAdminPortBase :: int
  nb_envoyAdminPortBase :: int
  nb_ingressPortBase :: int
  nb_ingressPortsPerNode :: int
  nb_netImage :: string

record RegisterResponse =
  rs_net :: NetBootstrap
  rs_certPem :: string
  rs_caPem :: string

record AgentCA =
  aca_sign :: "string \<Rightarrow> string \<Rightarrow> CAErr + string"
  aca_certPEM :: string

record AgentConfig =
  ac_ClusterToken :: string
  ac_CA :: "AgentCA option"
  ac_ClusterID :: string
  ac_NetAdminPortBase :: int
  ac_EnvoyAdminPortBase :: int
  ac_InfraIPBase :: int
  ac_IngressPortBase :: int
  ac_NetImage :: string

definition defaultInfraIPBase :: int where "defaultInfraIPBase = 10"

definition netBootstrap :: "AgentConfig \<Rightarrow> int \<Rightarrow> NetBootstrap" where
  "netBootstrap cfg idx =
     (let base = (if ac_InfraIPBase cfg = 0 then defaultInfraIPBase else ac_InfraIPBase cfg) in
      \<lparr>nb_subnet = ''10.44.0.0/16'', nb_kliteNetIp = ''10.44.0.'' @ itoa_int (wrap32 (base + idx)),
       nb_vipRange = ''10.44.64.0/18'', nb_nodeIndex = idx, nb_clusterId = ac_ClusterID cfg,
       nb_netAdminPortBase = ac_NetAdminPortBase cfg, nb_envoyAdminPortBase = ac_EnvoyAdminPortBase cfg,
       nb_ingressPortBase = IngressPortBase (ac_IngressPortBase cfg),
       nb_ingressPortsPerNode = IngressPortsPerNode, nb_netImage = ac_NetImage cfg\<rparr>)"

definition admit :: "AgentConfig \<Rightarrow> principal \<Rightarrow> RegisterRequest \<Rightarrow> Code + string" where
  "admit cfg p req =
     (let certified = (pr_kind p = principalNode \<and> pr_node p = rq_node req) in
      if \<not> certified \<and> rq_clusterToken req \<noteq> ac_ClusterToken cfg then Inl Unauthenticated
      else if rq_node req = [] then Inl InvalidArgument
      else if rq_csrPem req = [] then Inr []
      else case ac_CA cfg of
        None \<Rightarrow> Inl Unimplemented
      | Some ca \<Rightarrow> (case aca_sign ca (rq_csrPem req) (rq_node req) of
          Inl err \<Rightarrow> Inl InvalidArgument
        | Inr certPEM \<Rightarrow> Inr certPEM))"

definition advertiseIP :: "string \<Rightarrow> string" where
  "advertiseIP addr =
     (if addr = [] then []
      else case ParseAddr addr of
        None \<Rightarrow> []
      | Some ip \<Rightarrow> if IsLoopback ip \<or> IsUnspecified ip then [] else addr)"

subsection \<open>Node indices\<close>

text \<open>\<open>for i := int32(1); ; i++\<close>: the search has no bound of its own, and the counter wraps.\<close>

partial_function (option) freeNodeIndex_loop :: "int list \<Rightarrow> int \<Rightarrow> int option" where
  "freeNodeIndex_loop used i =
     (if i \<notin> set used then Some i else freeNodeIndex_loop used (wrap32 (i + 1)))"

declare freeNodeIndex_loop.simps [code]

definition obj_index :: "Object \<Rightarrow> int" where
  "obj_index o' = nst_nodeIndex (n_Status (GetNode o'))"

text \<open>\<open>Inr None\<close> is a search that never returns.\<close>

definition freeNodeIndex :: "'s Store \<Rightarrow> 's \<Rightarrow> (StoreErr + int option) \<times> 's" where
  "freeNodeIndex S s = (case st_List S KindNode s of
     (Inl err, s') \<Rightarrow> (Inl err, s')
   | (Inr (objs, _), s') \<Rightarrow> (Inr (freeNodeIndex_loop (map obj_index objs) 1), s'))"

definition holds_index :: "string \<Rightarrow> int \<Rightarrow> Object \<Rightarrow> bool" where
  "holds_index name idx o' \<longleftrightarrow> m_name (n_Meta (GetNode o')) \<noteq> name \<and> obj_index o' = idx"

definition indexHolder :: "'s Store \<Rightarrow> string \<Rightarrow> int \<Rightarrow> 's \<Rightarrow> (StoreErr + string) \<times> 's" where
  "indexHolder S name idx s = (case st_List S KindNode s of
     (Inl err, s') \<Rightarrow> (Inl err, s')
   | (Inr (objs, _), s') \<Rightarrow>
       (Inr (case List.find (holds_index name idx) objs of
               None \<Rightarrow> [] | Some o' \<Rightarrow> m_name (n_Meta (GetNode o'))), s'))"

definition set_index :: "int \<Rightarrow> Node \<Rightarrow> Node" where
  "set_index idx n = n\<lparr>n_status := Some ((n_Status n)\<lparr>nst_nodeIndex := idx\<rparr>)\<rparr>"

definition yield_body :: "int \<Rightarrow> Object \<Rightarrow> (StoreErr + bool) CasStep" where
  "yield_body idx obj =
     (if obj_index obj \<noteq> idx then CasDone (Inr True)
      else CasWrite (upd_Node (set_index 0) obj) (Inr True))"

definition yieldIndexCollision :: "'s Store \<Rightarrow> string \<Rightarrow> int \<Rightarrow> 's \<Rightarrow> (StoreErr + bool) \<times> 's" where
  "yieldIndexCollision S name idx s = (case indexHolder S name idx s of
     (Inl err, s1) \<Rightarrow> (Inl err, s1)
   | (Inr holder, s1) \<Rightarrow>
       if holder = [] then (Inr False, s1)
       else cas_loop S KindNode name (yield_body idx) Inl Inl (Inl ErrConflict) srv_casRetries s1)"

subsection \<open>Register\<close>

definition registered :: "int \<Rightarrow> string \<Rightarrow> int \<Rightarrow> Node \<Rightarrow> Node" where
  "registered now addr idx n =
     (let st = (n_Status n)\<lparr>nst_nodeIndex := idx, nst_lastHeartbeatUnix := now, nst_phase := NODE_PHASE_READY\<rparr>
      in n\<lparr>n_status := Some (if addr \<noteq> [] then st\<lparr>nst_advertiseAddress := addr\<rparr> else st)\<rparr>)"

definition register_response :: "AgentConfig \<Rightarrow> string \<Rightarrow> int \<Rightarrow> RegisterResponse" where
  "register_response cfg certPEM idx =
     \<lparr>rs_net = netBootstrap cfg idx, rs_certPem = certPEM,
      rs_caPem = (if certPEM \<noteq> [] then (case ac_CA cfg of None \<Rightarrow> [] | Some ca \<Rightarrow> aca_certPEM ca) else [])\<rparr>"

text \<open>A node keeps the index it has; one without gets the smallest free one.\<close>

definition claimIndex :: "'s Store \<Rightarrow> Object \<Rightarrow> 's \<Rightarrow> (StoreErr + int option) \<times> 's" where
  "claimIndex S obj s = (if obj_index obj = 0 then freeNodeIndex S s else (Inr (Some (obj_index obj)), s))"

fun register_loop ::
    "'s Store \<Rightarrow> AgentConfig \<Rightarrow> int \<Rightarrow> RegisterRequest \<Rightarrow> string \<Rightarrow> nat \<Rightarrow> 's \<Rightarrow> (Code + RegisterResponse) option \<times> 's" where
  "register_loop S cfg now req certPEM 0 s = (Some (Inl Aborted), s)"
| "register_loop S cfg now req certPEM (Suc k) s = (case st_Get S KindNode (rq_node req) s of
     (Inl ErrNotFound, s1) \<Rightarrow> (Some (Inl PermissionDenied), s1)
   | (Inl err, s1) \<Rightarrow> (Some (Inl (storeStatus err)), s1)
   | (Inr (obj, rv), s1) \<Rightarrow>
     (let fresh = (obj_index obj = 0) in
      case claimIndex S obj s1 of
        (Inl err, s2) \<Rightarrow> (Some (Inl (storeStatus err)), s2)
      | (Inr None, s2) \<Rightarrow> (None, s2)
      | (Inr (Some idx), s2) \<Rightarrow>
        (case st_Put S (upd_Node (registered now (advertiseIP (rq_advertiseAddress req)) idx) obj) rv s2 of
           (Inl ErrConflict, s3) \<Rightarrow> register_loop S cfg now req certPEM k s3
         | (Inl err, s3) \<Rightarrow> (Some (Inl (storeStatus err)), s3)
         | (Inr _, s3) \<Rightarrow>
           if fresh then
             (case yieldIndexCollision S (rq_node req) idx s3 of
                (Inl err, s4) \<Rightarrow> (Some (Inl (storeStatus err)), s4)
              | (Inr True, s4) \<Rightarrow> register_loop S cfg now req certPEM k s4
              | (Inr False, s4) \<Rightarrow> (Some (Inr (register_response cfg certPEM idx)), s4))
           else (Some (Inr (register_response cfg certPEM idx)), s3))))"

definition Register ::
    "'s Store \<Rightarrow> AgentConfig \<Rightarrow> int \<Rightarrow> principal \<Rightarrow> RegisterRequest \<Rightarrow> 's \<Rightarrow> (Code + RegisterResponse) option \<times> 's" where
  "Register S cfg now p req s = (case admit cfg p req of
     Inl code \<Rightarrow> (Some (Inl code), s)
   | Inr certPEM \<Rightarrow> register_loop S cfg now req certPEM srv_casRetries s)"

subsection \<open>WatchDesired\<close>

record DesiredState =
  ds_revision :: int
  ds_instances :: "Instance list"
  ds_net :: NetDesired

text \<open>
  One turn of the stream against the engine, then the stream against the engine states it is woken
  in: connect and one per kick.
\<close>

definition watch_turn :: "string \<Rightarrow> Endpoints \<Rightarrow> int \<Rightarrow> DesiredState option \<times> int" where
  "watch_turn node e lastSent = (case Snapshot node e of
     None \<Rightarrow> (None, lastSent)
   | Some snap \<Rightarrow>
       if snap_Revision snap \<noteq> lastSent
       then (Some \<lparr>ds_revision = snap_Revision snap, ds_instances = snap_Instances snap, ds_net = snap_Net snap\<rparr>,
             snap_Revision snap)
       else (None, lastSent))"

fun watch_turns :: "string \<Rightarrow> int \<Rightarrow> Endpoints list \<Rightarrow> DesiredState list" where
  "watch_turns node lastSent [] = []"
| "watch_turns node lastSent (e # es) =
     (let (out, last') = watch_turn node e lastSent; rest = watch_turns node last' es
      in case out of None \<Rightarrow> rest | Some ds \<Rightarrow> ds # rest)"

definition WatchDesired :: "'p Ctx \<Rightarrow> string \<Rightarrow> Endpoints list \<Rightarrow> Code + DesiredState list" where
  "WatchDesired ctx node es =
     (if node = [] then Inl InvalidArgument
      else case requireNodeMatch ctx node of
        Some code \<Rightarrow> Inl code
      | None \<Rightarrow> Inr (watch_turns node (-1) es))"

subsection \<open>ReportStatus\<close>

record InstanceStatusUpdate =
  iu_name :: string
  iu_uid :: string
  iu_status :: "InstanceStatus option"

record ReportStatusRequest =
  rp_node :: string
  rp_instances :: "InstanceStatusUpdate list"
  rp_advertiseAddress :: string
  rp_nodeIndex :: int

definition servingPhase :: "InstancePhase \<Rightarrow> bool" where
  "servingPhase p \<longleftrightarrow> p = INSTANCE_PHASE_READY \<or> p = INSTANCE_PHASE_RUNNING \<or> p = INSTANCE_PHASE_PENDING"

text \<open>\<open>StatusPanic\<close>: the update has no status, and the code writes through its nil pointer.\<close>

datatype StatusErr = StatusWrongNode | StatusStore StoreErr | StatusPanic

definition upd_Instance :: "(Instance \<Rightarrow> Instance) \<Rightarrow> Object \<Rightarrow> Object" where
  "upd_Instance f o' = (case o' of Object_Instance i \<Rightarrow> Object_Instance (f i) | _ \<Rightarrow> o')"

text \<open>A draining phase outlives a report that still says the instance serves.\<close>

definition reportedStatus :: "Instance \<Rightarrow> InstanceStatus \<Rightarrow> InstanceStatus" where
  "reportedStatus inst st =
     (if ist_phase (i_Status inst) = INSTANCE_PHASE_DRAINING \<and> servingPhase (ist_phase st)
      then st\<lparr>ist_phase := INSTANCE_PHASE_DRAINING\<rparr> else st)"

definition status_body :: "string \<Rightarrow> InstanceStatusUpdate \<Rightarrow> Object \<Rightarrow> (StatusErr + unit) CasStep" where
  "status_body node u obj =
     (let inst = GetInstance obj in
      if is_node (i_Spec inst) \<noteq> node then CasDone (Inl StatusWrongNode)
      else if m_uid (i_Meta inst) \<noteq> iu_uid u then CasDone (Inr ())
      else case iu_status u of
        None \<Rightarrow> CasDone (Inl StatusPanic)
      | Some st \<Rightarrow>
        (let st' = reportedStatus inst st in
         if i_status inst = Some st' then CasDone (Inr ())
         else CasWrite (upd_Instance (\<lambda>i. i\<lparr>i_status := Some st'\<rparr>) obj) (Inr ())))"

definition applyInstanceStatus :: "'s Store \<Rightarrow> string \<Rightarrow> InstanceStatusUpdate \<Rightarrow> 's \<Rightarrow> (StatusErr + unit) \<times> 's" where
  "applyInstanceStatus S node u s =
     cas_loop S KindInstance (iu_name u) (status_body node u)
       (\<lambda>e. if e = ErrNotFound then Inr () else Inl (StatusStore e)) (\<lambda>e. Inl (StatusStore e))
       (Inl (StatusStore ErrConflict)) srv_casRetries s"

text \<open>The updates of one report; only a panic stops the rest.\<close>

fun apply_statuses :: "'s Store \<Rightarrow> string \<Rightarrow> InstanceStatusUpdate list \<Rightarrow> 's \<Rightarrow> bool \<times> 's" where
  "apply_statuses S node [] s = (True, s)"
| "apply_statuses S node (u # us) s = (case applyInstanceStatus S node u s of
     (Inl StatusPanic, s') \<Rightarrow> (False, s')
   | (_, s') \<Rightarrow> apply_statuses S node us s')"

definition stamp_body :: "int \<Rightarrow> string \<Rightarrow> Object \<Rightarrow> (StoreErr + int) CasStep" where
  "stamp_body now advertise obj =
     (let st = n_Status (GetNode obj);
          phase = (if nst_phase st = NODE_PHASE_DRAINING then NODE_PHASE_DRAINING else NODE_PHASE_READY);
          sameAdvertise = (advertise = [] \<or> nst_advertiseAddress st = advertise) in
      if nst_lastHeartbeatUnix st = now \<and> nst_phase st = phase \<and> sameAdvertise then CasDone (Inr (nst_nodeIndex st))
      else
        (let st1 = st\<lparr>nst_lastHeartbeatUnix := now, nst_phase := phase\<rparr>;
             st2 = (if advertise \<noteq> [] then st1\<lparr>nst_advertiseAddress := advertise\<rparr> else st1)
         in CasWrite (upd_Node (\<lambda>n. n\<lparr>n_status := Some st2\<rparr>) obj) (Inr (nst_nodeIndex st))))"

definition stampNode :: "'s Store \<Rightarrow> int \<Rightarrow> string \<Rightarrow> string \<Rightarrow> 's \<Rightarrow> (StoreErr + int) \<times> 's" where
  "stampNode S now name advertise s =
     cas_loop S KindNode name (stamp_body now advertise) Inl Inl (Inl ErrConflict) srv_casRetries s"

fun heal_loop :: "'s Store \<Rightarrow> string \<Rightarrow> int \<Rightarrow> nat \<Rightarrow> 's \<Rightarrow> 's" where
  "heal_loop S name reported 0 s = s"
| "heal_loop S name reported (Suc k) s = (case st_Get S KindNode name s of
     (Inl err, s1) \<Rightarrow> s1
   | (Inr (obj, rv), s1) \<Rightarrow>
     if obj_index obj \<noteq> 0 then s1
     else (case indexHolder S name reported s1 of
         (Inl err, s2) \<Rightarrow> s2
       | (Inr holder, s2) \<Rightarrow>
         if holder \<noteq> [] then s2
         else (case st_Put S (upd_Node (set_index reported) obj) rv s2 of
             (Inl ErrConflict, s3) \<Rightarrow> heal_loop S name reported k s3
           | (Inl err, s3) \<Rightarrow> s3
           | (Inr _, s3) \<Rightarrow> snd (yieldIndexCollision S name reported s3))))"

definition healNodeIndex :: "'s Store \<Rightarrow> string \<Rightarrow> int \<Rightarrow> int \<Rightarrow> 's \<Rightarrow> 's" where
  "healNodeIndex S name storedIdx reported s =
     (if reported = 0 \<or> storedIdx = reported then s
      else if storedIdx \<noteq> 0 then s
      else heal_loop S name reported srv_casRetries s)"

datatype ReportResult = ReportOK | ReportErr Code | ReportPanic

definition ReportStatus :: "'s Store \<Rightarrow> int \<Rightarrow> 'p Ctx \<Rightarrow> ReportStatusRequest \<Rightarrow> 's \<Rightarrow> ReportResult \<times> 's" where
  "ReportStatus S now ctx req s =
     (if rp_node req = [] then (ReportErr InvalidArgument, s)
      else case requireNodeMatch ctx (rp_node req) of
        Some code \<Rightarrow> (ReportErr code, s)
      | None \<Rightarrow> (case apply_statuses S (rp_node req) (rp_instances req) s of
          (False, s1) \<Rightarrow> (ReportPanic, s1)
        | (True, s1) \<Rightarrow>
          (case stampNode S now (rp_node req) (advertiseIP (rp_advertiseAddress req)) s1 of
             (Inl err, s2) \<Rightarrow> (ReportErr (storeStatus err), s2)
           | (Inr storedIdx, s2) \<Rightarrow>
               (ReportOK, healNodeIndex S (rp_node req) storedIdx (rp_nodeIndex req) s2))))"

subsection \<open>The index search returns\<close>

lemma freeNodeIndex_loop_reaches:
  assumes "1 \<le> k" and "k \<le> i" and "i < 2147483648" and "i \<notin> set used"
    and "\<forall>j. 1 \<le> j \<and> j < i \<longrightarrow> j \<in> set used"
  shows "freeNodeIndex_loop used k = Some i"
  using assms(1,2)
proof (induction "nat (i - k)" arbitrary: k)
  case 0
  with assms(4) show ?case by (subst freeNodeIndex_loop.simps) simp
next
  case (Suc d)
  then have k: "1 \<le> k" "k < i" by auto
  then have "wrap32 (k + 1) = k + 1" using assms(3) by (intro wrap32_id) (simp add: is_int32_def)
  moreover have "freeNodeIndex_loop used (k + 1) = Some i" using Suc k by auto
  ultimately show ?case using k assms(5) by (subst freeNodeIndex_loop.simps) simp
qed

lemma least_free:
  fixes used :: "int list"
  obtains i where "1 \<le> i" "i \<le> int (length used) + 1" "i \<notin> set used" "\<forall>j. 1 \<le> j \<and> j < i \<longrightarrow> j \<in> set used"
proof -
  let ?P = "\<lambda>k :: nat. int k + 1 \<notin> set used"
  have "\<exists>k \<le> length used. ?P k"
  proof (rule ccontr)
    assume "\<not> (\<exists>k \<le> length used. ?P k)"
    then have "(\<lambda>k. int k + 1) ` {0..length used} \<subseteq> set used" by auto
    then have "card ((\<lambda>k. int k + 1) ` {0..length used}) \<le> card (set used)" by (simp add: card_mono)
    moreover have "inj_on (\<lambda>k. int k + 1) {0..length used}" by (simp add: inj_on_def)
    ultimately have "Suc (length used) \<le> card (set used)" by (simp add: card_image)
    with card_length [of used] show False by simp
  qed
  then obtain k where k: "k \<le> length used" "?P k" by blast
  define l where "l = (LEAST k. ?P k)"
  have l: "?P l" "l \<le> k" unfolding l_def by (rule LeastI [of ?P, OF k(2)], rule Least_le [of ?P, OF k(2)])
  have "\<forall>j. 1 \<le> j \<and> j < int l + 1 \<longrightarrow> j \<in> set used"
  proof (intro allI impI)
    fix j :: int assume j: "1 \<le> j \<and> j < int l + 1"
    then have "nat (j - 1) < l" by auto
    then have "\<not> ?P (nat (j - 1))" unfolding l_def by (rule not_less_Least)
    with j show "j \<in> set used" by simp
  qed
  with l k(1) show ?thesis by (intro that [of "int l + 1"]) auto
qed

text \<open>
  C36. The unbounded search for a node index ends. Whatever the store, when the listing holds fewer
  than \<open>2\<^sup>3\<^sup>1 - 1\<close> nodes the search returns the smallest positive index none of them
  holds, which is at most one more than their number.
\<close>

theorem freeNodeIndex_least:
  assumes "st_List S KindNode s = (Inr (objs, r), s')" and "int (length objs) < 2147483647"
  shows "\<exists>i. freeNodeIndex S s = (Inr (Some i), s') \<and> 1 \<le> i \<and> i \<le> int (length objs) + 1 \<and>
    i \<notin> obj_index ` set objs \<and> (\<forall>j. 1 \<le> j \<and> j < i \<longrightarrow> j \<in> obj_index ` set objs)"
proof -
  obtain i where i: "1 \<le> i" "i \<le> int (length (map obj_index objs)) + 1" "i \<notin> set (map obj_index objs)"
    "\<forall>j. 1 \<le> j \<and> j < i \<longrightarrow> j \<in> set (map obj_index objs)" by (rule least_free)
  from freeNodeIndex_loop_reaches [OF _ i(1) _ i(3,4)] i(2) assms(2)
  have "freeNodeIndex_loop (map obj_index objs) 1 = Some i" by simp
  with assms(1) i show ?thesis by (auto simp: freeNodeIndex_def)
qed

lemma freeNodeIndex_least_witness:
  "\<exists>i. freeNodeIndex (memory_store 7) (run_ops (memory_store 7) sample_joined_ops mem_New) =
      (Inr (Some i), run_ops (memory_store 7) sample_joined_ops mem_New) \<and> i = 1"
proof -
  let ?m = "run_ops (memory_store 7) sample_joined_ops mem_New"
  obtain objs r where l: "st_List (memory_store 7) KindNode ?m = (Inr (objs, r), ?m)"
    using mem_lists [OF kinds_in(3)] by blast
  have "case fst (st_List (memory_store 7) KindNode ?m) of Inr (xs, _) \<Rightarrow> map obj_index xs = [3] | Inl _ \<Rightarrow> False"
    by code_simp
  with l have objs: "map obj_index objs = [3]" by simp
  then have len: "int (length objs) < 2147483647" and img: "obj_index ` set objs = {3}"
    by (auto simp flip: set_map length_map [of obj_index])
  from freeNodeIndex_least [OF l len] obtain i where
    i: "freeNodeIndex (memory_store 7) ?m = (Inr (Some i), ?m)" "1 \<le> i" "\<forall>j. 1 \<le> j \<and> j < i \<longrightarrow> j \<in> obj_index ` set objs"
    by auto
  have "i = 1"
  proof (rule ccontr)
    assume "i \<noteq> 1"
    with i(2,3) have "(1::int) \<in> obj_index ` set objs" by auto
    with img show False by simp
  qed
  with i show ?thesis by simp
qed

subsection \<open>Indices in the view of the store\<close>

type_synonym view = "string \<times> string \<Rightarrow> (Object \<times> int) option"

definition idx_of :: "view \<Rightarrow> string \<Rightarrow> int" where
  "idx_of vw n = (case vw (KindNode, n) of Some (x, v) \<Rightarrow> obj_index x | None \<Rightarrow> 0)"

definition unique_indices :: "view \<Rightarrow> bool" where
  "unique_indices vw \<longleftrightarrow> (\<forall>a b. idx_of vw a = idx_of vw b \<and> idx_of vw a \<noteq> 0 \<longrightarrow> a = b)"

definition idx_kept :: "view \<Rightarrow> view \<Rightarrow> bool" where
  "idx_kept vw vw' \<longleftrightarrow> (\<forall>n. idx_of vw' n = idx_of vw n \<or> idx_of vw' n = 0)"

definition index_inv :: "Memory \<Rightarrow> bool" where
  "index_inv m \<longleftrightarrow> mem_ok m \<and> unique_indices (mem_view m)"

lemma idx_kept_refl [simp]: "idx_kept vw vw"
  by (simp add: idx_kept_def)

lemma idx_kept_unique: "unique_indices vw \<Longrightarrow> idx_kept vw vw' \<Longrightarrow> unique_indices vw'"
  unfolding unique_indices_def idx_kept_def by metis

lemma index_inv_kept: "index_inv m \<Longrightarrow> mem_ok m' \<Longrightarrow> idx_kept (mem_view m) (mem_view m') \<Longrightarrow> index_inv m'"
  by (auto simp: index_inv_def intro: idx_kept_unique)

lemma idx_of_upd:
  "idx_of (vw((KindNode, n) \<mapsto> (x, v))) = (idx_of vw)(n := obj_index x)"
  "k \<noteq> KindNode \<Longrightarrow> idx_of (vw((k, n) := e)) = idx_of vw"
  "idx_of (vw((KindNode, n) := None)) = (idx_of vw)(n := 0)"
  by (auto simp: idx_of_def fun_eq_iff)

lemma obj_index_stamped: "stamped y w x \<Longrightarrow> obj_index x = obj_index y"
  by (erule stampedE, cases y) (simp_all add: obj_index_def)

text \<open>A retry loop keeps the indices when its body does, and always when it writes another kind.\<close>

lemma cas_effect_indices:
  assumes "mem.cas_effect k n body errs m r m'" and "index_inv m"
    and "k = KindNode \<Longrightarrow> \<forall>x y r. body x = CasWrite y r \<longrightarrow> obj_index y = obj_index x \<or> obj_index y = 0"
  shows "index_inv m'"
proof (rule index_inv_kept [OF assms(2)])
  from assms(1) show "mem_ok m'" by (simp add: mem.cas_effect_def)
  from assms(1) consider "mem_view m' = mem_view m"
    | x v y w x' where "mem_view m (k, n) = Some (x, v)" "body x = CasWrite y r" "stamped y w x'"
        "mem_view m' = (mem_view m)((k, n) \<mapsto> (x', w))"
    unfolding mem.cas_effect_def by blast
  then show "idx_kept (mem_view m) (mem_view m')"
  proof cases
    case 1
    then show ?thesis by simp
  next
    case 2
    show ?thesis
    proof (cases "k = KindNode")
      case True
      have "idx_of (mem_view m) n = obj_index x" using 2(1) True by (simp add: idx_of_def)
      with assms(3) [OF True] 2 True obj_index_stamped [OF 2(3)] show ?thesis
        by (auto simp: idx_kept_def idx_of_upd)
    next
      case False
      with 2(4) show ?thesis by (simp add: idx_kept_def idx_of_upd)
    qed
  qed
qed

lemma obj_index_upd_Node:
  "(\<And>n. nst_nodeIndex (n_Status (f n)) = nst_nodeIndex (n_Status n)) \<Longrightarrow> obj_index (upd_Node f x) = obj_index x"
  by (cases x) (simp_all add: obj_index_def)

lemma obj_index_set_index: "obj_index (upd_Node (set_index i) (Object_Node n)) = i"
  by (simp add: obj_index_def set_index_def)

subsection \<open>Yield, Register and heal keep indices unique\<close>

definition node_listing :: "Memory \<Rightarrow> Object list \<Rightarrow> bool" where
  "node_listing m objs \<longleftrightarrow>
     (\<forall>x \<in> set objs. mem_view m (KindNode, object_name x) = Some (x, m_resourceVersion (MetaOf x)) \<and>
        m_name (n_Meta (GetNode x)) = object_name x \<and> object_name x \<noteq> []) \<and>
     (\<forall>n x v. mem_view m (KindNode, n) = Some (x, v) \<longrightarrow> x \<in> set objs \<and> object_name x = n)"

lemma mem_lists_nodes:
  assumes "mem_ok m"
  shows "\<exists>objs. st_List (memory_store now) KindNode m = (Inr (objs, mem_rev m), m) \<and> node_listing m objs"
proof -
  from mem_lists [OF kinds_in(3)] obtain objs where l: "st_List (memory_store now) KindNode m = (Inr (objs, mem_rev m), m)"
    by blast
  note entry = mem.listed_entry [OF assms l kinds_in(3)]
  note all = mem.listed_view(1) [OF assms l kinds_in(3)]
  have "node_listing m objs" unfolding node_listing_def
  proof (intro conjI ballI allI impI)
    fix x assume x: "x \<in> set objs"
    show "mem_view m (KindNode, object_name x) = Some (x, m_resourceVersion (MetaOf x))" using entry [OF x] by simp
    show "m_name (n_Meta (GetNode x)) = object_name x" using entry [OF x] node_object_name by simp
    show "object_name x \<noteq> []" using entry [OF x] by (auto simp: valid_name_def)
  next
    fix n x v assume e: "mem_view m (KindNode, n) = Some (x, v)"
    from mem.view_ok [OF assms e] have k: "object_name x = n" "m_resourceVersion (MetaOf x) = v" by auto
    with e all [of x] show "x \<in> set objs" "object_name x = n" by auto
  qed
  with l show ?thesis by blast
qed

lemma indexHolder_mem:
  assumes "mem_ok m"
  shows "\<exists>holder. indexHolder (memory_store now) name idx m = (Inr holder, m) \<and>
    (holder = [] \<longleftrightarrow> (\<forall>n x v. mem_view m (KindNode, n) = Some (x, v) \<longrightarrow> n = name \<or> obj_index x \<noteq> idx))"
proof -
  from mem_lists_nodes [OF assms] obtain objs where
    l: "st_List (memory_store now) KindNode m = (Inr (objs, mem_rev m), m)" and o: "node_listing m objs" by blast
  show ?thesis
  proof (cases "List.find (holds_index name idx) objs")
    case None
    then have none: "\<forall>x \<in> set objs. \<not> holds_index name idx x" by (simp add: find_None_iff)
    have "n = name \<or> obj_index x \<noteq> idx" if "mem_view m (KindNode, n) = Some (x, v)" for n x v
      using none o that unfolding node_listing_def holds_index_def by metis
    with None l show ?thesis by (auto simp: indexHolder_def)
  next
    case (Some x)
    then have x: "x \<in> set objs" "holds_index name idx x" by (auto simp: find_Some_iff)
    with o have x': "mem_view m (KindNode, object_name x) = Some (x, m_resourceVersion (MetaOf x))"
        "m_name (n_Meta (GetNode x)) = object_name x" "object_name x \<noteq> []" by (auto simp: node_listing_def)
    with x(2) have "\<not> (\<forall>n x v. mem_view m (KindNode, n) = Some (x, v) \<longrightarrow> n = name \<or> obj_index x \<noteq> idx)"
      unfolding holds_index_def by metis
    with Some l x' show ?thesis by (auto simp: indexHolder_def)
  qed
qed

lemma yield_keeps_key: "body_keeps_key (yield_body idx) KindNode"
  by (auto simp: body_keeps_key_def yield_body_def key_of_def object_name_def set_index_def split: if_splits)

lemma yield_indices:
  assumes "index_inv m" and "yieldIndexCollision (memory_store now) name idx m = (r, m')"
  shows "index_inv m'"
proof -
  have ok: "mem_ok m" using assms(1) by (simp add: index_inv_def)
  from indexHolder_mem [OF ok, of now name idx] obtain holder where
    h: "indexHolder (memory_store now) name idx m = (Inr holder, m)" by blast
  show ?thesis
  proof (cases "holder = []")
    case True
    with h assms show ?thesis by (simp add: yieldIndexCollision_def)
  next
    case False
    with h assms(2) have run: "cas_loop (memory_store now) KindNode name (yield_body idx) Inl Inl (Inl ErrConflict) srv_casRetries m = (r, m')"
      by (simp add: yieldIndexCollision_def)
    have "\<forall>x y r. yield_body idx x = CasWrite y r \<longrightarrow> obj_index y = obj_index x \<or> obj_index y = 0"
    proof (intro allI impI)
      fix x y r assume "yield_body idx x = CasWrite y r"
      then have "y = upd_Node (set_index 0) x" by (auto simp: yield_body_def split: if_splits)
      then show "obj_index y = obj_index x \<or> obj_index y = 0"
        by (cases x) (auto simp: obj_index_def set_index_def)
    qed
    with cas_effect_indices [OF mem.cas_loop_effect [OF ok kinds_in(3) yield_keeps_key run] assms(1)]
    show ?thesis by blast
  qed
qed

lemma freeNodeIndex_loop_free:
  assumes "freeNodeIndex_loop used i = Some j"
  shows "j \<notin> set used"
  by (rule freeNodeIndex_loop.raw_induct [OF _ assms]) (auto split: if_splits)

lemma freeNodeIndex_mem:
  assumes "mem_ok m" and "freeNodeIndex (memory_store now) m = (r, m')"
  shows "m' = m" and "r = Inr (Some i) \<Longrightarrow> mem_view m (KindNode, n) = Some (x, v) \<Longrightarrow> obj_index x \<noteq> i"
proof -
  from mem_lists_nodes [OF assms(1)] obtain objs where
    l: "st_List (memory_store now) KindNode m = (Inr (objs, mem_rev m), m)" and o: "node_listing m objs" by blast
  from l assms(2) show "m' = m" by (simp add: freeNodeIndex_def)
  show "obj_index x \<noteq> i" if r: "r = Inr (Some i)" and e: "mem_view m (KindNode, n) = Some (x, v)"
  proof -
    from l assms(2) r have "freeNodeIndex_loop (map obj_index objs) 1 = Some i" by (simp add: freeNodeIndex_def)
    from freeNodeIndex_loop_free [OF this] have "i \<notin> obj_index ` set objs" by simp
    moreover from o e have "x \<in> set objs" unfolding node_listing_def by blast
    ultimately show ?thesis by blast
  qed
qed

lemma mem_get_node:
  assumes "st_Get (memory_store now) KindNode n m = (r, m')"
  shows "m' = m" and "r = Inr (x, v) \<Longrightarrow> mem_view m (KindNode, n) = Some (x, v)"
proof -
  have g: "mem_Get KindNode n m = (r, m')" using assms by (simp add: memory_store_def)
  from mem_Get_cases [OF g] show "m' = m" by simp
  from mem_Get_cases [OF g] show "r = Inr (x, v) \<Longrightarrow> mem_view m (KindNode, n) = Some (x, v)"
    by (auto split: if_splits option.splits)
qed

text \<open>A write that moves a node to an index no other node holds keeps the indices unique.\<close>

lemma put_index:
  assumes "index_inv m" and "st_Put (memory_store now) y e m = (r, m')" and "key_of y = (KindNode, n)"
    and "obj_index y = idx_of (mem_view m) n \<or> (\<forall>a. a \<noteq> n \<longrightarrow> idx_of (mem_view m) a \<noteq> obj_index y)"
  shows "index_inv m'"
proof (cases r)
  case (Inl f)
  with assms(1,2) mem_Put_refused [of now y e m f m'] show ?thesis by (simp add: memory_store_def)
next
  case (Inr w)
  have ok: "mem_ok m" using assms(1) by (simp add: index_inv_def)
  from mem.put_done [OF ok assms(2) [unfolded Inr]] assms(3) obtain x' where
    x': "mem_ok m'" "stamped y w x'" "mem_view m' = (mem_view m)((KindNode, n) \<mapsto> (x', w))" by auto
  let ?f = "idx_of (mem_view m)"
  have idx: "idx_of (mem_view m') = ?f(n := obj_index y)"
    using x'(3) obj_index_stamped [OF x'(2)] by (simp add: idx_of_upd)
  have uniq: "?f a = ?f b \<Longrightarrow> ?f a \<noteq> 0 \<Longrightarrow> a = b" for a b
    using assms(1) unfolding index_inv_def unique_indices_def by blast
  have "unique_indices (mem_view m')"
    unfolding unique_indices_def idx
  proof (intro allI impI, elim conjE)
    fix a b assume ab: "(?f(n := obj_index y)) a = (?f(n := obj_index y)) b" "(?f(n := obj_index y)) a \<noteq> 0"
    show "a = b"
    proof (cases "obj_index y = ?f n")
      case True
      then have "?f(n := obj_index y) = ?f" by simp
      with ab uniq show ?thesis by simp
    next
      case False
      with assms(4) ab uniq show ?thesis by (auto split: if_splits)
    qed
  qed
  with x'(1) show ?thesis by (simp add: index_inv_def)
qed

lemma obj_index_registered: "obj_index (upd_Node (registered now addr i) (Object_Node n)) = i"
  by (simp add: obj_index_def registered_def Let_def)

lemma node_entry:
  assumes "mem_ok m" and "mem_view m (KindNode, n) = Some (x, v)"
  shows "x = Object_Node (GetNode x)" and "object_name x = n" and "idx_of (mem_view m) n = obj_index x"
  using mem.view_ok [OF assms] Object_of_kind(2) [of x] assms(2) by (simp_all add: idx_of_def)

lemma key_of_upd_Node: "(\<And>n. n_meta (f n) = n_meta n) \<Longrightarrow> key_of (upd_Node f x) = key_of x"
  by (simp add: key_of_def object_name_def)

lemma idx_free_others:
  assumes "\<And>n x v. mem_view m (KindNode, n) = Some (x, v) \<Longrightarrow> n = name \<or> obj_index x \<noteq> i" and "i \<noteq> 0"
  shows "\<forall>a. a \<noteq> name \<longrightarrow> idx_of (mem_view m) a \<noteq> i"
proof (intro allI impI)
  fix a assume a: "a \<noteq> name"
  show "idx_of (mem_view m) a \<noteq> i"
  proof (cases "mem_view m (KindNode, a)")
    case None
    with assms(2) show ?thesis by (simp add: idx_of_def)
  next
    case (Some e)
    obtain x v where "e = (x, v)" by fastforce
    with Some a assms(1) [of a x v] show ?thesis by (auto simp: idx_of_def)
  qed
qed

lemma register_indices:
  assumes "index_inv m" and "register_loop (memory_store t) cfg now req certPEM k m = (r, m')"
  shows "index_inv m'"
  using assms
proof (induction k arbitrary: m)
  case (Suc k)
  let ?S = "memory_store t" and ?name = "rq_node req" and ?adv = "advertiseIP (rq_advertiseAddress req)"
  have ok: "mem_ok m" using Suc.prems(1) by (simp add: index_inv_def)
  obtain g m1 where g: "st_Get ?S KindNode ?name m = (g, m1)" by fastforce
  note m1 = mem_get_node(1) [OF g]
  show ?case
  proof (cases g)
    case (Inl e)
    with Suc.prems g m1 show ?thesis by (cases e) auto
  next
    case (Inr xv)
    obtain obj rv where xv: "xv = (obj, rv)" by fastforce
    have e: "mem_view m (KindNode, ?name) = Some (obj, rv)" using mem_get_node(2) [OF g] Inr xv by simp
    note node = node_entry [OF ok e]
    obtain f m2 where f: "claimIndex ?S obj m = (f, m2)" by fastforce
    have m2: "m2 = m" using f freeNodeIndex_mem(1) [OF ok] by (auto simp: claimIndex_def split: if_splits)
    note run = Suc.prems(2) [unfolded register_loop.simps g Inr xv m1 Let_def prod.case sum.case f m2]
    show ?thesis
    proof (cases "\<exists>idx. f = Inr (Some idx)")
      case False
      with run Suc.prems(1) show ?thesis by (auto split: sum.splits option.splits)
    next
      case True
      then obtain idx where idx: "f = Inr (Some idx)" by blast
      let ?y = "upd_Node (registered now ?adv idx) obj"
      obtain p m3 where p: "st_Put ?S ?y rv m = (p, m3)" by fastforce
      have y: "obj_index ?y = idx" using obj_index_registered [of now ?adv idx "GetNode obj"] node(1) by metis
      have key: "key_of ?y = (KindNode, ?name)"
        using key_of_upd_Node [of "registered now ?adv idx" obj] mem.view_ok [OF ok e]
        by (simp add: registered_def Let_def key_of_def)
      have "obj_index ?y = idx_of (mem_view m) ?name \<or> (\<forall>a. a \<noteq> ?name \<longrightarrow> idx_of (mem_view m) a \<noteq> obj_index ?y)"
      proof (cases "obj_index obj = 0")
        case True
        with f idx have fr: "freeNodeIndex ?S m = (Inr (Some idx), m2)" by (simp add: claimIndex_def)
        have nz: "idx \<noteq> 0" using freeNodeIndex_mem(2) [OF ok fr refl e] True by simp
        have "\<forall>a. a \<noteq> ?name \<longrightarrow> idx_of (mem_view m) a \<noteq> idx"
          by (rule idx_free_others [OF _ nz]) (rule disjI2, rule freeNodeIndex_mem(2) [OF ok fr refl])
        with y show ?thesis by simp
      next
        case False
        with f idx y node(3) show ?thesis by (simp add: claimIndex_def)
      qed
      from put_index [OF Suc.prems(1) p key this] have inv3: "index_inv m3" .
      obtain yr m4 where yc: "yieldIndexCollision ?S ?name idx m3 = (yr, m4)" by fastforce
      from yield_indices [OF inv3 yc] have inv4: "index_inv m4" .
      from run idx p yc have "m' = m3 \<or> m' = m4 \<or>
          (\<exists>t' \<in> {m3, m4}. register_loop ?S cfg now req certPEM k t' = (r, m'))"
        by (auto split: sum.splits StoreErr.splits bool.splits if_splits)
      with inv3 inv4 Suc.IH show ?thesis by blast
    qed
  qed
qed simp

lemma heal_indices:
  assumes "index_inv m" and "reported \<noteq> 0"
  shows "index_inv (heal_loop (memory_store t) name reported k m)"
  using assms(1)
proof (induction k arbitrary: m)
  case (Suc k)
  let ?S = "memory_store t"
  have ok: "mem_ok m" using Suc.prems by (simp add: index_inv_def)
  obtain g m1 where g: "st_Get ?S KindNode name m = (g, m1)" by fastforce
  note m1 = mem_get_node(1) [OF g]
  show ?case
  proof (cases "\<exists>obj rv. g = Inr (obj, rv) \<and> obj_index obj = 0")
    case False
    with Suc.prems g m1 show ?thesis by (auto split: sum.splits)
  next
    case True
    then obtain obj rv where xv: "g = Inr (obj, rv)" "obj_index obj = 0" by blast
    have e: "mem_view m (KindNode, name) = Some (obj, rv)" using mem_get_node(2) [OF g] xv by simp
    note node = node_entry [OF ok e]
    from indexHolder_mem [OF ok, of t name reported] obtain holder where
      h: "indexHolder ?S name reported m = (Inr holder, m)"
        "holder = [] \<longleftrightarrow> (\<forall>n x v. mem_view m (KindNode, n) = Some (x, v) \<longrightarrow> n = name \<or> obj_index x \<noteq> reported)" by blast
    show ?thesis
    proof (cases "holder = []")
      case False
      with Suc.prems g m1 xv h(1) show ?thesis by simp
    next
      case True
      let ?y = "upd_Node (set_index reported) obj"
      obtain p m3 where p: "st_Put ?S ?y rv m = (p, m3)" by fastforce
      have y: "obj_index ?y = reported" using obj_index_set_index [of reported "GetNode obj"] node(1) by metis
      have key: "key_of ?y = (KindNode, name)"
        using key_of_upd_Node [of "set_index reported" obj] mem.view_ok [OF ok e]
        by (simp add: set_index_def key_of_def)
      have free: "n = name \<or> obj_index x \<noteq> reported" if "mem_view m (KindNode, n) = Some (x, v)" for n x v
        using h(2) True that by blast
      have "\<forall>a. a \<noteq> name \<longrightarrow> idx_of (mem_view m) a \<noteq> obj_index ?y"
        unfolding y by (rule idx_free_others [OF free assms(2)])
      with put_index [OF Suc.prems p key] have inv3: "index_inv m3" by blast
      from yield_indices [OF inv3, of t name reported] have "index_inv (snd (yieldIndexCollision ?S name reported m3))"
        by (cases "yieldIndexCollision ?S name reported m3") simp
      with Suc.IH [OF inv3] inv3 g m1 xv h(1) True p show ?thesis
        by (auto split: sum.splits StoreErr.splits)
    qed
  qed
qed simp

subsection \<open>Status updates\<close>

lemma status_keeps_key: "body_keeps_key (status_body node u) KindInstance"
  by (auto simp: body_keeps_key_def status_body_def upd_Instance_def key_of_def object_name_def Let_def kind_defs
      split: if_splits option.splits Object.splits)

lemma stamped_Instance_parts:
  assumes "stamped (Object_Instance i) v x"
  shows "\<exists>i'. x = Object_Instance i' \<and> i_spec i' = i_spec i \<and> i_status i' = i_status i \<and>
    m_labels (i_Meta i') = m_labels (i_Meta i)"
  using assms by (auto elim!: stampedE)

lemma status_body_write:
  assumes "status_body node u (Object_Instance i) = CasWrite y r"
  shows "\<exists>st. iu_status u = Some st \<and> y = Object_Instance (i\<lparr>i_status := Some (reportedStatus i st)\<rparr>) \<and>
    is_node (i_Spec i) = node \<and> m_uid (i_Meta i) = iu_uid u \<and> r = Inr ()"
  using assms by (auto simp: status_body_def upd_Instance_def Let_def split: if_splits option.splits)

lemma status_body_panic:
  "status_body node u (Object_Instance i) = CasDone (Inl StatusPanic) \<longleftrightarrow>
     iu_status u = None \<and> is_node (i_Spec i) = node \<and> m_uid (i_Meta i) = iu_uid u"
  by (auto simp: status_body_def Let_def split: option.split)

lemma instance_entry:
  assumes "mem_ok m" and "mem_view m (KindInstance, n) = Some (x, v)"
  shows "x = Object_Instance (GetInstance x)"
  using mem.view_ok [OF assms] Object_of_kind(1) [of x] by simp


definition sample_update :: "InstancePhase \<Rightarrow> InstanceStatusUpdate" where
  "sample_update phase = \<lparr>iu_name = ''a'', iu_uid = ''uid-2'', iu_status = Some (zero_InstanceStatus\<lparr>ist_phase := phase, ist_restarts := 1\<rparr>)\<rparr>"

lemma inst_caseD:
  assumes "case e of Some (Object_Instance i, v) \<Rightarrow> P i v | _ \<Rightarrow> False"
  obtains i v where "e = Some (Object_Instance i, v)" "P i v"
proof (cases e)
  case (Some xv)
  obtain x v where "xv = (x, v)" by fastforce
  with Some assms that show ?thesis by (cases x) simp_all
qed (use assms in simp)


text \<open>
  The guard looks at the stored phase only, and a draining instance may be reported as failed: two
  reports, failed and then ready, put an instance that was draining back into service.
\<close>

lemma draining_lifted_via_failed:
  "(let m = run_ops (memory_store 7) sample_drain_ops mem_New;
        m1 = snd (applyInstanceStatus (memory_store 7) ''n1'' (sample_update INSTANCE_PHASE_FAILED) m);
        m2 = snd (applyInstanceStatus (memory_store 7) ''n1'' (sample_update INSTANCE_PHASE_READY) m1)
    in case (mem_view m (KindInstance, ''a''), mem_view m2 (KindInstance, ''a'')) of
      (Some (Object_Instance i, _), Some (Object_Instance j, _)) \<Rightarrow>
        ist_phase (i_Status i) = INSTANCE_PHASE_DRAINING \<and> ist_phase (i_Status j) = INSTANCE_PHASE_READY
    | _ \<Rightarrow> False)"
  by code_simp

subsection \<open>A report keeps indices unique\<close>

lemma stamp_keeps_key: "body_keeps_key (stamp_body now adv) KindNode"
  by (auto simp: body_keeps_key_def stamp_body_def Let_def key_of_def object_name_def split: if_splits)

lemma stamp_indices:
  assumes "index_inv m" and "stampNode (memory_store t) now name adv m = (r, m')"
  shows "index_inv m'"
proof -
  have ok: "mem_ok m" using assms(1) by (simp add: index_inv_def)
  have "obj_index y = obj_index x" if "stamp_body now adv x = CasWrite y r" for x y r
    using that by (cases x) (auto simp: stamp_body_def obj_index_def Let_def split: if_splits)
  with cas_effect_indices [OF mem.cas_loop_effect [OF ok kinds_in(3) stamp_keeps_key assms(2) [unfolded stampNode_def]] assms(1)]
  show ?thesis by blast
qed

lemma status_indices:
  assumes "index_inv m" and "applyInstanceStatus (memory_store t) node u m = (r, m')"
  shows "index_inv m'"
proof -
  have ok: "mem_ok m" using assms(1) by (simp add: index_inv_def)
  have "KindInstance \<noteq> KindNode" by (simp add: kind_defs)
  with cas_effect_indices [OF mem.cas_loop_effect [OF ok kinds_in(5) status_keeps_key assms(2) [unfolded applyInstanceStatus_def]] assms(1)]
  show ?thesis by blast
qed

lemma statuses_indices:
  "index_inv m \<Longrightarrow> apply_statuses (memory_store t) node us m = (b, m') \<Longrightarrow> index_inv m'"
proof (induction us arbitrary: m)
  case (Cons u us)
  obtain r m1 where u: "applyInstanceStatus (memory_store t) node u m = (r, m1)" by fastforce
  from status_indices [OF Cons.prems(1) u] have inv: "index_inv m1" .
  from Cons.prems(2) u have "m' = m1 \<or> apply_statuses (memory_store t) node us m1 = (b, m')"
    by (auto split: sum.splits StatusErr.splits)
  with inv Cons.IH show ?case by blast
qed simp

lemma report_indices:
  assumes "index_inv m" and "ReportStatus (memory_store t) now ctx req m = (r, m')"
  shows "index_inv m'"
proof -
  let ?S = "memory_store t" and ?n = "rp_node req"
  obtain b m1 where a: "apply_statuses ?S ?n (rp_instances req) m = (b, m1)" by fastforce
  obtain st m2 where s: "stampNode ?S now ?n (advertiseIP (rp_advertiseAddress req)) m1 = (st, m2)" by fastforce
  have inv1: "index_inv m1" by (rule statuses_indices [OF assms(1) a])
  have inv2: "index_inv m2" by (rule stamp_indices [OF inv1 s])
  have inv3: "index_inv (healNodeIndex ?S ?n i (rp_nodeIndex req) m2)" for i
    using inv2 heal_indices [OF inv2] by (simp add: healNodeIndex_def)
  from assms(2) a s have "m' = m \<or> m' = m1 \<or> m' = m2 \<or> (\<exists>i. m' = healNodeIndex ?S ?n i (rp_nodeIndex req) m2)"
    by (auto simp: ReportStatus_def split: if_splits option.splits bool.splits sum.splits)
  with assms(1) inv1 inv2 inv3 show ?thesis by blast
qed

end
