(* ===== verification/Klite_Api.thy ===== *)
theory Klite_Api
  imports Klite_AgentServer
begin

text \<open>
  The server as a whole: every RPC that writes nodes and the node controller's pass, as the steps of
  one transition system over the in-memory store, in any order and with any arguments. The index
  a node is given at registration stays its own in every state such a run reaches.
\<close>

subsection \<open>Each operation keeps indices unique\<close>

lemma kinds_not_node: "KindInstance \<noteq> KindNode" "KindWorkload \<noteq> KindNode"
  by (simp_all add: kind_defs)

lemma obj_index_parts:
  "status_part x = status_part y \<Longrightarrow> KindOf x = KindNode \<Longrightarrow> KindOf y = KindNode \<Longrightarrow> obj_index x = obj_index y"
  "no_status x \<Longrightarrow> KindOf x = KindNode \<Longrightarrow> obj_index x = 0"
  by (cases x; cases y; simp add: kind_defs obj_index_def zero_Node_def zero_NodeStatus_def)+

lemma apply_indices:
  assumes "index_inv m" and "applyOne (memory_store t) o' m = (res, m')"
  shows "index_inv m'"
proof (cases "\<not> readOnlyKind (KindOf o') \<and> wf_object (desired o')")
  case False
  with applyOne_rejects(2) [of o' "memory_store t" m] assms show ?thesis by simp
next
  case True
  have ok: "mem_ok m" using assms(1) by (simp add: index_inv_def)
  from applyOne_accepts [OF ok, of o' t] True assms(2) obtain action where
    effect: "mem.apply_effect (desired o') m (Inr action) m'" by auto
  then obtain x' w where ok': "mem_ok m'" and x': "mem_view m' (key_of o') = Some (x', w)"
    and ap: "applied (desired o') (mem_view m (key_of o')) action x'"
    and frame: "\<forall>q. q \<noteq> key_of o' \<longrightarrow> mem_view m' q = mem_view m q"
    by (auto simp: mem.apply_effect_def)
  note parts = applied_parts [OF desired_user [OF conjunct1 [OF True] conjunct2 [OF True]]
    conjunct2 [OF True] desired_no_status ap mem_view_same [OF ok]]
  have kind: "KindOf x' = KindOf o'" using mem.view_ok [OF ok' x' [unfolded key_of_def]] by simp
  have "idx_of (mem_view m') n = idx_of (mem_view m) n \<or> idx_of (mem_view m') n = 0" for n
  proof (cases "key_of o' = (KindNode, n)")
    case False
    then show ?thesis using frame by (simp add: idx_of_def)
  next
    case True
    then have node: "KindOf x' = KindNode" using kind by (simp add: key_of_def)
    have new: "idx_of (mem_view m') n = obj_index x'" using x' True by (simp add: idx_of_def)
    show ?thesis
    proof (cases "mem_view m (key_of o')")
      case None
      with parts(4) obj_index_parts(2) [OF _ node] new show ?thesis by simp
    next
      case (Some xv)
      obtain x v where xv: "mem_view m (key_of o') = Some (x, v)" using Some by (cases xv) auto
      from node_entry [OF ok xv [unfolded True]] have "KindOf x = KindNode" "idx_of (mem_view m) n = obj_index x"
        by (metis KindOf.simps(3), simp)
      with obj_index_parts(1) [OF parts(5) [OF xv] node] new show ?thesis by simp
    qed
  qed
  then show ?thesis by (intro index_inv_kept [OF assms(1) ok']) (simp add: idx_kept_def)
qed

lemma body_index_defs: "obj_index y = obj_index x"
  if "uncordon_body x = CasWrite y r \<or> mark_delete_body x = CasWrite y r' \<or> draining_body x = CasWrite y r''"
  using that by (cases x)
    (auto simp: uncordon_body_def mark_delete_body_def draining_body_def obj_index_def Let_def split: if_splits)

lemma uncordon_indices:
  assumes "index_inv m" and "Uncordon (memory_store t) name m = (r, m')"
  shows "index_inv m'"
proof (cases "name = []")
  case False
  have ok: "mem_ok m" using assms(1) by (simp add: index_inv_def)
  from False assms(2) have run: "cas_loop (memory_store t) KindNode name uncordon_body (\<lambda>e. Inl (storeStatus e))
      (\<lambda>e. Inl (storeStatus e)) (Inl Aborted) srv_casRetries m = (r, m')" by (simp add: Uncordon_def)
  show ?thesis
    by (rule cas_effect_indices [OF mem.cas_loop_effect [OF ok kinds_in(3) uncordon_keeps_key run] assms(1)])
      (use body_index_defs in blast)
qed (use assms in \<open>simp add: Uncordon_def\<close>)

lemma draining_indices:
  assumes "index_inv m" and "markNodeDraining (memory_store t) name m = (r, m')"
  shows "index_inv m'"
proof -
  have ok: "mem_ok m" using assms(1) by (simp add: index_inv_def)
  show ?thesis
    by (rule cas_effect_indices [OF mem.cas_loop_effect [OF ok kinds_in(3) draining_keeps_key
          assms(2) [unfolded markNodeDraining_def]] assms(1)])
      (use body_index_defs in blast)
qed

lemma scale_indices:
  assumes "index_inv m" and "Scale (memory_store t) name n m = (r, m')"
  shows "index_inv m'"
proof (cases "name = [] \<or> n < 0")
  case False
  have ok: "mem_ok m" using assms(1) by (simp add: index_inv_def)
  from False assms(2) have run: "cas_loop (memory_store t) KindWorkload name (scale_body n) (\<lambda>e. Inl (storeStatus e))
      (\<lambda>e. Inl (storeStatus e)) (Inl Aborted) srv_casRetries m = (r, m')" by (simp add: Scale_def)
  show ?thesis
    by (rule cas_effect_indices [OF mem.cas_loop_effect [OF ok kinds_in(1) scale_keeps_key run] assms(1)])
      (use kinds_not_node in blast)
qed (use assms in \<open>auto simp: Scale_def split: if_splits\<close>)

lemma delete_indices:
  assumes "index_inv m" and "deleteOne (memory_store t) kind name m = (r, m')"
  shows "index_inv m'"
proof (cases "kind = KindNode")
  case True
  have ok: "mem_ok m" using assms(1) by (simp add: index_inv_def)
  show ?thesis
    by (rule cas_effect_indices [OF mem.cas_loop_effect [OF ok kinds_in(3) mark_delete_keeps_key
          assms(2) [unfolded deleteOne_def if_P [OF True] markNodeForDelete_def]] assms(1)])
      (use body_index_defs in blast)
next
  case False
  have ok: "mem_ok m" using assms(1) by (simp add: index_inv_def)
  obtain d m1 where d: "st_Delete (memory_store t) kind name m = (d, m1)" by fastforce
  with assms(2) False have m': "m' = m1" by (auto simp: deleteOne_def split: sum.splits)
  show ?thesis
  proof (cases d)
    case (Inl f)
    with mem.delete_refused [OF ok] d m' show ?thesis by (intro index_inv_kept [OF assms(1)]) (metis, metis idx_kept_refl)
  next
    case (Inr u)
    from mem.delete_done [OF ok d [unfolded Inr]] obtain c where
      "mem_ok m1" "mem_view m1 = (mem_view m)((c, name) := None)" by blast
    with m' show ?thesis
      by (intro index_inv_kept [OF assms(1)]) (auto simp: idx_kept_def idx_of_def)
  qed
qed

lemma node_pass_indices:
  assumes "index_inv m" and "node_reconcile (memory_store t) now m = (es, m')"
  shows "index_inv m'"
proof -
  have ok: "mem_ok m" using assms(1) by (simp add: index_inv_def)
  from mem.node_reconcile_pass [OF ok assms(2)]
  have ok': "mem_ok m'" and ch: "node_change now (mem_view m) q (mem_view m' q)" for q
    unfolding node_pass_def by blast+
  have "idx_of (mem_view m') n = idx_of (mem_view m) n \<or> idx_of (mem_view m') n = 0" for n
    using ch [of "(KindNode, n)"] kinds_not_node(1)
    by (auto simp: node_change_def idx_of_def obj_index_def)
  then show ?thesis by (intro index_inv_kept [OF assms(1) ok']) (simp add: idx_kept_def)
qed

lemma poll_indices:
  assumes "index_inv m" and "drain_poll (memory_store t) (\<lambda>s. s) force n m = (ls, e, n', m')"
  shows "index_inv m'"
proof -
  let ?S = "memory_store t"
  have ok: "mem_ok m" using assms(1) by (simp add: index_inv_def)
  from mem_lists [OF kinds_in(5)] obtain xs where l: "st_List ?S KindInstance m = (Inr (xs, mem_rev m), m)" by blast
  obtain lines remaining n1 where o: "observe n xs = (lines, remaining, n1)" by (metis prod_cases3)
  obtain fl n2 m2 where f: "(if force then forceDelete ?S n1 m else ([], n1, m)) = (fl, n2, m2)" by (metis prod_cases3)
  have inv2: "index_inv m2"
  proof (cases force)
    case True
    with f have fd: "forceDelete_loop ?S (sorted_keys (nr_prev n1)) n1 m = (fl, n2, m2)" by (simp add: forceDelete_def)
    from mem.forceDelete_loop_forced [OF ok fd ok mem.aged_refl [OF ok] observe_narrates(1) [OF ok l o]]
    have forced: "mem.forced m (nr_node n1) m m2" .
    then have "mem_view m2 (KindNode, a) = mem_view m (KindNode, a)" for a
      using kinds_not_node(1) unfolding mem.forced_def by (metis fst_conv)
    then have "idx_kept (mem_view m) (mem_view m2)" by (simp add: idx_kept_def idx_of_def)
    with forced show ?thesis by (intro index_inv_kept [OF assms(1)]) (auto simp: mem.forced_def mem.aged_def)
  qed (use f assms(1) in simp)
  obtain r m3 where k: "markNodeDraining ?S (nr_node n) m2 = (r, m3)" by fastforce
  have inv3: "index_inv m3" by (rule draining_indices [OF inv2 k])
  have "m' = m2 \<or> m' = m3"
    using assms(2) unfolding drain_poll_def l prod.case sum.case o Let_def f k by (auto split: if_splits sum.splits)
  with inv2 inv3 show ?thesis by blast
qed

subsection \<open>Runs of the server\<close>

text \<open>Clock readings, callers, requests and configuration are arbitrary at every step.\<close>

inductive api_reach :: "Memory \<Rightarrow> bool" where
  api_start: "api_reach mem_New"
| api_apply: "api_reach m \<Longrightarrow> api_reach (snd (applyOne (memory_store t) o' m))"
| api_delete: "api_reach m \<Longrightarrow> api_reach (snd (deleteOne (memory_store t) kind name m))"
| api_scale: "api_reach m \<Longrightarrow> api_reach (snd (Scale (memory_store t) name n m))"
| api_uncordon: "api_reach m \<Longrightarrow> api_reach (snd (Uncordon (memory_store t) name m))"
| api_cordon: "api_reach m \<Longrightarrow> api_reach (snd (markNodeDraining (memory_store t) name m))"
| api_poll: "api_reach m \<Longrightarrow> api_reach (snd (snd (snd (drain_poll (memory_store t) (\<lambda>s. s) force nr m))))"
| api_register: "api_reach m \<Longrightarrow> api_reach (snd (Register (memory_store t) cfg now p req m))"
| api_report: "api_reach m \<Longrightarrow> api_reach (snd (ReportStatus (memory_store t) now (ctx :: unit Ctx) rep m))"
| api_node_pass: "api_reach m \<Longrightarrow> api_reach (snd (node_reconcile (memory_store t) now m))"

lemma register_call_indices:
  assumes "index_inv m" and "Register (memory_store t) cfg now p req m = (r, m')"
  shows "index_inv m'"
  using assms register_indices by (auto simp: Register_def split: sum.splits)

lemmas step_indices = apply_indices delete_indices scale_indices uncordon_indices draining_indices
  register_call_indices report_indices node_pass_indices

lemma api_index_inv: "api_reach m \<Longrightarrow> index_inv m"
proof (induction rule: api_reach.induct)
  case api_start
  have "mem_view mem_New q = None" for q by (simp add: mem_view_def mem_New_def)
  then show ?case by (simp add: index_inv_def mem_ok_New unique_indices_def idx_of_def)
next
  case (api_poll m t force nr)
  then show ?case by (metis poll_indices prod.collapse)
qed (metis step_indices prod.collapse)+

text \<open>
  C38. In every state the server can reach by any sequence of applies, deletes, scalings, cordons,
  uncordons, drain polls, registrations, status reports and node controller passes, no two nodes hold
  the same index.
\<close>

theorem node_indices_unique:
  assumes "api_reach m" and "mem_view m (KindNode, a) = Some (Object_Node n, v)"
    and "mem_view m (KindNode, b) = Some (Object_Node n', v')" and "a \<noteq> b"
    and "nst_nodeIndex (n_Status n) \<noteq> 0"
  shows "nst_nodeIndex (n_Status n) \<noteq> nst_nodeIndex (n_Status n')"
proof -
  have "unique_indices (mem_view m)" using api_index_inv [OF assms(1)] by (simp add: index_inv_def)
  moreover have "idx_of (mem_view m) a = nst_nodeIndex (n_Status n)" "idx_of (mem_view m) b = nst_nodeIndex (n_Status n')"
    using assms(2,3) by (simp_all add: idx_of_def obj_index_def)
  ultimately show ?thesis using assms(4,5) unfolding unique_indices_def by metis
qed

definition sample_declared :: "string \<Rightarrow> Object" where
  "sample_declared name = Object_Node \<lparr>n_meta = Some (zero_Meta\<lparr>m_name := name\<rparr>), n_spec = Some zero_NodeSpec, n_status = None\<rparr>"

definition sample_cfg :: AgentConfig where
  "sample_cfg = \<lparr>ac_ClusterToken = ''s3cret'', ac_CA = None, ac_ClusterID = ''c1'', ac_NetAdminPortBase = 0,
     ac_EnvoyAdminPortBase = 0, ac_InfraIPBase = 0, ac_IngressPortBase = 0, ac_NetImage = []\<rparr>"

definition sample_join :: "string \<Rightarrow> Memory \<Rightarrow> Memory" where
  "sample_join name m = snd (Register (memory_store 7) sample_cfg 100 zero_principal
     \<lparr>rq_node = name, rq_clusterToken = ''s3cret'', rq_csrPem = [], rq_advertiseAddress = []\<rparr>
     (snd (applyOne (memory_store 7) (sample_declared name) m)))"

lemma node_caseD:
  assumes "case e of Some (Object_Node i, v) \<Rightarrow> P i v | _ \<Rightarrow> False"
  obtains i v where "e = Some (Object_Node i, v)" "P i v"
proof (cases e)
  case (Some xv)
  obtain x v where "xv = (x, v)" by fastforce
  with Some assms that show ?thesis by (cases x) simp_all
qed (use assms in simp)

lemma node_indices_unique_witness:
  "\<exists>m n v n' v'. api_reach m \<and> mem_view m (KindNode, ''n1'') = Some (Object_Node n, v) \<and>
    mem_view m (KindNode, ''n2'') = Some (Object_Node n', v') \<and> nst_nodeIndex (n_Status n) = 1 \<and>
    nst_nodeIndex (n_Status n') = 2 \<and> nst_nodeIndex (n_Status n) \<noteq> nst_nodeIndex (n_Status n')"
proof -
  let ?m = "sample_join ''n2'' (sample_join ''n1'' mem_New)"
  have reach: "api_reach ?m" unfolding sample_join_def by (intro api_reach.intros)
  have "case mem_view ?m (KindNode, ''n1'') of Some (Object_Node n, v) \<Rightarrow> nst_nodeIndex (n_Status n) = 1 | _ \<Rightarrow> False"
    by code_simp
  then obtain n v where n: "mem_view ?m (KindNode, ''n1'') = Some (Object_Node n, v)" "nst_nodeIndex (n_Status n) = 1"
    by (rule node_caseD)
  have "case mem_view ?m (KindNode, ''n2'') of Some (Object_Node n, v) \<Rightarrow> nst_nodeIndex (n_Status n) = 2 | _ \<Rightarrow> False"
    by code_simp
  then obtain n' v' where n': "mem_view ?m (KindNode, ''n2'') = Some (Object_Node n', v')" "nst_nodeIndex (n_Status n') = 2"
    by (rule node_caseD)
  from node_indices_unique [OF reach n(1) n'(1)] n n' reach show ?thesis by auto
qed

end
