(* ===== verification/Klite_Hub.thy ===== *)
theory Klite_Hub
  imports Klite_Auth
begin

text \<open>
  The command hub of \<open>src/internal/server/commands.go\<close> and the Logs RPC of \<open>logs.go\<close>: command streams
  parked per node, waiters parked per command, and the pushes of the agents routed between them.
  Streams and waiters are pointers, which here are indices into the hub's memory; a buffered channel
  is the list of what it holds. Each RPC is a program counter that advances by one section under the
  hub's lock, or by one arm of a \<open>select\<close>, at a time, so that the RPCs interleave as goroutines do.
\<close>

datatype Cmd = Command_Logs string bool int | Command_Stop string

record Command =
  cmd_id :: string
  cmd_cmd :: "Cmd option"

record CommandOutput =
  co_commandId :: string
  co_data :: string
  co_eof :: bool

record commandStream =
  cs_ch :: "Command list"
  cs_replaced :: bool

record outputWaiter =
  ow_node :: string
  ow_ch :: "CommandOutput list"
  ow_gone :: bool

record CommandHub =
  hub_streams :: "string \<rightharpoonup> nat"
  hub_waiters :: "string \<rightharpoonup> nat"
  hub_smem :: "commandStream list"
  hub_wmem :: "outputWaiter list"

definition NewCommandHub :: CommandHub where
  "NewCommandHub = \<lparr>hub_streams = Map.empty, hub_waiters = Map.empty, hub_smem = [], hub_wmem = []\<rparr>"

definition chanCap :: nat where "chanCap = 16"

subsection \<open>Sections under the lock and operations on channels\<close>

text \<open>The locked section of \<open>attach\<close>: the new stream and the one it displaces, closed afterwards.\<close>

definition attach :: "string \<Rightarrow> CommandHub \<Rightarrow> (nat \<times> nat option) \<times> CommandHub" where
  "attach node h =
     (let cs = length (hub_smem h) in
      ((cs, hub_streams h node),
       h\<lparr>hub_streams := (hub_streams h)(node \<mapsto> cs),
         hub_smem := hub_smem h @ [\<lparr>cs_ch = [], cs_replaced = False\<rparr>]\<rparr>))"

definition close_replaced :: "nat \<Rightarrow> CommandHub \<Rightarrow> CommandHub" where
  "close_replaced cs h = h\<lparr>hub_smem := (hub_smem h)[cs := (hub_smem h ! cs)\<lparr>cs_replaced := True\<rparr>]\<rparr>"

definition detach_forget :: "string \<Rightarrow> nat \<Rightarrow> CommandHub \<Rightarrow> CommandHub" where
  "detach_forget node cs h =
     (if hub_streams h node = Some cs then h\<lparr>hub_streams := (hub_streams h)(node := None)\<rparr> else h)"

definition recv_cmd :: "nat \<Rightarrow> CommandHub \<Rightarrow> (Command \<times> CommandHub) option" where
  "recv_cmd cs h = (case cs_ch (hub_smem h ! cs) of
     [] \<Rightarrow> None
   | cmd # rest \<Rightarrow> Some (cmd, h\<lparr>hub_smem := (hub_smem h)[cs := (hub_smem h ! cs)\<lparr>cs_ch := rest\<rparr>]\<rparr>))"

definition hub_send :: "string \<Rightarrow> Command \<Rightarrow> CommandHub \<Rightarrow> bool \<times> CommandHub" where
  "hub_send node cmd h = (case hub_streams h node of
     None \<Rightarrow> (False, h)
   | Some cs \<Rightarrow>
     (let st = hub_smem h ! cs in
      if length (cs_ch st) < chanCap
      then (True, h\<lparr>hub_smem := (hub_smem h)[cs := st\<lparr>cs_ch := cs_ch st @ [cmd]\<rparr>]\<rparr>)
      else (False, h)))"

definition addWaiter :: "string \<Rightarrow> string \<Rightarrow> CommandHub \<Rightarrow> nat \<times> CommandHub" where
  "addWaiter ident node h =
     (let w = length (hub_wmem h) in
      (w, h\<lparr>hub_waiters := (hub_waiters h)(ident \<mapsto> w),
            hub_wmem := hub_wmem h @ [\<lparr>ow_node = node, ow_ch = [], ow_gone = False\<rparr>]\<rparr>))"

definition waiterNode :: "string \<Rightarrow> CommandHub \<Rightarrow> string option" where
  "waiterNode ident h = map_option (\<lambda>w. ow_node (hub_wmem h ! w)) (hub_waiters h ident)"

definition removeWaiter :: "string \<Rightarrow> CommandHub \<Rightarrow> nat option \<times> CommandHub" where
  "removeWaiter ident h = (hub_waiters h ident, h\<lparr>hub_waiters := (hub_waiters h)(ident := None)\<rparr>)"

definition close_gone :: "nat \<Rightarrow> CommandHub \<Rightarrow> CommandHub" where
  "close_gone w h = h\<lparr>hub_wmem := (hub_wmem h)[w := (hub_wmem h ! w)\<lparr>ow_gone := True\<rparr>]\<rparr>"

text \<open>\<open>route\<close> looks the waiter up under the lock, then sends to it without the lock; the send waits
  while the buffer is full.\<close>

definition route_find :: "CommandOutput \<Rightarrow> CommandHub \<Rightarrow> nat option" where
  "route_find out h = hub_waiters h (co_commandId out)"

definition route_send :: "nat \<Rightarrow> CommandOutput \<Rightarrow> CommandHub \<Rightarrow> CommandHub option" where
  "route_send w out h =
     (let st = hub_wmem h ! w in
      if length (ow_ch st) < chanCap
      then Some (h\<lparr>hub_wmem := (hub_wmem h)[w := st\<lparr>ow_ch := ow_ch st @ [out]\<rparr>]\<rparr>) else None)"

definition recv_output :: "nat \<Rightarrow> CommandHub \<Rightarrow> (CommandOutput \<times> CommandHub) option" where
  "recv_output w h = (case ow_ch (hub_wmem h ! w) of
     [] \<Rightarrow> None
   | out # rest \<Rightarrow> Some (out, h\<lparr>hub_wmem := (hub_wmem h)[w := (hub_wmem h ! w)\<lparr>ow_ch := rest\<rparr>]\<rparr>))"

subsection \<open>StreamCommands, PushCommandOutput and Logs\<close>

text \<open>
  What the environment decides in a step: the message or error \<open>Recv\<close> gives (with whether it is
  \<open>io.EOF\<close>), the arm of a \<open>select\<close>, and whether the \<open>stream.Send\<close> after a receive succeeds.
\<close>

datatype Event = EvGo | EvRecv CommandOutput | EvRecvErr string bool | EvCtxDone | EvReplaced | EvGone
  | EvChan bool | EvSend

datatype Exit = ExitOK | ExitCode Code | ExitCtx | ExitSend | ExitRecv string

datatype StreamPc = StreamReplace string nat "nat option" | StreamLoop string nat
  | StreamForget string nat Exit | StreamDrain nat Exit | StreamFind nat CommandOutput Exit
  | StreamRoute nat CommandOutput nat Exit | StreamDone Exit

definition disconnected :: "string \<Rightarrow> CommandOutput" where
  "disconnected ident = \<lparr>co_commandId = ident,
     co_data = ''the node's agent disconnected before running the command'' @ [CHR 0x0A], co_eof = True\<rparr>"

definition stream_open :: "'p Ctx \<Rightarrow> string \<Rightarrow> CommandHub \<Rightarrow> StreamPc \<times> CommandHub" where
  "stream_open ctx node h =
     (if node = [] then (StreamDone (ExitCode InvalidArgument), h)
      else case requireNodeMatch ctx node of
        Some code \<Rightarrow> (StreamDone (ExitCode code), h)
      | None \<Rightarrow> (case attach node h of ((cs, old), h') \<Rightarrow> (StreamReplace node cs old, h')))"

definition stream_select :: "Event \<Rightarrow> string \<Rightarrow> nat \<Rightarrow> CommandHub \<Rightarrow> (StreamPc \<times> CommandHub) option" where
  "stream_select ev node cs h = (case ev of
     EvCtxDone \<Rightarrow> Some (StreamForget node cs ExitCtx, h)
   | EvReplaced \<Rightarrow>
       if cs_replaced (hub_smem h ! cs) then Some (StreamForget node cs (ExitCode Aborted), h) else None
   | EvChan sent \<Rightarrow>
       map_option (\<lambda>(cmd, h'). (if sent then StreamLoop node cs else StreamForget node cs ExitSend, h')) (recv_cmd cs h)
   | _ \<Rightarrow> None)"

text \<open>One turn of the draining loop of \<open>detach\<close>: only a Logs command has a waiter to fail.\<close>

definition drain_turn :: "nat \<Rightarrow> Exit \<Rightarrow> CommandHub \<Rightarrow> StreamPc \<times> CommandHub" where
  "drain_turn cs e h = (case recv_cmd cs h of
     None \<Rightarrow> (StreamDone e, h)
   | Some (cmd, h') \<Rightarrow>
     (case cmd_cmd cmd of
        Some (Command_Logs _ _ _) \<Rightarrow> (StreamFind cs (disconnected (cmd_id cmd)) e, h')
      | _ \<Rightarrow> (StreamDrain cs e, h')))"

definition StreamCommands_step :: "Event \<Rightarrow> StreamPc \<Rightarrow> CommandHub \<Rightarrow> (StreamPc \<times> CommandHub) option" where
  "StreamCommands_step ev pc h = (case pc of
     StreamReplace node cs old \<Rightarrow>
       Some (StreamLoop node cs, case old of None \<Rightarrow> h | Some o' \<Rightarrow> close_replaced o' h)
   | StreamLoop node cs \<Rightarrow> stream_select ev node cs h
   | StreamForget node cs e \<Rightarrow> Some (StreamDrain cs e, detach_forget node cs h)
   | StreamDrain cs e \<Rightarrow> Some (drain_turn cs e h)
   | StreamFind cs out e \<Rightarrow>
       Some (case route_find out h of None \<Rightarrow> StreamDrain cs e | Some w \<Rightarrow> StreamRoute cs out w e, h)
   | StreamRoute cs out w e \<Rightarrow>
     (case ev of
        EvSend \<Rightarrow> map_option (\<lambda>h'. (StreamDrain cs e, h')) (route_send w out h)
      | EvGone \<Rightarrow> if ow_gone (hub_wmem h ! w) then Some (StreamDrain cs e, h) else None
      | _ \<Rightarrow> None)
   | StreamDone e \<Rightarrow> None)"

text \<open>\<open>PushRecv\<close> holds the variables \<open>id\<close> and \<open>sawEOF\<close>; the last two states but one are the synthetic
  end of a stream that broke.\<close>

datatype PushPc = PushRecv string bool | PushFind CommandOutput | PushRoute CommandOutput nat
  | PushBroke CommandOutput Exit | PushBrokeRoute CommandOutput nat Exit | PushDone Exit

definition push_check :: "principal \<Rightarrow> CommandOutput \<Rightarrow> CommandHub \<Rightarrow> Code option" where
  "push_check p out h =
     (if pr_kind p = principalNode then
        (case waiterNode (co_commandId out) h of
           Some node \<Rightarrow> if node \<noteq> pr_node p then Some PermissionDenied else None
         | None \<Rightarrow> None)
      else None)"

definition push_broke :: "string \<Rightarrow> string \<Rightarrow> CommandOutput" where
  "push_broke ident err = \<lparr>co_commandId = ident,
     co_data = ''log stream from agent broke: '' @ err @ [CHR 0x0A], co_eof = True\<rparr>"

definition push_recv :: "principal \<Rightarrow> Event \<Rightarrow> string \<Rightarrow> bool \<Rightarrow> CommandHub \<Rightarrow> PushPc option" where
  "push_recv p ev ident sawEOF h = (case ev of
     EvRecv out \<Rightarrow>
       Some (case push_check p out h of Some code \<Rightarrow> PushDone (ExitCode code) | None \<Rightarrow> PushFind out)
   | EvRecvErr err eof \<Rightarrow>
       (let e = (if eof then ExitOK else ExitRecv err) in
        Some (if ident \<noteq> [] \<and> \<not> sawEOF then PushBroke (push_broke ident err) e else PushDone e))
   | _ \<Rightarrow> None)"

text \<open>The three arms of the \<open>select\<close> of \<open>route\<close>: what it returns, and the hub.\<close>

definition route_select :: "Event \<Rightarrow> CommandOutput \<Rightarrow> nat \<Rightarrow> CommandHub \<Rightarrow> (bool \<times> CommandHub) option" where
  "route_select ev out w h = (case ev of
     EvSend \<Rightarrow> map_option (Pair True) (route_send w out h)
   | EvGone \<Rightarrow> if ow_gone (hub_wmem h ! w) then Some (False, h) else None
   | EvCtxDone \<Rightarrow> Some (False, h)
   | _ \<Rightarrow> None)"

definition PushCommandOutput_step :: "principal \<Rightarrow> Event \<Rightarrow> PushPc \<Rightarrow> CommandHub \<Rightarrow> (PushPc \<times> CommandHub) option" where
  "PushCommandOutput_step p ev pc h = (case pc of
     PushRecv ident sawEOF \<Rightarrow> map_option (\<lambda>pc'. (pc', h)) (push_recv p ev ident sawEOF h)
   | PushFind out \<Rightarrow>
       Some (case route_find out h of None \<Rightarrow> PushDone (ExitCode NotFound) | Some w \<Rightarrow> PushRoute out w, h)
   | PushRoute out w \<Rightarrow>
       map_option (\<lambda>(ok, h'). (if ok then PushRecv (co_commandId out) (co_eof out)
                               else PushDone (ExitCode NotFound), h')) (route_select ev out w h)
   | PushBroke out e \<Rightarrow>
       Some (case route_find out h of None \<Rightarrow> PushDone e | Some w \<Rightarrow> PushBrokeRoute out w e, h)
   | PushBrokeRoute out w e \<Rightarrow> map_option (\<lambda>(ok, h'). (PushDone e, h')) (route_select ev out w h)
   | PushDone e \<Rightarrow> None)"

datatype LogsPc = LogsSend string string Cmd nat | LogsLoop string string nat
  | LogsStop string string Exit | LogsRemove string Exit | LogsClose nat Exit | LogsDone Exit

definition logs_target :: "'s Store \<Rightarrow> string \<Rightarrow> 's \<Rightarrow> (Code + string) \<times> 's" where
  "logs_target S inst s =
     (if inst = [] then (Inl InvalidArgument, s)
      else case st_Get S KindInstance inst s of
        (Inl err, s') \<Rightarrow> (Inl (storeStatus err), s')
      | (Inr (obj, _), s') \<Rightarrow>
          (let node = is_node (i_Spec (GetInstance obj)) in
           if node = [] then (Inl FailedPrecondition, s') else (Inr node, s')))"

definition logs_turn :: "Event \<Rightarrow> string \<Rightarrow> string \<Rightarrow> nat \<Rightarrow> CommandHub \<Rightarrow> (LogsPc \<times> CommandHub) option" where
  "logs_turn ev ident node w h = (case ev of
     EvCtxDone \<Rightarrow> Some (LogsStop ident node ExitCtx, h)
   | EvChan sent \<Rightarrow>
       map_option (\<lambda>(out, h').
         (if co_data out \<noteq> [] \<and> \<not> sent then LogsStop ident node ExitSend
          else if co_eof out then LogsStop ident node ExitOK
          else LogsLoop ident node w, h')) (recv_output w h)
   | _ \<Rightarrow> None)"

text \<open>The deferred calls run last in, first out: the stop command, then \<open>removeWaiter\<close>.\<close>

definition Logs_step :: "Event \<Rightarrow> LogsPc \<Rightarrow> CommandHub \<Rightarrow> (LogsPc \<times> CommandHub) option" where
  "Logs_step ev pc h = (case pc of
     LogsSend ident node cmd w \<Rightarrow>
     (case hub_send node \<lparr>cmd_id = ident, cmd_cmd = Some cmd\<rparr> h of
        (ok, h') \<Rightarrow> Some (if ok then LogsLoop ident node w else LogsRemove ident (ExitCode FailedPrecondition), h'))
   | LogsLoop ident node w \<Rightarrow> logs_turn ev ident node w h
   | LogsStop ident node e \<Rightarrow>
       Some (LogsRemove ident e, snd (hub_send node \<lparr>cmd_id = ident, cmd_cmd = Some (Command_Stop ident)\<rparr> h))
   | LogsRemove ident e \<Rightarrow>
     (case removeWaiter ident h of
        (None, h') \<Rightarrow> Some (LogsDone e, h')
      | (Some w, h') \<Rightarrow> Some (LogsClose w e, h'))
   | LogsClose w e \<Rightarrow> Some (LogsDone e, close_gone w h)
   | LogsDone e \<Rightarrow> None)"

subsection \<open>Interleavings\<close>

datatype Thread = ThStream StreamPc | ThPush principal PushPc | ThLogs LogsPc

definition thread_step :: "Event \<Rightarrow> Thread \<Rightarrow> CommandHub \<Rightarrow> (Thread \<times> CommandHub) option" where
  "thread_step ev t h = (case t of
     ThStream pc \<Rightarrow> map_option (\<lambda>(pc', h'). (ThStream pc', h')) (StreamCommands_step ev pc h)
   | ThPush p pc \<Rightarrow> map_option (\<lambda>(pc', h'). (ThPush p pc', h')) (PushCommandOutput_step p ev pc h)
   | ThLogs pc \<Rightarrow> map_option (\<lambda>(pc', h'). (ThLogs pc', h')) (Logs_step ev pc h))"

text \<open>The command identifiers named so far are kept: those issued and those a push has carried.\<close>

record HubSys =
  sys_hub :: CommandHub
  sys_threads :: "Thread list"
  sys_seen :: "string list"

fun named_ids :: "Event \<Rightarrow> string list" where
  "named_ids (EvRecv out) = [co_commandId out]"
| "named_ids _ = []"

definition sys_step :: "nat \<Rightarrow> Event \<Rightarrow> HubSys \<Rightarrow> HubSys option" where
  "sys_step i ev S =
     (if i < length (sys_threads S) then
        map_option (\<lambda>(t, h). \<lparr>sys_hub = h, sys_threads = (sys_threads S)[i := t],
                              sys_seen = named_ids ev @ sys_seen S\<rparr>)
          (thread_step ev (sys_threads S ! i) (sys_hub S))
      else None)"

definition start_thread :: "Thread \<Rightarrow> CommandHub \<Rightarrow> HubSys \<Rightarrow> HubSys" where
  "start_thread t h S = S\<lparr>sys_hub := h, sys_threads := sys_threads S @ [t]\<rparr>"

definition start_logs :: "string \<Rightarrow> string \<Rightarrow> Cmd \<Rightarrow> HubSys \<Rightarrow> HubSys" where
  "start_logs ident node cmd S = (case addWaiter ident node (sys_hub S) of
     (w, h) \<Rightarrow> (start_thread (ThLogs (LogsSend ident node cmd w)) h S)\<lparr>sys_seen := ident # sys_seen S\<rparr>)"

definition streamCommandsMethod :: string where
  "streamCommandsMethod = ''/klite.v1.AgentService/StreamCommands''"

definition pushOutputMethod :: string where
  "pushOutputMethod = ''/klite.v1.AgentService/PushCommandOutput''"

text \<open>
  Every interleaving of any number of calls, each let in by the gate of \<open>auth.go\<close>. \<open>uuid.NewString\<close> is the one thing assumed of code outside
  the repository: the identifier it draws is one nobody has named before, which is what
  "command ids are unguessable" means in \<open>commands.go\<close>.
\<close>

inductive hub_reach :: "HubSys \<Rightarrow> bool" where
  hr_init: "hub_reach \<lparr>sys_hub = NewCommandHub, sys_threads = [], sys_seen = []\<rparr>"
| hr_stream: "hub_reach S \<Longrightarrow> authorize adminToken (ctx0 :: unit Ctx) streamCommandsMethod = Inr ctx \<Longrightarrow>
    stream_open ctx node (sys_hub S) = (pc, h) \<Longrightarrow> hub_reach (start_thread (ThStream pc) h S)"
| hr_push: "hub_reach S \<Longrightarrow> authorize adminToken (ctx0 :: unit Ctx) pushOutputMethod = Inr ctx \<Longrightarrow>
    hub_reach (start_thread (ThPush (callerPrincipal ctx) (PushRecv [] False)) (sys_hub S) S)"
| hr_logs: "hub_reach S \<Longrightarrow> ident \<notin> set (sys_seen S) \<Longrightarrow> hub_reach (start_logs ident node cmd S)"
| hr_step: "hub_reach S \<Longrightarrow> sys_step i ev S = Some S' \<Longrightarrow> hub_reach S'"

subsection \<open>The invariant\<close>

text \<open>No step but \<open>addWaiter\<close> parks a waiter, and the node of a waiter never changes.\<close>

definition hub_le :: "CommandHub \<Rightarrow> CommandHub \<Rightarrow> bool" where
  "hub_le h h' \<longleftrightarrow> map ow_node (hub_wmem h') = map ow_node (hub_wmem h) \<and> hub_waiters h' \<subseteq>\<^sub>m hub_waiters h"

definition waiters_of :: "string \<Rightarrow> string \<Rightarrow> CommandHub \<Rightarrow> bool" where
  "waiters_of ident node h \<longleftrightarrow> (\<forall>w. hub_waiters h ident = Some w \<longrightarrow> map ow_node (hub_wmem h) ! w = node)"

fun push_ok :: "string \<Rightarrow> string list \<Rightarrow> CommandHub \<Rightarrow> PushPc \<Rightarrow> bool" where
  "push_ok n seen h (PushRecv ident _) \<longleftrightarrow> ident = [] \<or> (ident \<in> set seen \<and> waiters_of ident n h)"
| "push_ok n seen h (PushFind out) \<longleftrightarrow> co_commandId out \<in> set seen \<and> waiters_of (co_commandId out) n h"
| "push_ok n seen h (PushRoute out w) \<longleftrightarrow> co_commandId out \<in> set seen \<and> waiters_of (co_commandId out) n h \<and>
     w < length (hub_wmem h) \<and> map ow_node (hub_wmem h) ! w = n"
| "push_ok n seen h (PushBroke out _) \<longleftrightarrow> co_commandId out \<in> set seen \<and> waiters_of (co_commandId out) n h"
| "push_ok n seen h (PushBrokeRoute out w _) \<longleftrightarrow> w < length (hub_wmem h) \<and> map ow_node (hub_wmem h) ! w = n"
| "push_ok n seen h (PushDone _) \<longleftrightarrow> True"

fun stream_ok :: "StreamPc \<Rightarrow> bool" where
  "stream_ok (StreamFind _ out _) \<longleftrightarrow> out = disconnected (co_commandId out)"
| "stream_ok (StreamRoute _ out _ _) \<longleftrightarrow> out = disconnected (co_commandId out)"
| "stream_ok _ \<longleftrightarrow> True"

fun thread_ok :: "string list \<Rightarrow> CommandHub \<Rightarrow> Thread \<Rightarrow> bool" where
  "thread_ok seen h (ThPush p pc) \<longleftrightarrow> pr_kind p = principalNode \<and> push_ok (pr_node p) seen h pc"
| "thread_ok seen h (ThStream pc) \<longleftrightarrow> stream_ok pc"
| "thread_ok seen h (ThLogs _) \<longleftrightarrow> True"

definition hub_ok :: "string list \<Rightarrow> CommandHub \<Rightarrow> bool" where
  "hub_ok seen h \<longleftrightarrow> (\<forall>ident w. hub_waiters h ident = Some w \<longrightarrow> ident \<in> set seen \<and> w < length (hub_wmem h))"

definition sys_ok :: "HubSys \<Rightarrow> bool" where
  "sys_ok S \<longleftrightarrow> hub_ok (sys_seen S) (sys_hub S) \<and>
     (\<forall>t \<in> set (sys_threads S). thread_ok (sys_seen S) (sys_hub S) t)"

named_theorems hub_le_rules

lemma map_node_update:
  "f (xs ! i) = f v \<Longrightarrow> map f (xs[i := v]) = map f xs"
  by (metis list_update_id map_update)

lemma hub_le_refl [hub_le_rules, simp]: "hub_le h h"
  by (simp add: hub_le_def)

lemma hub_le_close_replaced [hub_le_rules]: "hub_le h (close_replaced cs h)"
  by (simp add: hub_le_def close_replaced_def)

lemma hub_le_detach_forget [hub_le_rules]: "hub_le h (detach_forget node cs h)"
  by (simp add: hub_le_def detach_forget_def)

lemma hub_le_recv_cmd [hub_le_rules]: "recv_cmd cs h = Some (cmd, h') \<Longrightarrow> hub_le h h'"
  by (auto simp: hub_le_def recv_cmd_def split: list.splits)

lemma hub_le_send [hub_le_rules]: "hub_le h (snd (hub_send node cmd h))"
  by (auto simp: hub_le_def hub_send_def Let_def split: option.splits)

lemma hub_le_attach [hub_le_rules]: "hub_le h (snd (attach node h))"
  by (simp add: hub_le_def attach_def Let_def)

lemma hub_le_removeWaiter [hub_le_rules]: "hub_le h (snd (removeWaiter ident h))"
  by (auto simp: hub_le_def removeWaiter_def map_le_def)

lemma hub_le_close_gone [hub_le_rules]: "hub_le h (close_gone w h)"
  by (simp add: hub_le_def close_gone_def map_node_update)

lemma hub_le_route_send [hub_le_rules]: "route_send w out h = Some h' \<Longrightarrow> hub_le h h'"
  by (auto simp: hub_le_def route_send_def Let_def map_node_update split: if_splits)

lemma hub_le_recv_output [hub_le_rules]: "recv_output w h = Some (out, h') \<Longrightarrow> hub_le h h'"
  by (auto simp: hub_le_def recv_output_def map_node_update split: list.splits)

lemma hub_le_trans: "hub_le a b \<Longrightarrow> hub_le b c \<Longrightarrow> hub_le a c"
  unfolding hub_le_def by (metis map_le_trans)

lemma hub_le_waiter: "hub_le h h' \<Longrightarrow> hub_waiters h' ident = Some w \<Longrightarrow> hub_waiters h ident = Some w"
  unfolding hub_le_def map_le_def by (metis domI)

lemma hub_le_length: "hub_le h h' \<Longrightarrow> length (hub_wmem h') = length (hub_wmem h)"
  unfolding hub_le_def by (metis length_map)

lemma hub_le_nodes: "hub_le h h' \<Longrightarrow> map ow_node (hub_wmem h') = map ow_node (hub_wmem h)"
  by (simp add: hub_le_def)

lemma hub_le_stream_select: "stream_select ev node cs h = Some (pc, h') \<Longrightarrow> hub_le h h'"
  by (auto simp: stream_select_def intro: hub_le_rules split: Event.splits if_splits)

lemma hub_le_drain_turn: "drain_turn cs e h = (pc, h') \<Longrightarrow> hub_le h h'"
  by (auto simp: drain_turn_def intro: hub_le_rules split: option.splits Cmd.splits prod.splits)

lemma hub_le_StreamCommands: "StreamCommands_step ev pc h = Some (pc', h') \<Longrightarrow> hub_le h h'"
  by (cases pc) (auto simp: StreamCommands_step_def intro: hub_le_rules hub_le_stream_select hub_le_drain_turn
    split: option.splits Event.splits if_splits)

lemma hub_le_route_select: "route_select ev out w h = Some (ok, h') \<Longrightarrow> hub_le h h'"
  by (auto simp: route_select_def intro: hub_le_rules split: Event.splits if_splits)

lemma hub_le_Push: "PushCommandOutput_step p ev pc h = Some (pc', h') \<Longrightarrow> hub_le h h'"
  by (cases pc) (auto simp: PushCommandOutput_step_def intro: hub_le_route_select)

lemma hub_le_logs_turn: "logs_turn ev ident node w h = Some (pc, h') \<Longrightarrow> hub_le h h'"
  by (auto simp: logs_turn_def intro: hub_le_rules split: Event.splits)

lemma hub_le_send_eq: "hub_send node cmd h = (ok, h') \<Longrightarrow> hub_le h h'"
  using hub_le_send [of h node cmd] by simp

lemma hub_le_removeWaiter_eq: "removeWaiter ident h = (w, h') \<Longrightarrow> hub_le h h'"
  using hub_le_removeWaiter [of h ident] by simp

lemma hub_le_Logs: "Logs_step ev pc h = Some (pc', h') \<Longrightarrow> hub_le h h'"
  by (cases pc) (auto simp: Logs_step_def
    intro: hub_le_send hub_le_send_eq hub_le_removeWaiter_eq hub_le_close_gone hub_le_logs_turn
    split: prod.splits option.splits)

lemma hub_le_thread: "thread_step ev t h = Some (t', h') \<Longrightarrow> hub_le h h'"
  by (cases t) (auto simp: thread_step_def intro: hub_le_StreamCommands hub_le_Push hub_le_Logs)

lemma waiters_of_mono: "hub_le h h' \<Longrightarrow> waiters_of ident n h \<Longrightarrow> waiters_of ident n h'"
  unfolding waiters_of_def by (metis hub_le_waiter hub_le_nodes)

lemma hub_ok_mono: "hub_le h h' \<Longrightarrow> hub_ok seen h \<Longrightarrow> set seen \<subseteq> set seen' \<Longrightarrow> hub_ok seen' h'"
  unfolding hub_ok_def by (metis hub_le_waiter hub_le_length subsetD)

lemma push_ok_mono:
  assumes "hub_le h h'" "set seen \<subseteq> set seen'" "push_ok n seen h pc"
  shows "push_ok n seen' h' pc"
  using assms(2,3) waiters_of_mono [OF assms(1)] hub_le_nodes [OF assms(1)] hub_le_length [OF assms(1)]
  by (cases pc) auto

lemma thread_ok_mono:
  "hub_le h h' \<Longrightarrow> set seen \<subseteq> set seen' \<Longrightarrow> thread_ok seen h t \<Longrightarrow> thread_ok seen' h' t"
  by (cases t) (auto intro: push_ok_mono)

lemma push_check_passes:
  "push_check p out h = None \<Longrightarrow> pr_kind p = principalNode \<Longrightarrow> hub_ok seen h \<Longrightarrow>
     waiters_of (co_commandId out) (pr_node p) h"
  by (auto simp: push_check_def waiterNode_def waiters_of_def hub_ok_def split: if_splits option.splits)

lemma route_find_ok:
  "route_find out h = Some w \<Longrightarrow> hub_ok seen h \<Longrightarrow> waiters_of (co_commandId out) n h \<Longrightarrow>
     w < length (hub_wmem h) \<and> map ow_node (hub_wmem h) ! w = n"
  by (auto simp: route_find_def hub_ok_def waiters_of_def)

lemma push_recv_ok:
  assumes "push_recv p ev ident saw h = Some pc" "pr_kind p = principalNode" "hub_ok seen h"
    "push_ok (pr_node p) seen h (PushRecv ident saw)"
  shows "push_ok (pr_node p) (named_ids ev @ seen) h pc"
  using assms push_check_passes [OF _ assms(2,3)]
  by (cases ev) (auto simp: push_recv_def push_broke_def Let_def split: option.splits if_splits)

lemma push_step_ok:
  assumes "PushCommandOutput_step p ev pc h = Some (pc', h')" "pr_kind p = principalNode" "hub_ok seen h"
    "push_ok (pr_node p) seen h pc"
  shows "push_ok (pr_node p) (named_ids ev @ seen) h' pc'"
proof (cases pc)
  case (PushRecv ident saw)
  with assms show ?thesis by (auto simp: PushCommandOutput_step_def intro: push_recv_ok)
next
  case (PushRoute out w)
  with assms waiters_of_mono [OF hub_le_Push [OF assms(1)]] show ?thesis
    by (auto simp: PushCommandOutput_step_def)
qed (use assms in \<open>auto simp: PushCommandOutput_step_def dest: route_find_ok split: option.splits\<close>)

lemma drain_turn_ok: "drain_turn cs e h = (pc, h') \<Longrightarrow> stream_ok pc"
  by (auto simp: drain_turn_def disconnected_def split: option.splits Cmd.splits prod.splits)

lemma stream_step_ok: "StreamCommands_step ev pc h = Some (pc', h') \<Longrightarrow> stream_ok pc \<Longrightarrow> stream_ok pc'"
  by (cases pc) (auto simp: StreamCommands_step_def stream_select_def intro: drain_turn_ok
    split: option.splits Event.splits if_splits)

lemma thread_step_ok:
  assumes "thread_step ev t h = Some (t', h')" "hub_ok seen h" "thread_ok seen h t"
  shows "thread_ok (named_ids ev @ seen) h' t'"
  using assms by (cases t) (auto simp: thread_step_def intro: push_step_ok stream_step_ok)

lemma sys_step_ok:
  assumes "sys_step i ev S = Some S'" "sys_ok S"
  shows "sys_ok S'"
proof -
  obtain t h where i: "i < length (sys_threads S)" and t: "thread_step ev (sys_threads S ! i) (sys_hub S) = Some (t, h)"
    and S': "S' = \<lparr>sys_hub = h, sys_threads = (sys_threads S)[i := t], sys_seen = named_ids ev @ sys_seen S\<rparr>"
    using assms(1) by (auto simp: sys_step_def split: if_splits)
  have ok: "hub_ok (sys_seen S) (sys_hub S)" "\<And>u. u \<in> set (sys_threads S) \<Longrightarrow> thread_ok (sys_seen S) (sys_hub S) u"
    using assms(2) by (auto simp: sys_ok_def)
  note le = hub_le_thread [OF t]
  have "thread_ok (named_ids ev @ sys_seen S) h u" if "u \<in> set ((sys_threads S)[i := t])" for u
    using set_update_subset_insert [THEN subsetD, OF that] thread_step_ok [OF t ok(1) ok(2) [OF nth_mem [OF i]]]
      thread_ok_mono [OF le _ ok(2) [of u], of "named_ids ev @ sys_seen S"] by auto
  then show ?thesis
    using hub_ok_mono [OF le ok(1), of "named_ids ev @ sys_seen S"] by (simp add: sys_ok_def S')
qed

lemma agent_gate_node:
  assumes "authorize adminToken ctx0 m = Inr ctx" "m = streamCommandsMethod \<or> m = pushOutputMethod"
  shows "pr_kind (callerPrincipal ctx) = principalNode"
proof -
  have "m \<noteq> registerMethod" "HasPrefix m agentPrefix"
    using assms(2) by (auto simp: streamCommandsMethod_def pushOutputMethod_def method_defs HasPrefix_iff)
  then show ?thesis
    using assms(1) by (auto simp: authorize_def callerPrincipal_def Let_def split: if_splits)
qed

lemma start_thread_ok:
  assumes "sys_ok S" "hub_le (sys_hub S) h" "thread_ok (sys_seen S) h t"
  shows "sys_ok (start_thread t h S)"
  using assms hub_ok_mono [OF assms(2) _ subset_refl] thread_ok_mono [OF assms(2) subset_refl]
  by (auto simp: sys_ok_def start_thread_def)

lemma stream_open_ok: "stream_open ctx node h = (pc, h') \<Longrightarrow> hub_le h h' \<and> stream_ok pc"
  using hub_le_attach [of h node]
  by (auto simp: stream_open_def split: if_splits option.splits prod.splits)

lemma push_ok_addWaiter:
  assumes "addWaiter ident node h = (w, h')" "ident \<notin> set seen" "hub_ok seen h" "push_ok n seen h pc"
  shows "push_ok n (ident # seen) h' pc"
proof -
  have "waiters_of x n h'" if "x \<in> set seen" "waiters_of x n h" for x
    using that assms(1-3) by (auto simp: addWaiter_def waiters_of_def hub_ok_def Let_def nth_append split: if_splits)
  then show ?thesis
    using assms(1,4) by (cases pc) (auto simp: addWaiter_def Let_def nth_append)
qed

lemma start_logs_ok:
  assumes "sys_ok S" "ident \<notin> set (sys_seen S)"
  shows "sys_ok (start_logs ident node cmd S)"
proof -
  obtain w h where w: "addWaiter ident node (sys_hub S) = (w, h)" by fastforce
  have ok: "hub_ok (sys_seen S) (sys_hub S)" "\<And>t. t \<in> set (sys_threads S) \<Longrightarrow> thread_ok (sys_seen S) (sys_hub S) t"
    using assms(1) by (auto simp: sys_ok_def)
  have "thread_ok (ident # sys_seen S) h t" if "t \<in> set (sys_threads S)" for t
    using ok(2) [OF that] push_ok_addWaiter [OF w assms(2) ok(1)] by (cases t) auto
  moreover have "hub_ok (ident # sys_seen S) h"
    using ok(1) w by (auto simp: hub_ok_def addWaiter_def Let_def less_Suc_eq split: if_splits)
  ultimately show ?thesis by (simp add: start_logs_def w start_thread_def sys_ok_def)
qed

lemma hub_reach_ok: "hub_reach S \<Longrightarrow> sys_ok S"
proof (induction rule: hub_reach.induct)
  case hr_init
  show ?case by (simp add: sys_ok_def hub_ok_def NewCommandHub_def)
next
  case (hr_stream S adminToken ctx0 ctx node pc h)
  then show ?case using stream_open_ok [OF hr_stream(3)] by (auto intro: start_thread_ok)
next
  case (hr_push S adminToken ctx0 ctx)
  then show ?case by (auto intro!: start_thread_ok agent_gate_node)
qed (auto intro: start_logs_ok sys_step_ok)

text \<open>What can lengthen a waiter's channel.\<close>

lemma send_grows:
  assumes "route_send v out' h = Some h'" "ow_ch (hub_wmem h' ! w) = ow_ch (hub_wmem h ! w) @ [out]"
    "w < length (hub_wmem h)"
  shows "v = w \<and> out' = out \<and> length (ow_ch (hub_wmem h' ! w)) \<le> chanCap"
  using assms by (cases "v = w") (auto simp: route_send_def Let_def split: if_splits)

lemma route_select_grows:
  assumes "route_select ev out' v h = Some (ok, h')" "ow_ch (hub_wmem h' ! w) = ow_ch (hub_wmem h ! w) @ [out]"
    "w < length (hub_wmem h)"
  shows "v = w \<and> out' = out \<and> length (ow_ch (hub_wmem h' ! w)) \<le> chanCap"
  using assms send_grows [OF _ assms(2,3)] by (auto simp: route_select_def split: Event.splits if_splits)

lemma stream_grows:
  assumes "StreamCommands_step ev pc h = Some (pc', h')" "w < length (hub_wmem h)"
    "ow_ch (hub_wmem h' ! w) = ow_ch (hub_wmem h ! w) @ [out]"
  shows "\<exists>cs e. pc = StreamRoute cs out w e \<and> length (ow_ch (hub_wmem h' ! w)) \<le> chanCap"
  using assms send_grows [OF _ assms(3,2)]
  by (cases pc) (auto simp: StreamCommands_step_def stream_select_def drain_turn_def recv_cmd_def
    close_replaced_def detach_forget_def split: option.splits Event.splits if_splits list.splits Cmd.splits)

lemma push_grows:
  assumes "PushCommandOutput_step p ev pc h = Some (pc', h')" "w < length (hub_wmem h)"
    "ow_ch (hub_wmem h' ! w) = ow_ch (hub_wmem h ! w) @ [out]"
  shows "(pc = PushRoute out w \<or> (\<exists>e. pc = PushBrokeRoute out w e)) \<and> length (ow_ch (hub_wmem h' ! w)) \<le> chanCap"
  using assms route_select_grows [OF _ assms(3,2)]
  by (cases pc) (auto simp: PushCommandOutput_step_def)

lemma recv_output_shrinks:
  "recv_output v h = Some (out, h') \<Longrightarrow> w < length (hub_wmem h) \<Longrightarrow>
     length (ow_ch (hub_wmem h' ! w)) \<le> length (ow_ch (hub_wmem h ! w))"
  by (cases "v = w") (auto simp: recv_output_def split: list.splits)

lemma close_gone_chan: "w < length (hub_wmem h) \<Longrightarrow> ow_ch (hub_wmem (close_gone v h) ! w) = ow_ch (hub_wmem h ! w)"
  by (cases "v = w") (auto simp: close_gone_def)

lemma hub_send_wmem: "hub_send node cmd h = (ok, h') \<Longrightarrow> hub_wmem h' = hub_wmem h"
  by (auto simp: hub_send_def Let_def split: option.splits if_splits)

lemma logs_shrinks:
  assumes "Logs_step ev pc h = Some (pc', h')" "w < length (hub_wmem h)"
  shows "length (ow_ch (hub_wmem h' ! w)) \<le> length (ow_ch (hub_wmem h ! w))"
proof (cases pc)
  case (LogsLoop ident node v)
  with assms show ?thesis
    by (auto simp: Logs_step_def logs_turn_def dest: recv_output_shrinks split: Event.splits)
next
  case (LogsStop ident node e)
  then show ?thesis using assms by (auto simp: Logs_step_def hub_send_wmem [OF prod.collapse [symmetric]])
qed (use assms in \<open>auto simp: Logs_step_def removeWaiter_def close_gone_chan hub_send_wmem split: prod.splits option.splits\<close>)

text \<open>
  C39. A log reader sees only the node it asked. In any interleaving of command streams, pushes and
  Logs calls let in by the gate, a step that puts a message into a waiter's channel is either a push
  whose caller holds the certificate of the very node the command was sent to, or the server's own
  notice that the node's agent left before it ran the command; and the channel stays within its buffer.
\<close>

theorem output_from_target_node:
  assumes "hub_reach S" "sys_step i ev S = Some S'" "w < length (hub_wmem (sys_hub S))"
    "ow_ch (hub_wmem (sys_hub S') ! w) = ow_ch (hub_wmem (sys_hub S) ! w) @ [out]"
  shows "((\<exists>p pc. sys_threads S ! i = ThPush p pc \<and> pr_kind p = principalNode \<and>
             pr_node p = ow_node (hub_wmem (sys_hub S) ! w)) \<or>
          (\<exists>cs e. sys_threads S ! i = ThStream (StreamRoute cs out w e) \<and> out = disconnected (co_commandId out))) \<and>
         length (ow_ch (hub_wmem (sys_hub S') ! w)) \<le> chanCap"
proof -
  obtain t h where i: "i < length (sys_threads S)" and h: "sys_hub S' = h"
    and t: "thread_step ev (sys_threads S ! i) (sys_hub S) = Some (t, h)"
    using assms(2) by (auto simp: sys_step_def split: if_splits)
  have ok: "thread_ok (sys_seen S) (sys_hub S) (sys_threads S ! i)"
    using hub_reach_ok [OF assms(1)] nth_mem [OF i] by (auto simp: sys_ok_def)
  note grown = assms(3) assms(4) [unfolded h]
  show ?thesis
  proof (cases "sys_threads S ! i")
    case (ThStream pc)
    with t ok show ?thesis unfolding h by (auto simp: thread_step_def dest!: stream_grows [OF _ grown])
  next
    case (ThPush p pc)
    with t ok assms(3) show ?thesis unfolding h by (auto simp: thread_step_def dest!: push_grows [OF _ grown])
  next
    case (ThLogs pc)
    with t have "length (ow_ch (hub_wmem h ! w)) \<le> length (ow_ch (hub_wmem (sys_hub S) ! w))"
      by (auto simp: thread_step_def intro: logs_shrinks [OF _ assms(3)])
    with grown(2) show ?thesis by simp
  qed
qed

fun run_sys :: "(nat \<times> Event) list \<Rightarrow> HubSys \<Rightarrow> HubSys option" where
  "run_sys [] S = Some S"
| "run_sys ((i, ev) # es) S = Option.bind (sys_step i ev S) (run_sys es)"

lemma hub_reach_run: "hub_reach S \<Longrightarrow> run_sys es S = Some S' \<Longrightarrow> hub_reach S'"
  by (induction es S rule: run_sys.induct) (auto split: Option.bind_splits intro: hr_step)

definition sample_node_ctx :: "unit Ctx" where
  "sample_node_ctx = (sample_ctx (Some [[sample_cert]]) [])\<lparr>cx_principal := Some \<lparr>pr_kind = principalNode, pr_node = ''n1''\<rparr>\<rparr>"

definition sample_sys :: HubSys where
  "sample_sys =
     (let S0 = \<lparr>sys_hub = NewCommandHub, sys_threads = [], sys_seen = []\<rparr>;
          (pc, h) = stream_open sample_node_ctx ''n1'' (sys_hub S0);
          S1 = start_logs ''c1'' ''n1'' (Command_Logs ''web-0'' False 0) (start_thread (ThStream pc) h S0)
      in start_thread (ThPush (callerPrincipal sample_node_ctx) (PushRecv [] False)) (sys_hub S1) S1)"

definition sample_out :: CommandOutput where
  "sample_out = \<lparr>co_commandId = ''c1'', co_data = ''hello'', co_eof = False\<rparr>"

definition sample_events :: "(nat \<times> Event) list" where
  "sample_events = [(0, EvGo), (1, EvGo), (0, EvChan True), (2, EvRecv sample_out), (2, EvGo)]"

lemma sample_gate:
  "authorize ''tok'' (sample_ctx (Some [[sample_cert]]) []) streamCommandsMethod = Inr sample_node_ctx"
  "authorize ''tok'' (sample_ctx (Some [[sample_cert]]) []) pushOutputMethod = Inr sample_node_ctx"
  by code_simp+

lemma sample_sys_reach: "hub_reach sample_sys"
proof -
  obtain pc h where o: "stream_open sample_node_ctx ''n1'' NewCommandHub = (pc, h)" by fastforce
  let ?S0 = "\<lparr>sys_hub = NewCommandHub, sys_threads = [], sys_seen = []\<rparr> :: HubSys"
  have "hub_reach (start_thread (ThStream pc) h ?S0)"
    by (rule hr_stream [OF hr_init sample_gate(1), where node = "''n1''"]) (simp add: o)
  from hr_logs [OF this, of "''c1''"] hr_push [OF _ sample_gate(2)] show ?thesis
    by (simp add: sample_sys_def o Let_def start_thread_def)
qed

lemma output_from_target_node_witness:
  "case run_sys sample_events sample_sys of
     Some S \<Rightarrow> (case sys_step 2 EvSend S of
       Some S' \<Rightarrow> ow_ch (hub_wmem (sys_hub S') ! 0) = [sample_out] \<and>
         (\<exists>p pc. sys_threads S ! 2 = ThPush p pc \<and> pr_kind p = principalNode \<and>
            pr_node p = ow_node (hub_wmem (sys_hub S) ! 0)) \<and>
         length (ow_ch (hub_wmem (sys_hub S') ! 0)) \<le> chanCap
     | None \<Rightarrow> False)
   | None \<Rightarrow> False"
proof -
  have run: "case run_sys sample_events sample_sys of
      Some S \<Rightarrow> (case sys_step 2 EvSend S of
        Some S' \<Rightarrow> 0 < length (hub_wmem (sys_hub S)) \<and> ow_ch (hub_wmem (sys_hub S) ! 0) = [] \<and>
          ow_ch (hub_wmem (sys_hub S') ! 0) = [sample_out] \<and>
          (case sys_threads S ! 2 of ThPush _ _ \<Rightarrow> True | _ \<Rightarrow> False)
      | None \<Rightarrow> False)
    | None \<Rightarrow> False"
    by code_simp
  then obtain S S' where S: "run_sys sample_events sample_sys = Some S" and S': "sys_step 2 EvSend S = Some S'"
    and w: "0 < length (hub_wmem (sys_hub S))" and ch: "ow_ch (hub_wmem (sys_hub S) ! 0) = []"
      "ow_ch (hub_wmem (sys_hub S') ! 0) = [sample_out]"
    and push: "case sys_threads S ! 2 of ThPush _ _ \<Rightarrow> True | _ \<Rightarrow> False"
    by (auto split: option.splits)
  have "ow_ch (hub_wmem (sys_hub S') ! 0) = ow_ch (hub_wmem (sys_hub S) ! 0) @ [sample_out]" by (simp add: ch)
  from output_from_target_node [OF hub_reach_run [OF sample_sys_reach S] S' w this] push
  show ?thesis by (auto simp: S S' ch)
qed

end
