(* ===== verification/Klite_Agent.thy ===== *)
theory Klite_Agent
  imports Klite_AgentServer
begin

text \<open>
  The reconciler of the node agent: \<open>src/internal/agent/reconcile.go\<close>, with the snapshot and the
  status updates of \<open>agent.go\<close>. The container engine behind \<open>runtime.Runtime\<close> and the clock are
  parameters acting on a world. The snapshot, the probe verdicts and the bootstrap are read under the
  mutex at several points of a pass and are constant during it here. A pass visits the instances in
  an order Go leaves open, which is an argument.
\<close>

record RunningInstance =
  ContainerID :: string
  InstanceName :: string
  InstanceUID :: string
  TemplateHash :: string
  State :: string
  ExitCode :: int
  IP :: string

definition StateRunning :: string where "StateRunning = ''running''"

text \<open>\<open>Runtime\<close>: the methods the reconciler calls, an error being its text; and \<open>a.now\<close>.\<close>

record 'r Runtime =
  rt_EnsureImage :: "string \<Rightarrow> 'r \<Rightarrow> string option \<times> 'r"
  rt_RunInstance :: "Instance \<Rightarrow> string \<Rightarrow> string \<Rightarrow> 'r \<Rightarrow> (string + string) \<times> 'r"
  rt_StopInstance :: "string \<Rightarrow> int \<Rightarrow> 'r \<Rightarrow> string option \<times> 'r"
  rt_RemoveInstance :: "string \<Rightarrow> 'r \<Rightarrow> string option \<times> 'r"
  rt_ListInstances :: "string \<Rightarrow> 'r \<Rightarrow> (string + RunningInstance list) \<times> 'r"
  rt_InspectIP :: "string \<Rightarrow> 'r \<Rightarrow> (string \<times> string option) \<times> 'r"
  rt_now :: "'r \<Rightarrow> int \<times> 'r"

definition time_Second :: int where "time_Second = 1000000000"
definition backoffStart :: int where "backoffStart = time_Second"
definition backoffCap :: int where "backoffCap = 30 * time_Second"

lemmas backoff_defs = time_Second_def backoffStart_def backoffCap_def

text \<open>Times are nanoseconds since the zero \<open>time.Time\<close>.\<close>

record instState =
  st_uid :: string
  st_phase :: InstancePhase
  st_restarts :: int
  st_containerID :: string
  st_ip :: string
  st_message :: string
  st_backoff :: int
  st_nextTry :: int
  st_awaitingRestart :: bool
  st_draining :: bool

definition nextBackoff :: "int \<Rightarrow> int" where
  "nextBackoff d = (if d \<le> 0 then backoffStart else min (wrap64 (d * 2)) backoffCap)"

record Agent =
  ag_node :: string
  ag_desired :: "(string, Instance) fmap"
  ag_haveSnapshot :: bool
  ag_lastRev :: int
  ag_states :: "(string, instState) fmap"
  ag_grace :: "(string, int) fmap"
  ag_net :: "NetBootstrap option"
  ag_desiredNet :: "NetDesired option"
  ag_probeReady :: "(string, bool) fmap"
  ag_kickReconcile :: bool
  ag_kickReport :: bool
  ag_kickNet :: bool

definition agent_New :: "string \<Rightarrow> Agent" where
  "agent_New node = \<lparr>ag_node = node, ag_desired = fmempty, ag_haveSnapshot = False, ag_lastRev = 0,
     ag_states = fmempty, ag_grace = fmempty, ag_net = None, ag_desiredNet = None, ag_probeReady = fmempty,
     ag_kickReconcile = False, ag_kickReport = False, ag_kickNet = False\<rparr>"

subsection \<open>The snapshot\<close>

fun snapshot_loop :: "Instance list \<Rightarrow> (string, Instance) fmap \<Rightarrow> (string, int) fmap \<Rightarrow>
    (string, Instance) fmap \<times> (string, int) fmap" where
  "snapshot_loop [] want grace = (want, grace)"
| "snapshot_loop (inst # rest) want grace =
     (let name = m_name (i_Meta inst); g = terminationGraceSeconds (is_Drain (i_Spec inst)) in
      snapshot_loop rest (fmupd name inst want) (if g > 0 then fmupd name g grace else grace))"

definition applySnapshot :: "DesiredState \<Rightarrow> Agent \<Rightarrow> Agent" where
  "applySnapshot ds a = (case snapshot_loop (ds_instances ds) fmempty (ag_grace a) of
     (want, grace) \<Rightarrow>
       a\<lparr>ag_desired := want, ag_haveSnapshot := True, ag_lastRev := ds_revision ds, ag_grace := grace,
         ag_desiredNet := Some (ds_net ds), ag_kickReconcile := True, ag_kickNet := True\<rparr>)"

subsection \<open>Bookkeeping\<close>

definition stateFor :: "Instance \<Rightarrow> Agent \<Rightarrow> instState" where
  "stateFor inst a =
     (let uid = m_uid (i_Meta inst);
          fresh = \<lparr>st_uid = uid, st_phase = INSTANCE_PHASE_PENDING, st_restarts = ist_restarts (i_Status inst),
            st_containerID = [], st_ip = [], st_message = [], st_backoff = 0, st_nextTry = 0,
            st_awaitingRestart = False, st_draining = False\<rparr>
      in case fmlookup (ag_states a) (m_name (i_Meta inst)) of
           Some st \<Rightarrow> if st_uid st = uid then st else fresh
         | None \<Rightarrow> fresh)"

definition reportable :: "instState \<Rightarrow> InstancePhase \<times> int \<times> string \<times> string \<times> string" where
  "reportable st = (st_phase st, st_restarts st, st_containerID st, st_ip st, st_message st)"

definition putState :: "string \<Rightarrow> instState \<Rightarrow> Agent \<Rightarrow> Agent" where
  "putState name st a =
     (let changed = (case fmlookup (ag_states a) name of None \<Rightarrow> True | Some prev \<Rightarrow> reportable prev \<noteq> reportable st)
      in a\<lparr>ag_states := fmupd name st (ag_states a), ag_kickReport := (ag_kickReport a \<or> changed)\<rparr>)"

definition pruneState :: "(string, Instance) fmap \<Rightarrow> Agent \<Rightarrow> Agent" where
  "pruneState want a = a\<lparr>ag_states := fmfilter (\<lambda>name. fmlookup want name \<noteq> None) (ag_states a)\<rparr>"

definition rememberedGrace :: "string \<Rightarrow> Agent \<Rightarrow> int" where
  "rememberedGrace name a = (case fmlookup (ag_grace a) name of
     Some g \<Rightarrow> wrap64 (g * time_Second)
   | None \<Rightarrow> DefaultTerminationGraceSeconds * time_Second)"

definition dnsIP :: "Agent \<Rightarrow> string" where
  "dnsIP a = (case ag_net a of None \<Rightarrow> [] | Some nb \<Rightarrow> nb_kliteNetIp nb)"

definition runningPhase :: "Instance \<Rightarrow> Agent \<Rightarrow> InstancePhase" where
  "runningPhase inst a =
     (if (case c_readinessProbe (is_Container (i_Spec inst)) of None \<Rightarrow> 0 | Some p \<Rightarrow> tcpPort p) \<le> 0
      then INSTANCE_PHASE_READY
      else if fmlookup (ag_probeReady a) (m_name (i_Meta inst)) = Some True then INSTANCE_PHASE_READY
      else INSTANCE_PHASE_RUNNING)"

definition statusUpdates :: "string list \<Rightarrow> Agent \<Rightarrow> InstanceStatusUpdate list" where
  "statusUpdates order a = concat (map (\<lambda>name.
     (case (fmlookup (ag_states a) name, fmlookup (ag_desired a) name) of
        (Some st, Some _) \<Rightarrow>
          [\<lparr>iu_name = name, iu_uid = st_uid st,
            iu_status = Some \<lparr>ist_phase = st_phase st, ist_restarts = st_restarts st, ist_instanceIp = st_ip st,
              ist_containerId = st_containerID st, ist_message = st_message st\<rparr>\<rparr>]
      | _ \<Rightarrow> [])) order)"

subsection \<open>One instance\<close>

definition failInstance :: "'r Runtime \<Rightarrow> string \<Rightarrow> instState \<Rightarrow> string \<Rightarrow> Agent \<Rightarrow> 'r \<Rightarrow> string option \<times> Agent \<times> 'r" where
  "failInstance R name st err a r = (case rt_now R r of (now, r') \<Rightarrow>
     (let b = nextBackoff (st_backoff st) in
      (Some err,
       putState name (st\<lparr>st_phase := INSTANCE_PHASE_FAILED, st_message := err, st_backoff := b, st_nextTry := now + b\<rparr>) a,
       r')))"

definition started :: "Instance \<Rightarrow> string \<Rightarrow> string \<Rightarrow> Agent \<Rightarrow> instState \<Rightarrow> instState" where
  "started inst ident ip a st =
     (let st' = (if st_awaitingRestart st
                 then st\<lparr>st_restarts := wrap32 (st_restarts st + 1), st_awaitingRestart := False\<rparr> else st)
      in st'\<lparr>st_phase := runningPhase inst a, st_containerID := ident, st_message := [], st_ip := ip\<rparr>)"

definition startInstance :: "'r Runtime \<Rightarrow> Instance \<Rightarrow> instState \<Rightarrow> Agent \<Rightarrow> 'r \<Rightarrow> string option \<times> Agent \<times> 'r" where
  "startInstance R inst st a r =
     (let name = m_name (i_Meta inst) in
      case rt_now R r of (now, r0) \<Rightarrow>
      if now < st_nextTry st then (None, putState name st a, r0)
      else case rt_EnsureImage R (c_image (is_Container (i_Spec inst))) r0 of
        (Some err, r1) \<Rightarrow> failInstance R name st err a r1
      | (None, r1) \<Rightarrow>
        (case rt_RunInstance R inst (ag_node a) (dnsIP a) r1 of
           (Inl err, r2) \<Rightarrow> failInstance R name st err a r2
         | (Inr ident, r2) \<Rightarrow>
           (case rt_InspectIP R ident r2 of ((ip, _), r3) \<Rightarrow> (None, putState name (started inst ident ip a st) a, r3))))"

definition crashed :: "RunningInstance \<Rightarrow> int \<Rightarrow> instState \<Rightarrow> instState" where
  "crashed ri now st =
     (let b = nextBackoff (st_backoff st) in
      st\<lparr>st_awaitingRestart := True, st_backoff := b, st_nextTry := now + b, st_phase := INSTANCE_PHASE_FAILED,
         st_message := ''container exited with code '' @ itoa_int (ExitCode ri),
         st_containerID := ContainerID ri, st_ip := []\<rparr>)"

definition restartInstance :: "'r Runtime \<Rightarrow> Instance \<Rightarrow> RunningInstance \<Rightarrow> instState \<Rightarrow> Agent \<Rightarrow> 'r \<Rightarrow>
    string option \<times> Agent \<times> 'r" where
  "restartInstance R inst ri st a r =
     (let name = m_name (i_Meta inst) in
      case rt_now R r of (now, r0) \<Rightarrow>
      if \<not> st_awaitingRestart st then (None, putState name (crashed ri now st) a, r0)
      else if now < st_nextTry st then (None, putState name st a, r0)
      else case rt_RemoveInstance R (ContainerID ri) r0 of
        (Some err, r1) \<Rightarrow> failInstance R name st err a r1
      | (None, r1) \<Rightarrow> startInstance R inst st a r1)"

definition adopt_ip :: "RunningInstance \<Rightarrow> instState \<Rightarrow> instState" where
  "adopt_ip ri st = (if IP ri \<noteq> [] then st\<lparr>st_ip := IP ri\<rparr> else st)"

definition markRunning :: "Instance \<Rightarrow> RunningInstance \<Rightarrow> instState \<Rightarrow> Agent \<Rightarrow> Agent" where
  "markRunning inst ri st a =
     putState (m_name (i_Meta inst))
       ((adopt_ip ri st)\<lparr>st_awaitingRestart := False, st_phase := runningPhase inst a,
          st_containerID := ContainerID ri, st_message := []\<rparr>) a"

definition observeDraining :: "Instance \<Rightarrow> RunningInstance option \<Rightarrow> instState \<Rightarrow> Agent \<Rightarrow> Agent" where
  "observeDraining inst ri st a =
     putState (m_name (i_Meta inst))
       (case ri of
          None \<Rightarrow> st\<lparr>st_phase := INSTANCE_PHASE_FAILED, st_message := ''container gone while draining'',
                    st_containerID := [], st_ip := []\<rparr>
        | Some c \<Rightarrow>
            if State c = StateRunning
            then (adopt_ip c st)\<lparr>st_phase := INSTANCE_PHASE_DRAINING, st_containerID := ContainerID c, st_message := []\<rparr>
            else st\<lparr>st_phase := INSTANCE_PHASE_FAILED,
                   st_message := ''container exited with code '' @ itoa_int (ExitCode c) @ '' while draining'',
                   st_containerID := ContainerID c, st_ip := []\<rparr>) a"

definition working_state :: "Instance \<Rightarrow> Agent \<Rightarrow> instState" where
  "working_state inst a =
     (let st = stateFor inst a in
      st\<lparr>st_draining := (st_draining st \<or> ist_phase (i_Status inst) = INSTANCE_PHASE_DRAINING)\<rparr>)"

definition reconcileInstance :: "'r Runtime \<Rightarrow> Instance \<Rightarrow> RunningInstance option \<Rightarrow> Agent \<Rightarrow> 'r \<Rightarrow>
    string option \<times> Agent \<times> 'r" where
  "reconcileInstance R inst ri a r =
     (let st = working_state inst a in
      if st_draining st then (None, observeDraining inst ri st a, r)
      else case ri of
        None \<Rightarrow> startInstance R inst st a r
      | Some c \<Rightarrow>
          if State c = StateRunning then (None, markRunning inst c st a, r)
          else restartInstance R inst c st a r)"

subsection \<open>A pass\<close>

fun matchContainers :: "(string, Instance) fmap \<Rightarrow> RunningInstance list \<Rightarrow> (string, RunningInstance) fmap \<Rightarrow>
    RunningInstance list \<Rightarrow> (string, RunningInstance) fmap \<times> RunningInstance list" where
  "matchContainers want [] byName orphans = (byName, orphans)"
| "matchContainers want (ri # rest) byName orphans =
     (case fmlookup want (InstanceName ri) of
        Some inst \<Rightarrow>
          if fmlookup byName (InstanceName ri) = None \<and> InstanceUID ri = m_uid (i_Meta inst) \<and>
             TemplateHash ri = is_templateHash (i_Spec inst)
          then matchContainers want rest (fmupd (InstanceName ri) ri byName) orphans
          else matchContainers want rest byName (orphans @ [ri])
      | None \<Rightarrow> matchContainers want rest byName (orphans @ [ri]))"

definition removeOrphan :: "'r Runtime \<Rightarrow> RunningInstance \<Rightarrow> Agent \<Rightarrow> 'r \<Rightarrow> string option \<times> Agent \<times> 'r" where
  "removeOrphan R ri a r =
     (case (if State ri = StateRunning
            then rt_StopInstance R (ContainerID ri) (rememberedGrace (InstanceName ri) a) r else (None, r)) of
        (Some err, r1) \<Rightarrow> (Some err, a, r1)
      | (None, r1) \<Rightarrow>
        (case rt_RemoveInstance R (ContainerID ri) r1 of
           (Some err, r2) \<Rightarrow> (Some err, a, r2)
         | (None, r2) \<Rightarrow>
             (None,
              if fmlookup (ag_desired a) (InstanceName ri) = None
              then a\<lparr>ag_grace := fmdrop (InstanceName ri) (ag_grace a)\<rparr> else a, r2)))"

fun orphans_loop :: "'r Runtime \<Rightarrow> RunningInstance list \<Rightarrow> Agent \<Rightarrow> 'r \<Rightarrow> string list \<times> Agent \<times> 'r" where
  "orphans_loop R [] a r = ([], a, r)"
| "orphans_loop R (ri # rest) a r =
     (case removeOrphan R ri a r of (e, a1, r1) \<Rightarrow>
      case orphans_loop R rest a1 r1 of (es, a2, r2) \<Rightarrow>
        ((case e of None \<Rightarrow> es | Some err \<Rightarrow> (''orphan '' @ InstanceName ri @ '': '' @ err) # es), a2, r2))"

fun instances_loop :: "'r Runtime \<Rightarrow> (string, Instance) fmap \<Rightarrow> (string, RunningInstance) fmap \<Rightarrow> string list \<Rightarrow>
    Agent \<Rightarrow> 'r \<Rightarrow> string list \<times> Agent \<times> 'r" where
  "instances_loop R want byName [] a r = ([], a, r)"
| "instances_loop R want byName (name # rest) a r =
     (case fmlookup want name of
        None \<Rightarrow> instances_loop R want byName rest a r
      | Some inst \<Rightarrow>
        (case reconcileInstance R inst (fmlookup byName name) a r of (e, a1, r1) \<Rightarrow>
         case instances_loop R want byName rest a1 r1 of (es, a2, r2) \<Rightarrow>
           ((case e of None \<Rightarrow> es | Some err \<Rightarrow> (''instance '' @ name @ '': '' @ err) # es), a2, r2)))"

definition agent_reconcile :: "'r Runtime \<Rightarrow> string list \<Rightarrow> Agent \<Rightarrow> 'r \<Rightarrow> string list \<times> Agent \<times> 'r" where
  "agent_reconcile R order a r =
     (let want = ag_desired a in
      case rt_ListInstances R (ag_node a) r of
        (Inl err, r0) \<Rightarrow> ([err], a, r0)
      | (Inr actual, r0) \<Rightarrow>
        (case matchContainers want actual fmempty [] of (byName, orphans) \<Rightarrow>
         case orphans_loop R orphans a r0 of (es1, a1, r1) \<Rightarrow>
         case instances_loop R want byName order a1 r1 of (es2, a2, r2) \<Rightarrow>
           (es1 @ es2, pruneState want a2, r2)))"

text \<open>A turn of \<open>reconcileLoop\<close>: nothing happens before the first snapshot.\<close>

definition reconcileLoop_turn :: "'r Runtime \<Rightarrow> string list \<Rightarrow> Agent \<Rightarrow> 'r \<Rightarrow> Agent \<times> 'r" where
  "reconcileLoop_turn R order a r =
     (let a0 = a\<lparr>ag_kickReconcile := False\<rparr> in
      if ag_haveSnapshot a then snd (agent_reconcile R order a0 r) else (a0, r))"

text \<open>The life of an agent: snapshots and probe verdicts arrive, containers change on their own, passes run.\<close>

datatype 'r AgentEvent = AgSnapshot DesiredState | AgProbe "(string, bool) fmap" | AgWorld "'r \<Rightarrow> 'r" | AgPass "string list"

fun agent_event :: "'r Runtime \<Rightarrow> 'r AgentEvent \<Rightarrow> Agent \<times> 'r \<Rightarrow> Agent \<times> 'r" where
  "agent_event R (AgSnapshot ds) (a, r) = (applySnapshot ds a, r)"
| "agent_event R (AgProbe p) (a, r) = (a\<lparr>ag_probeReady := p\<rparr>, r)"
| "agent_event R (AgWorld f) (a, r) = (a, f r)"
| "agent_event R (AgPass order) (a, r) = reconcileLoop_turn R order a r"

definition agent_run :: "'r Runtime \<Rightarrow> 'r AgentEvent list \<Rightarrow> Agent \<times> 'r \<Rightarrow> Agent \<times> 'r" where
  "agent_run R es = fold (agent_event R) es"

subsection \<open>Backoff and matching\<close>

lemma nextBackoff_bounds:
  assumes "d \<le> 0 \<or> backoffStart \<le> d" "d \<le> backoffCap"
  shows "backoffStart \<le> nextBackoff d \<and> nextBackoff d \<le> backoffCap"
proof -
  have "is_int64 (d * 2)" if "0 < d" using that assms(2) by (simp add: is_int64_def backoff_defs)
  then show ?thesis using assms by (auto simp: nextBackoff_def backoff_defs min_def)
qed

definition owns :: "(string, Instance) fmap \<Rightarrow> RunningInstance \<Rightarrow> bool" where
  "owns want ri \<longleftrightarrow> (\<exists>inst. fmlookup want (InstanceName ri) = Some inst \<and> InstanceUID ri = m_uid (i_Meta inst) \<and>
     TemplateHash ri = is_templateHash (i_Spec inst))"

definition all_owned :: "(string, Instance) fmap \<Rightarrow> (string, RunningInstance) fmap \<Rightarrow> bool" where
  "all_owned want byName \<longleftrightarrow> (\<forall>k c. fmlookup byName k = Some c \<longrightarrow> owns want c \<and> InstanceName c = k)"

lemma all_owned_upd: "owns want c \<Longrightarrow> all_owned want m \<Longrightarrow> all_owned want (fmupd (InstanceName c) c m)"
  by (simp add: all_owned_def)

lemma matchContainers_owned:
  "all_owned want byName \<Longrightarrow> all_owned want (fst (matchContainers want actual byName orphans))"
proof (induction want actual byName orphans rule: matchContainers.induct)
  case (2 want ri rest byName orphans)
  show ?case
  proof (cases "owns want ri \<and> fmlookup byName (InstanceName ri) = None")
    case True
    then show ?thesis using "2.IH"(2) all_owned_upd [OF _ "2.prems"] by (fastforce simp: owns_def)
  next
    case False
    then show ?thesis using "2.IH" "2.prems" by (auto simp: owns_def split: option.splits)
  qed
qed simp

subsection \<open>Draining is sticky\<close>

definition drains :: "string \<Rightarrow> string \<Rightarrow> Agent \<Rightarrow> bool" where
  "drains n u a \<longleftrightarrow> (case fmlookup (ag_states a) n of Some st \<Rightarrow> st_uid st = u \<and> st_draining st | None \<Rightarrow> False)"

definition keyed :: "(string, Instance) fmap \<Rightarrow> bool" where
  "keyed want \<longleftrightarrow> (\<forall>k inst. fmlookup want k = Some inst \<longrightarrow> m_name (i_Meta inst) = k)"

definition lists :: "string \<Rightarrow> string \<Rightarrow> (string, Instance) fmap \<Rightarrow> bool" where
  "lists n u want \<longleftrightarrow> (case fmlookup want n of Some inst \<Rightarrow> m_uid (i_Meta inst) = u | None \<Rightarrow> False)"

lemma keyed_upd: "keyed want \<Longrightarrow> keyed (fmupd (m_name (i_Meta inst)) inst want)"
  by (simp add: keyed_def)

lemma snapshot_loop_keyed: "keyed want \<Longrightarrow> keyed (fst (snapshot_loop is want grace))"
  by (induction "is" want grace rule: snapshot_loop.induct) (simp_all add: Let_def keyed_upd)

lemma putState_drains: "drains n u (putState name st a) \<longleftrightarrow>
    (if name = n then st_uid st = u \<and> st_draining st else drains n u a)"
  by (simp add: drains_def putState_def Let_def)

lemma working_state_draining:
  "drains n u a \<Longrightarrow> m_name (i_Meta inst) = n \<Longrightarrow> m_uid (i_Meta inst) = u \<Longrightarrow>
     st_draining (working_state inst a) \<and> st_uid (working_state inst a) = u"
  by (auto simp: drains_def working_state_def stateFor_def Let_def split: option.splits)

lemma observeDraining_drains:
  "st_draining st \<Longrightarrow> drains (m_name (i_Meta inst)) (st_uid st) (observeDraining inst ri st a)"
  by (auto simp: observeDraining_def putState_drains adopt_ip_def split: option.splits)

text \<open>A snapshot that still names \<open>n\<close> as the object \<open>u\<close>, whatever phase it gives it.\<close>

fun still_listed :: "string \<Rightarrow> string \<Rightarrow> 'r AgentEvent \<Rightarrow> bool" where
  "still_listed n u (AgSnapshot ds) \<longleftrightarrow> lists n u (fst (snapshot_loop (ds_instances ds) fmempty fmempty))"
| "still_listed n u _ \<longleftrightarrow> True"

fun world_keeps :: "('r \<Rightarrow> bool) \<Rightarrow> 'r AgentEvent \<Rightarrow> bool" where
  "world_keeps I (AgWorld f) \<longleftrightarrow> (\<forall>r. I r \<longrightarrow> I (f r))"
| "world_keeps I _ \<longleftrightarrow> True"

definition draining_inv :: "string \<Rightarrow> string \<Rightarrow> Agent \<Rightarrow> bool" where
  "draining_inv n u a \<longleftrightarrow> drains n u a \<and> keyed (ag_desired a) \<and> lists n u (ag_desired a)"

lemma snapshot_loop_want:
  "fst (snapshot_loop is want g) = fold (\<lambda>inst. fmupd (m_name (i_Meta inst)) inst) is want"
  by (induction "is" want g rule: snapshot_loop.induct) (simp_all add: Let_def)

lemma applySnapshot_inv:
  assumes "draining_inv n u a" "still_listed n u (AgSnapshot ds)"
  shows "draining_inv n u (applySnapshot ds a)"
proof -
  let ?want = "fst (snapshot_loop (ds_instances ds) fmempty (ag_grace a))"
  have "ag_desired (applySnapshot ds a) = ?want" "ag_states (applySnapshot ds a) = ag_states a"
    by (simp_all add: applySnapshot_def split: prod.split)
  moreover have "keyed ?want" by (rule snapshot_loop_keyed) (simp add: keyed_def)
  moreover have "lists n u ?want"
    using assms(2) by (simp add: snapshot_loop_want)
  ultimately show ?thesis using assms(1) by (simp add: draining_inv_def drains_def)
qed

definition keeps :: "('r \<Rightarrow> bool) \<Rightarrow> string \<Rightarrow> Agent \<Rightarrow> Agent \<times> 'r \<Rightarrow> bool" where
  "keeps I n a p \<longleftrightarrow> I (snd p) \<and> fmlookup (ag_states (fst p)) n = fmlookup (ag_states a) n \<and>
     ag_desired (fst p) = ag_desired a"

text \<open>
  What a claim about the calls to the engine needs of it: a condition on the world that every method
  keeps, except perhaps a run of the instance named \<open>n\<close>.
\<close>

locale guarded_runtime =
  fixes R :: "'r Runtime" and I :: "'r \<Rightarrow> bool" and n :: string
  assumes keep_image: "I r \<Longrightarrow> I (snd (rt_EnsureImage R img r))"
    and keep_run: "I r \<Longrightarrow> m_name (i_Meta inst) \<noteq> n \<Longrightarrow> I (snd (rt_RunInstance R inst node dns r))"
    and keep_stop: "I r \<Longrightarrow> I (snd (rt_StopInstance R ident grace r))"
    and keep_remove: "I r \<Longrightarrow> I (snd (rt_RemoveInstance R ident r))"
    and keep_list: "I r \<Longrightarrow> I (snd (rt_ListInstances R node r))"
    and keep_ip: "I r \<Longrightarrow> I (snd (rt_InspectIP R ident r))"
    and keep_now: "I r \<Longrightarrow> I (snd (rt_now R r))"
begin

lemma failInstance_keeps: "I r \<Longrightarrow> name \<noteq> n \<Longrightarrow> keeps I n a (snd (failInstance R name st err a r))"
  using keep_now [of r] by (auto simp: keeps_def failInstance_def putState_def Let_def split: prod.splits)

lemma putState_keeps: "I r \<Longrightarrow> name \<noteq> n \<Longrightarrow> keeps I n a (putState name st a, r)"
  by (simp add: keeps_def putState_def Let_def)

lemma startInstance_keeps:
  assumes "I r" "m_name (i_Meta inst) \<noteq> n"
  shows "keeps I n a (snd (startInstance R inst st a r))"
proof -
  obtain now r0 where now: "rt_now R r = (now, r0)" by fastforce
  obtain e r1 where image: "rt_EnsureImage R (c_image (is_Container (i_Spec inst))) r0 = (e, r1)" by fastforce
  obtain x r2 where run: "rt_RunInstance R inst (ag_node a) (dnsIP a) r1 = (x, r2)" by fastforce
  have I: "I r0" "I r1" "I r2"
    using keep_now [OF assms(1)] now keep_image [of r0] image keep_run [OF _ assms(2), of r1] run
    by (metis snd_conv)+
  have ip: "I r3" if "rt_InspectIP R ident r2 = (y, r3)" for ident y r3
    using keep_ip [OF I(3), of ident] that by simp
  show ?thesis
    using I assms(2) ip
    by (auto simp: startInstance_def now image run Let_def putState_keeps failInstance_keeps split: option.split sum.split prod.split)
qed

lemma restartInstance_keeps:
  assumes "I r" "m_name (i_Meta inst) \<noteq> n"
  shows "keeps I n a (snd (restartInstance R inst ri st a r))"
proof -
  obtain now r0 where now: "rt_now R r = (now, r0)" by fastforce
  obtain e r1 where rm: "rt_RemoveInstance R (ContainerID ri) r0 = (e, r1)" by fastforce
  have I: "I r0" "I r1"
    using keep_now [OF assms(1)] now keep_remove [of r0] rm by (metis snd_conv)+
  show ?thesis
    using I assms(2)
    by (auto simp: restartInstance_def now rm Let_def putState_keeps failInstance_keeps startInstance_keeps split: option.split)
qed

lemma reconcileInstance_keeps:
  assumes "I r" "m_name (i_Meta inst) \<noteq> n"
  shows "keeps I n a (snd (reconcileInstance R inst ri a r))"
  using assms startInstance_keeps [OF assms] restartInstance_keeps [OF assms]
  by (auto simp: reconcileInstance_def observeDraining_def markRunning_def Let_def putState_keeps split: option.split)

lemma removeOrphan_keeps:
  assumes "I r"
  shows "keeps I n a (snd (removeOrphan R ri a r))"
proof -
  obtain e r1 where stop: "(if State ri = StateRunning
      then rt_StopInstance R (ContainerID ri) (rememberedGrace (InstanceName ri) a) r else (None, r)) = (e, r1)" by fastforce
  obtain f r2 where rm: "rt_RemoveInstance R (ContainerID ri) r1 = (f, r2)" by fastforce
  have "I r1" using stop keep_stop [OF assms] assms by (metis snd_conv)
  moreover from this have "I r2" using keep_remove [of r1] rm by (metis snd_conv)
  ultimately show ?thesis by (auto simp: removeOrphan_def stop rm keeps_def split: option.split)
qed

lemma orphans_loop_keeps: "I r \<Longrightarrow> keeps I n a (snd (orphans_loop R ris a r))"
proof (induction ris arbitrary: a r)
  case (Cons ri rest)
  obtain e a1 r1 where one: "removeOrphan R ri a r = (e, a1, r1)" by (metis prod.collapse)
  have k: "keeps I n a (a1, r1)" using removeOrphan_keeps [OF Cons.prems, of a ri] one by simp
  then have "keeps I n a1 (snd (orphans_loop R rest a1 r1))" using Cons.IH [of r1 a1] by (simp add: keeps_def)
  with k show ?case by (auto simp: one keeps_def split: prod.split)
qed (simp add: keeps_def)

lemma reconcileInstance_guards:
  assumes "I r" "drains n u a" "m_name (i_Meta inst) = n \<longrightarrow> m_uid (i_Meta inst) = u"
    "reconcileInstance R inst ri a r = (e, a', r')"
  shows "I r' \<and> drains n u a' \<and> ag_desired a' = ag_desired a"
proof (cases "m_name (i_Meta inst) = n")
  case True
  let ?st = "working_state inst a"
  have st: "st_draining ?st" "st_uid ?st = u" using working_state_draining [OF assms(2) True] True assms(3) by auto
  then have "a' = observeDraining inst ri ?st a" "r' = r"
    using assms(4) by (auto simp: reconcileInstance_def Let_def)
  with st True assms(1) observeDraining_drains [OF st(1), of inst ri a] show ?thesis
    by (auto simp: observeDraining_def putState_def Let_def)
next
  case False
  from reconcileInstance_keeps [OF assms(1) this, of a ri] assms(2,4) show ?thesis
    by (simp add: keeps_def drains_def)
qed

lemma instances_loop_guards:
  assumes "I r" "drains n u a" "keyed want" "lists n u want"
    "instances_loop R want byName order a r = (es, a', r')"
  shows "I r' \<and> drains n u a' \<and> ag_desired a' = ag_desired a"
  using assms(1,2,5)
proof (induction order arbitrary: a r es)
  case (Cons name rest)
  show ?case
  proof (cases "fmlookup want name")
    case None
    with Cons show ?thesis by simp
  next
    case (Some inst)
    obtain e a1 r1 where one: "reconcileInstance R inst (fmlookup byName name) a r = (e, a1, r1)" by (metis prod.collapse)
    obtain es' where rest: "instances_loop R want byName rest a1 r1 = (es', a', r')"
      using Cons.prems(3) Some one by (auto split: prod.splits)
    have "m_name (i_Meta inst) = name" using assms(3) Some by (simp add: keyed_def)
    then have "m_name (i_Meta inst) = n \<longrightarrow> m_uid (i_Meta inst) = u" using assms(4) Some by (auto simp: lists_def)
    from reconcileInstance_guards [OF Cons.prems(1,2) this one] Cons.IH [OF _ _ rest] show ?thesis by simp
  qed
qed simp

lemma reconcile_guards:
  assumes "I r" "drains n u a" "keyed (ag_desired a)" "lists n u (ag_desired a)"
    "agent_reconcile R order a r = (es, a', r')"
  shows "I r' \<and> drains n u a' \<and> ag_desired a' = ag_desired a"
proof -
  obtain x r0 where l: "rt_ListInstances R (ag_node a) r = (x, r0)" by fastforce
  have r0: "I r0" using keep_list [OF assms(1), of "ag_node a"] l by simp
  show ?thesis
  proof (cases x)
    case (Inl err)
    with assms(2,5) l r0 show ?thesis by (simp add: agent_reconcile_def Let_def)
  next
    case (Inr actual)
    obtain byName orphans where m: "matchContainers (ag_desired a) actual fmempty [] = (byName, orphans)" by fastforce
    obtain es1 a1 r1 where o: "orphans_loop R orphans a r0 = (es1, a1, r1)" by (metis prod.collapse)
    obtain es2 a2 r2 where i: "instances_loop R (ag_desired a) byName order a1 r1 = (es2, a2, r2)" by (metis prod.collapse)
    have "keeps I n a (a1, r1)" using orphans_loop_keeps [OF r0, of a orphans] o by simp
    then have "I r1" "drains n u a1" "ag_desired a1 = ag_desired a" using assms(2) by (simp_all add: keeps_def drains_def)
    with instances_loop_guards [OF _ _ assms(3,4) i] have "I r2" "drains n u a2" "ag_desired a2 = ag_desired a" by simp_all
    moreover have "a' = pruneState (ag_desired a) a2" "r' = r2"
      using assms(5) by (simp_all add: agent_reconcile_def Let_def l Inr m o i)
    ultimately show ?thesis using assms(4)
      by (auto simp: pruneState_def drains_def lists_def split: option.splits)
  qed
qed

lemma turn_guards:
  assumes "I r" "draining_inv n u a" "reconcileLoop_turn R order a r = (a', r')"
  shows "I r' \<and> draining_inv n u a'"
proof (cases "ag_haveSnapshot a")
  case True
  let ?a = "a\<lparr>ag_kickReconcile := False\<rparr>"
  have "snd (agent_reconcile R order ?a r) = (a', r')" using assms(3) True by (simp add: reconcileLoop_turn_def Let_def)
  then obtain es where pass: "agent_reconcile R order ?a r = (es, a', r')" by (metis prod.collapse)
  from reconcile_guards [OF assms(1) _ _ _ pass, of u] assms(2) show ?thesis
    by (simp add: draining_inv_def drains_def)
next
  case False
  with assms show ?thesis by (auto simp: reconcileLoop_turn_def Let_def draining_inv_def drains_def)
qed

lemma event_guards:
  assumes "I r" "draining_inv n u a" "still_listed n u ev" "world_keeps I ev" "agent_event R ev (a, r) = (a', r')"
  shows "I r' \<and> draining_inv n u a'"
proof (cases ev)
  case (AgSnapshot ds)
  then have "a' = applySnapshot ds a" "r' = r" using assms(5) by simp_all
  with applySnapshot_inv [OF assms(2), of ds] assms(1,3) AgSnapshot show ?thesis by (simp del: still_listed.simps)
next
  case (AgProbe p)
  then have "a' = a\<lparr>ag_probeReady := p\<rparr>" "r' = r" using assms(5) by simp_all
  with assms(1,2) show ?thesis by (simp add: draining_inv_def drains_def)
next
  case (AgWorld f)
  then have "a' = a" "r' = f r" "I (f r)" using assms(1,4,5) by auto
  with assms(2) show ?thesis by simp
next
  case (AgPass order)
  then have "reconcileLoop_turn R order a r = (a', r')" using assms(5) by simp
  with assms(1,2) show ?thesis by (rule turn_guards)
qed

lemma run_guards:
  assumes "I r" "draining_inv n u a" "list_all (still_listed n u) es" "list_all (world_keeps I) es"
    "agent_run R es (a, r) = (a', r')"
  shows "I r' \<and> draining_inv n u a'"
  using assms
proof (induction es arbitrary: a r)
  case (Cons ev es)
  obtain a1 r1 where one: "agent_event R ev (a, r) = (a1, r1)" by fastforce
  then have "I r1" "draining_inv n u a1" using event_guards [OF Cons.prems(1,2) _ _ one] Cons.prems(3,4) by auto
  then show ?case using Cons.IH [of r1 a1] Cons.prems one by (simp add: agent_run_def)
qed (simp add: agent_run_def)

end

subsection \<open>The runs an agent asks for\<close>

text \<open>Any engine, with a record of the instances it was asked to run.\<close>

definition lift_log :: "('r \<Rightarrow> 'x \<times> 'r) \<Rightarrow> 'r \<times> 'l \<Rightarrow> 'x \<times> ('r \<times> 'l)" where
  "lift_log f w = (case f (fst w) of (x, r) \<Rightarrow> (x, (r, snd w)))"

definition logged_rt :: "'r Runtime \<Rightarrow> ('r \<times> Instance list) Runtime" where
  "logged_rt R = \<lparr>
     rt_EnsureImage = (\<lambda>img. lift_log (rt_EnsureImage R img)),
     rt_RunInstance = (\<lambda>inst node dns w. lift_log (rt_RunInstance R inst node dns) (fst w, inst # snd w)),
     rt_StopInstance = (\<lambda>ident g. lift_log (rt_StopInstance R ident g)),
     rt_RemoveInstance = (\<lambda>ident. lift_log (rt_RemoveInstance R ident)),
     rt_ListInstances = (\<lambda>node. lift_log (rt_ListInstances R node)),
     rt_InspectIP = (\<lambda>ident. lift_log (rt_InspectIP R ident)),
     rt_now = lift_log (rt_now R)\<rparr>"

fun logged_event :: "'r AgentEvent \<Rightarrow> ('r \<times> 'l) AgentEvent" where
  "logged_event (AgSnapshot ds) = AgSnapshot ds"
| "logged_event (AgProbe p) = AgProbe p"
| "logged_event (AgWorld f) = AgWorld (map_prod f id)"
| "logged_event (AgPass order) = AgPass order"

definition never_run :: "string \<Rightarrow> 'r \<times> Instance list \<Rightarrow> bool" where
  "never_run n w \<longleftrightarrow> n \<notin> (\<lambda>inst. m_name (i_Meta inst)) ` set (snd w)"

lemma lift_log_snd [simp]: "snd (snd (lift_log f w)) = snd w"
  by (simp add: lift_log_def split: prod.split)

interpretation lg: guarded_runtime "logged_rt R" "never_run n" n for R :: "'r Runtime" and n
  by unfold_locales (auto simp: logged_rt_def never_run_def)

lemma logged_still_listed: "still_listed n u (logged_event ev) = still_listed n u ev"
  by (cases ev) simp_all

lemma logged_world_keeps: "world_keeps (never_run n) (logged_event ev)"
  by (cases ev) (simp_all add: never_run_def)

text \<open>
  C40. Draining is sticky. Once the agent holds an instance as draining, then through any further
  snapshots, probe verdicts, container crashes and reconcile passes, on any engine and in any visiting
  order, it still holds it as draining and never asks the engine to run that instance again, whatever
  phase later snapshots give it, as long as they list the same object under that name.
\<close>

theorem draining_never_restarted:
  assumes "drains n u a" "keyed (ag_desired a)" "lists n u (ag_desired a)"
    "list_all (still_listed n u) es"
    "agent_run (logged_rt R) (map logged_event es) (a, (r, [])) = (a', (r', runs))"
  shows "drains n u a' \<and> n \<notin> (\<lambda>inst. m_name (i_Meta inst)) ` set runs"
proof -
  have "never_run n (r, [])" by (simp add: never_run_def)
  moreover have "draining_inv n u a" using assms(1-3) by (simp add: draining_inv_def)
  moreover have "list_all (still_listed n u) (map logged_event es)" "list_all (world_keeps (never_run n)) (map logged_event es)"
    using assms(4) by (simp_all add: list_all_iff logged_still_listed logged_world_keeps)
  ultimately have "never_run n (r', runs) \<and> draining_inv n u a'" using assms(5) by (rule lg.run_guards)
  then show ?thesis by (simp add: never_run_def draining_inv_def)
qed

text \<open>An engine that keeps its containers in a list, and an agent with one draining instance.\<close>

definition list_engine :: "RunningInstance list Runtime" where
  "list_engine = \<lparr>rt_EnsureImage = (\<lambda>_ r. (None, r)),
     rt_RunInstance = (\<lambda>inst _ _ r. (Inr ''c'', r @ [\<lparr>ContainerID = ''c'', InstanceName = m_name (i_Meta inst),
        InstanceUID = m_uid (i_Meta inst), TemplateHash = is_templateHash (i_Spec inst), State = StateRunning,
        ExitCode = 0, IP = ''10.44.1.2''\<rparr>])),
     rt_StopInstance = (\<lambda>_ _ r. (None, r)),
     rt_RemoveInstance = (\<lambda>ident r. (None, filter (\<lambda>c. ContainerID c \<noteq> ident) r)),
     rt_ListInstances = (\<lambda>_ r. (Inr r, r)),
     rt_InspectIP = (\<lambda>_ r. ((''10.44.1.2'', None), r)),
     rt_now = (\<lambda>r. (time_Second, r))\<rparr>"

definition sample_drained :: "string \<Rightarrow> InstancePhase \<Rightarrow> Instance" where
  "sample_drained name ph = \<lparr>i_meta = Some (zero_Meta\<lparr>m_name := name, m_uid := ''u''\<rparr>), i_spec = None,
     i_status = Some (zero_InstanceStatus\<lparr>ist_phase := ph\<rparr>)\<rparr>"

definition sample_snapshot :: "InstancePhase \<Rightarrow> DesiredState" where
  "sample_snapshot ph = \<lparr>ds_revision = 1,
     ds_instances = [sample_drained ''web-0'' ph, sample_drained ''web-1'' INSTANCE_PHASE_PENDING],
     ds_net = empty_NetDesired\<rparr>"

definition sample_agent :: Agent where
  "sample_agent = fst (agent_run list_engine
     [AgSnapshot (sample_snapshot INSTANCE_PHASE_DRAINING), AgPass [''web-0'']] (agent_New ''n1'', []))"

definition sample_life :: "RunningInstance list AgentEvent list" where
  "sample_life = [AgSnapshot (sample_snapshot INSTANCE_PHASE_READY), AgWorld (\<lambda>_. []), AgPass [''web-1'', ''web-0'']]"

lemma sample_agent_draining: "drains ''web-0'' ''u'' sample_agent" "lists ''web-0'' ''u'' (ag_desired sample_agent)"
  "list_all (still_listed ''web-0'' ''u'') sample_life"
  by code_simp+

lemma sample_agent_keyed: "keyed (ag_desired sample_agent)"
proof -
  have "ag_desired sample_agent = fst (snapshot_loop (ds_instances (sample_snapshot INSTANCE_PHASE_DRAINING)) fmempty fmempty)"
    by code_simp
  moreover have "keyed fmempty" by (simp add: keyed_def)
  ultimately show ?thesis by (simp only: snapshot_loop_keyed)
qed

lemma draining_never_restarted_witness:
  "case agent_run (logged_rt list_engine) (map logged_event sample_life) (sample_agent, ([], [])) of
     (a', (r', runs)) \<Rightarrow> map (\<lambda>inst. m_name (i_Meta inst)) runs = [''web-1''] \<and> drains ''web-0'' ''u'' a' \<and>
       ''web-0'' \<notin> (\<lambda>inst. m_name (i_Meta inst)) ` set runs"
proof -
  obtain a' r' runs where run: "agent_run (logged_rt list_engine) (map logged_event sample_life) (sample_agent, ([], [])) = (a', (r', runs))"
    by (metis prod.collapse)
  have "map (\<lambda>inst. m_name (i_Meta inst)) (snd (snd (agent_run (logged_rt list_engine) (map logged_event sample_life) (sample_agent, ([], []))))) = [''web-1'']"
    by code_simp
  with draining_never_restarted [OF sample_agent_draining(1) sample_agent_keyed sample_agent_draining(2,3) run] run
  show ?thesis by simp
qed

end
