(* ===== verification/Klite_Etcd.thy ===== *)
theory Klite_Etcd
  imports Klite_Cluster
begin

text \<open>
  The store klited runs on, \<open>src/internal/store/etcd.go\<close>. The etcd client and the protojson codec are
  parameters: the calls the code makes, over a state of their own. \<open>etcd_documented\<close> says what etcd
  documents of them, seen through the key-value map and the revision of the cluster; reads may fail,
  and a write is assumed to be answered, because a write that times out may or may not have happened.
  The operations of the store then meet \<open>store_contract\<close>, so what is proved in that locale holds for etcd.
\<close>

subsection \<open>The client\<close>

record 'v KeyValue =
  kv_Key :: string
  kv_Value :: 'v
  kv_ModRevision :: int

datatype Cmp = CompareCreateRevision string int | CompareModRevision string int

datatype 'v TxnOp = TxnPut string 'v | TxnDelete string | TxnGetCount string

record TxnResponse =
  tx_Succeeded :: bool
  tx_Revision :: int
  tx_Count :: int

text \<open>The clock and \<open>uuid.NewString\<close> are read through the same state.\<close>

record ('e, 'v) Client =
  cli_Get :: "string \<Rightarrow> 'e \<Rightarrow> (string + 'v KeyValue list) \<times> 'e"
  cli_GetPrefix :: "string \<Rightarrow> 'e \<Rightarrow> (string + 'v KeyValue list \<times> int) \<times> 'e"
  cli_Put :: "string \<Rightarrow> 'v \<Rightarrow> 'e \<Rightarrow> (string + int) \<times> 'e"
  cli_Delete :: "string \<Rightarrow> 'e \<Rightarrow> (string + int) \<times> 'e"
  cli_Txn :: "Cmp \<Rightarrow> 'v TxnOp \<Rightarrow> 'v TxnOp option \<Rightarrow> 'e \<Rightarrow> (string + TxnResponse) \<times> 'e"
  cli_NewString :: "'e \<Rightarrow> string \<times> 'e"
  cli_Now :: "'e \<Rightarrow> int \<times> 'e"

record 'v Codec =
  pj_Marshal :: "Object \<Rightarrow> 'v option"
  pj_Unmarshal :: "'v \<Rightarrow> Object option"

subsection \<open>The operations\<close>

definition etcd_prefix :: string where "etcd_prefix = ''/klite/v1/''"

definition etcd_key :: "string \<Rightarrow> string \<Rightarrow> StoreErr + string" where
  "etcd_key kind name = (case Canonical kind of
     None \<Rightarrow> Inl (ErrUnknownKind kind)
   | Some canonical \<Rightarrow>
       if name = [] \<or> ContainsStr name ''/'' then Inl (ErrInvalidName name)
       else Inr (etcd_prefix @ Plural canonical @ ''/'' @ name))"

definition etcd_decode :: "'v Codec \<Rightarrow> string \<Rightarrow> 'v \<Rightarrow> int \<Rightarrow> StoreErr + Object" where
  "etcd_decode J key val modRev = (case pj_Unmarshal J val of
     None \<Rightarrow> Inl (ErrDecode key)
   | Some obj \<Rightarrow> Inr (upd_Meta (\<lambda>m. m\<lparr>m_resourceVersion := modRev\<rparr>) obj))"

definition etcd_Get :: "('e, 'v) Client \<Rightarrow> 'v Codec \<Rightarrow> string \<Rightarrow> string \<Rightarrow> ('e, Object \<times> int) op" where
  "etcd_Get C J kind name s = (case etcd_key kind name of
     Inl err \<Rightarrow> (Inl err, s)
   | Inr k \<Rightarrow>
     (case cli_Get C k s of
        (Inl err, s') \<Rightarrow> (Inl (ErrBackend err), s')
      | (Inr [], s') \<Rightarrow> (Inl ErrNotFound, s')
      | (Inr (kv # _), s') \<Rightarrow>
        (case etcd_decode J k (kv_Value kv) (kv_ModRevision kv) of
           Inl err \<Rightarrow> (Inl err, s')
         | Inr obj \<Rightarrow> (Inr (obj, kv_ModRevision kv), s'))))"

fun decode_all :: "'v Codec \<Rightarrow> 'v KeyValue list \<Rightarrow> StoreErr + Object list" where
  "decode_all J [] = Inr []"
| "decode_all J (kv # kvs) = (case etcd_decode J (kv_Key kv) (kv_Value kv) (kv_ModRevision kv) of
     Inl err \<Rightarrow> Inl err
   | Inr obj \<Rightarrow> (case decode_all J kvs of Inl err \<Rightarrow> Inl err | Inr objs \<Rightarrow> Inr (obj # objs)))"

definition etcd_List :: "('e, 'v) Client \<Rightarrow> 'v Codec \<Rightarrow> string \<Rightarrow> ('e, Object list \<times> int) op" where
  "etcd_List C J kind s = (case Canonical kind of
     None \<Rightarrow> (Inl (ErrUnknownKind kind), s)
   | Some canonical \<Rightarrow>
     (case cli_GetPrefix C (etcd_prefix @ Plural canonical @ ''/'') s of
        (Inl err, s') \<Rightarrow> (Inl (ErrBackend err), s')
      | (Inr (kvs, revision), s') \<Rightarrow>
        (case decode_all J kvs of Inl err \<Rightarrow> (Inl err, s') | Inr objs \<Rightarrow> (Inr (objs, revision), s'))))"

definition etcd_stampNew :: "('e, 'v) Client \<Rightarrow> Meta \<Rightarrow> 'e \<Rightarrow> Meta \<times> 'e" where
  "etcd_stampNew C meta s =
     (let (meta1, s1) = (if m_uid meta = []
            then (let (u, s') = cli_NewString C s in (meta\<lparr>m_uid := u\<rparr>, s')) else (meta, s))
      in if m_createdUnix meta1 = 0
         then (let (t, s2) = cli_Now C s1 in (meta1\<lparr>m_createdUnix := t\<rparr>, s2)) else (meta1, s1))"

definition putCreate :: "('e, 'v) Client \<Rightarrow> 'v Codec \<Rightarrow> string \<Rightarrow> Meta \<Rightarrow> Object \<Rightarrow> ('e, int) op" where
  "putCreate C J k meta obj s =
     (let (meta', s1) = etcd_stampNew C meta s in
      case pj_Marshal J (upd_Meta (\<lambda>_. meta') obj) of
        None \<Rightarrow> (Inl ErrMarshal, s1)
      | Some val \<Rightarrow>
        (case cli_Txn C (CompareCreateRevision k 0) (TxnPut k val) None s1 of
           (Inl err, s2) \<Rightarrow> (Inl (ErrBackend err), s2)
         | (Inr resp, s2) \<Rightarrow>
             if \<not> tx_Succeeded resp then (Inl ErrAlreadyExists, s2) else (Inr (tx_Revision resp), s2)))"

text \<open>The metadata of an upsert: adopted from the object that is there, or stamped.\<close>

definition upsert_meta :: "('e, 'v) Client \<Rightarrow> 'v Codec \<Rightarrow> string \<Rightarrow> Meta \<Rightarrow> ('e, Meta) op" where
  "upsert_meta C J kind meta s = (case etcd_Get C J kind (m_name meta) s of
     (Inr (cur', _), s') \<Rightarrow>
       (let curMeta = MetaOf cur';
            meta1 = (if m_uid meta = [] then meta\<lparr>m_uid := m_uid curMeta\<rparr> else meta);
            meta2 = (if m_createdUnix meta1 = 0 then meta1\<lparr>m_createdUnix := m_createdUnix curMeta\<rparr> else meta1)
        in (Inr meta2, s'))
   | (Inl err, s') \<Rightarrow>
       if err = ErrNotFound then (let (meta', s'') = etcd_stampNew C meta s' in (Inr meta', s''))
       else (Inl err, s'))"

definition putUpsert :: "('e, 'v) Client \<Rightarrow> 'v Codec \<Rightarrow> string \<Rightarrow> string \<Rightarrow> Meta \<Rightarrow> Object \<Rightarrow> ('e, int) op" where
  "putUpsert C J kind k meta obj s = (case upsert_meta C J kind meta s of
     (Inl err, s1) \<Rightarrow> (Inl err, s1)
   | (Inr meta', s1) \<Rightarrow>
     (case pj_Marshal J (upd_Meta (\<lambda>_. meta') obj) of
        None \<Rightarrow> (Inl ErrMarshal, s1)
      | Some val \<Rightarrow>
        (case cli_Put C k val s1 of
           (Inl err, s2) \<Rightarrow> (Inl (ErrBackend err), s2)
         | (Inr revision, s2) \<Rightarrow> (Inr revision, s2))))"

definition putCAS :: "('e, 'v) Client \<Rightarrow> 'v Codec \<Rightarrow> string \<Rightarrow> Meta \<Rightarrow> Object \<Rightarrow> int \<Rightarrow> ('e, int) op" where
  "putCAS C J k meta obj expectedRev s =
     (case pj_Marshal J (upd_Meta (\<lambda>_. meta) obj) of
        None \<Rightarrow> (Inl ErrMarshal, s)
      | Some val \<Rightarrow>
        (case cli_Txn C (CompareModRevision k expectedRev) (TxnPut k val) None s of
           (Inl err, s1) \<Rightarrow> (Inl (ErrBackend err), s1)
         | (Inr resp, s1) \<Rightarrow>
             if \<not> tx_Succeeded resp then (Inl ErrConflict, s1) else (Inr (tx_Revision resp), s1)))"

definition etcd_Put :: "('e, 'v) Client \<Rightarrow> 'v Codec \<Rightarrow> Object \<Rightarrow> int \<Rightarrow> ('e, int) op" where
  "etcd_Put C J obj expectedRev s =
     (let kind = KindOf obj; meta = MetaOf obj in
      if kind = [] then (Inl ErrEmptyEnvelope, s)
      else case etcd_key kind (m_name meta) of
        Inl err \<Rightarrow> (Inl err, s)
      | Inr k \<Rightarrow>
        (let meta1 = meta\<lparr>m_resourceVersion := 0\<rparr> in
         if expectedRev = RevCreate then putCreate C J k meta1 obj s
         else if expectedRev = RevAny then putUpsert C J kind k meta1 obj s
         else if 0 < expectedRev then putCAS C J k meta1 obj expectedRev s
         else (Inl (ErrInvalidRev expectedRev), s)))"

definition etcd_Delete :: "('e, 'v) Client \<Rightarrow> string \<Rightarrow> string \<Rightarrow> ('e, unit) op" where
  "etcd_Delete C kind name s = (case etcd_key kind name of
     Inl err \<Rightarrow> (Inl err, s)
   | Inr k \<Rightarrow>
     (case cli_Delete C k s of
        (Inl err, s') \<Rightarrow> (Inl (ErrBackend err), s')
      | (Inr deleted, s') \<Rightarrow> if deleted = 0 then (Inl ErrNotFound, s') else (Inr (), s')))"

definition etcd_DeleteIfRevision :: "('e, 'v) Client \<Rightarrow> string \<Rightarrow> string \<Rightarrow> int \<Rightarrow> ('e, unit) op" where
  "etcd_DeleteIfRevision C kind name expectedRev s = (case etcd_key kind name of
     Inl err \<Rightarrow> (Inl err, s)
   | Inr k \<Rightarrow>
       if expectedRev \<le> 0 then (Inl (ErrInvalidRev expectedRev), s)
       else case cli_Txn C (CompareModRevision k expectedRev) (TxnDelete k) (Some (TxnGetCount k)) s of
         (Inl err, s') \<Rightarrow> (Inl (ErrBackend err), s')
       | (Inr resp, s') \<Rightarrow>
           if tx_Succeeded resp then (Inr (), s')
           else if tx_Count resp = 0 then (Inl ErrNotFound, s') else (Inl ErrConflict, s'))"

definition etcd_store :: "('e, 'v) Client \<Rightarrow> 'v Codec \<Rightarrow> 'e Store" where
  "etcd_store C J = \<lparr>st_Get = etcd_Get C J, st_List = etcd_List C J, st_Put = etcd_Put C J,
     st_Delete = etcd_Delete C, st_DeleteIfRevision = etcd_DeleteIfRevision C\<rparr>"

subsection \<open>What etcd documents\<close>

text \<open>The cluster seen from outside: value, create and mod revision of each key, the revision, an invariant.\<close>

record ('e, 'v) Cluster =
  cl_kv :: "'e \<Rightarrow> string \<Rightarrow> ('v \<times> int \<times> int) option"
  cl_rev :: "'e \<Rightarrow> int"
  cl_inv :: "'e \<Rightarrow> bool"

definition unchanged :: "('e, 'v) Cluster \<Rightarrow> 'e \<Rightarrow> 'e \<Rightarrow> bool" where
  "unchanged M s s' \<longleftrightarrow> cl_inv M s' \<and> cl_kv M s' = cl_kv M s \<and> cl_rev M s' = cl_rev M s"

definition wrote :: "('e, 'v) Cluster \<Rightarrow> string \<Rightarrow> 'v \<Rightarrow> 'e \<Rightarrow> 'e \<Rightarrow> bool" where
  "wrote M k v s s' \<longleftrightarrow> cl_inv M s' \<and> cl_rev M s < cl_rev M s' \<and>
     (\<exists>c. cl_kv M s' = (cl_kv M s)(k \<mapsto> (v, c, cl_rev M s')))"

definition removed :: "('e, 'v) Cluster \<Rightarrow> string \<Rightarrow> 'e \<Rightarrow> 'e \<Rightarrow> bool" where
  "removed M k s s' \<longleftrightarrow> cl_inv M s' \<and> cl_rev M s < cl_rev M s' \<and> cl_kv M s' = (cl_kv M s)(k := None)"

text \<open>The revisions a comparison sees; an absent key has both at 0.\<close>

fun cmp_holds :: "('e, 'v) Cluster \<Rightarrow> Cmp \<Rightarrow> 'e \<Rightarrow> bool" where
  "cmp_holds M (CompareCreateRevision k r) s \<longleftrightarrow> (case cl_kv M s k of None \<Rightarrow> 0 | Some (_, c, _) \<Rightarrow> c) = r"
| "cmp_holds M (CompareModRevision k r) s \<longleftrightarrow> (case cl_kv M s k of None \<Rightarrow> 0 | Some (_, _, m) \<Rightarrow> m) = r"

definition holds_kv :: "('e, 'v) Cluster \<Rightarrow> 'e \<Rightarrow> 'v KeyValue \<Rightarrow> bool" where
  "holds_kv M s kv \<longleftrightarrow> (\<exists>c. cl_kv M s (kv_Key kv) = Some (kv_Value kv, c, kv_ModRevision kv))"

definition doc_revisions :: "('e, 'v) Cluster \<Rightarrow> bool" where
  "doc_revisions M \<longleftrightarrow> (\<forall>s k v c m. cl_inv M s \<longrightarrow> cl_kv M s k = Some (v, c, m) \<longrightarrow> 0 < c \<and> 0 < m \<and> m \<le> cl_rev M s)"

definition doc_reads :: "('e, 'v) Client \<Rightarrow> ('e, 'v) Cluster \<Rightarrow> bool" where
  "doc_reads C M \<longleftrightarrow>
     (\<forall>s k r s'. cl_inv M s \<longrightarrow> cli_Get C k s = (r, s') \<longrightarrow> unchanged M s s' \<and>
        (\<forall>kvs. r = Inr kvs \<longrightarrow> length kvs \<le> 1 \<and> set kvs = {kv. kv_Key kv = k \<and> holds_kv M s kv})) \<and>
     (\<forall>s p r s'. cl_inv M s \<longrightarrow> cli_GetPrefix C p s = (r, s') \<longrightarrow> unchanged M s s' \<and>
        (\<forall>kvs v. r = Inr (kvs, v) \<longrightarrow> v = cl_rev M s \<and> sorted_wrt (<) (map kv_Key kvs) \<and>
           set kvs = {kv. HasPrefix (kv_Key kv) p \<and> holds_kv M s kv}))"

definition doc_writes :: "('e, 'v) Client \<Rightarrow> ('e, 'v) Cluster \<Rightarrow> bool" where
  "doc_writes C M \<longleftrightarrow>
     (\<forall>s k v r s'. cl_inv M s \<longrightarrow> cli_Put C k v s = (r, s') \<longrightarrow> r = Inr (cl_rev M s') \<and> wrote M k v s s') \<and>
     (\<forall>s k r s'. cl_inv M s \<longrightarrow> cli_Delete C k s = (r, s') \<longrightarrow>
        (if cl_kv M s k = None then r = Inr 0 \<and> unchanged M s s' else r = Inr 1 \<and> removed M k s s'))"

definition doc_txns :: "('e, 'v) Client \<Rightarrow> ('e, 'v) Cluster \<Rightarrow> bool" where
  "doc_txns C M \<longleftrightarrow>
     (\<forall>s b k v r s'. cl_inv M s \<longrightarrow> cli_Txn C b (TxnPut k v) None s = (r, s') \<longrightarrow>
        (\<exists>resp. r = Inr resp \<and> tx_Succeeded resp = cmp_holds M b s \<and> tx_Revision resp = cl_rev M s' \<and>
           (if cmp_holds M b s then wrote M k v s s' else unchanged M s s'))) \<and>
     (\<forall>s b k k' r s'. cl_inv M s \<longrightarrow> cli_Txn C b (TxnDelete k) (Some (TxnGetCount k')) s = (r, s') \<longrightarrow>
        (\<exists>resp. r = Inr resp \<and> tx_Succeeded resp = cmp_holds M b s \<and>
           (if cmp_holds M b s then (if cl_kv M s k = None then unchanged M s s' else removed M k s s')
            else unchanged M s s' \<and> tx_Count resp = (if cl_kv M s k' = None then 0 else 1))))"

definition etcd_documented :: "('e, 'v) Client \<Rightarrow> ('e, 'v) Cluster \<Rightarrow> bool" where
  "etcd_documented C M \<longleftrightarrow> doc_revisions M \<and> doc_reads C M \<and> doc_writes C M \<and> doc_txns C M \<and>
     (\<forall>s. cl_inv M s \<longrightarrow> unchanged M s (snd (cli_NewString C s)) \<and> unchanged M s (snd (cli_Now C s)))"

text \<open>What protojson writes it reads back; it may refuse to write.\<close>

definition codec_documented :: "'v Codec \<Rightarrow> bool" where
  "codec_documented J \<longleftrightarrow> (\<forall>x v. pj_Marshal J x = Some v \<longrightarrow> pj_Unmarshal J v = Some x)"

subsection \<open>The view of the store\<close>

definition path :: "string \<Rightarrow> string \<Rightarrow> string" where
  "path c n = etcd_prefix @ Plural c @ ''/'' @ n"

definition etcd_view :: "'v Codec \<Rightarrow> ('e, 'v) Cluster \<Rightarrow> 'e \<Rightarrow> string \<times> string \<Rightarrow> (Object \<times> int) option" where
  "etcd_view J M s q =
     (if fst q \<in> set Kinds \<and> valid_name (snd q) then
        (case cl_kv M s (path (fst q) (snd q)) of
           None \<Rightarrow> None
         | Some (v, c, m) \<Rightarrow> map_option (\<lambda>x. (upd_Meta (\<lambda>mt. mt\<lparr>m_resourceVersion := m\<rparr>) x, m)) (pj_Unmarshal J v))
      else None)"

text \<open>Under the prefix of k-lite there are only objects at their own keys.\<close>

definition etcd_ok :: "'v Codec \<Rightarrow> ('e, 'v) Cluster \<Rightarrow> 'e \<Rightarrow> bool" where
  "etcd_ok J M s \<longleftrightarrow> cl_inv M s \<and>
     (\<forall>k v c m. cl_kv M s k = Some (v, c, m) \<longrightarrow> HasPrefix k etcd_prefix \<longrightarrow>
        (\<exists>x. pj_Unmarshal J v = Some x \<and> x \<noteq> Object_Empty \<and> valid_name (object_name x) \<and>
           k = path (KindOf x) (object_name x)))"

lemma Kinds_plurals: "list_all (\<lambda>k. CHR ''/'' \<notin> set (Plural k)) Kinds"
  by code_simp

lemma path_inj: "c \<in> set Kinds \<Longrightarrow> d \<in> set Kinds \<Longrightarrow> path c n = path d n' \<Longrightarrow> c = d \<and> n = n'"
  using sep_inj [of "Plural c" "CHR ''/''" n "Plural d" n'] Kinds_plurals Plural_inj [of c d]
  by (auto simp: path_def list_all_iff)

lemma path_prefix: "HasPrefix (path c n) etcd_prefix"
  by (simp add: path_def)

lemma path_list_prefix:
  assumes "c \<in> set Kinds" "d \<in> set Kinds"
  shows "HasPrefix (path d n) (etcd_prefix @ Plural c @ ''/'') \<longleftrightarrow> d = c"
proof
  assume "HasPrefix (path d n) (etcd_prefix @ Plural c @ ''/'')"
  then obtain t where "path d n = path c t" by (auto simp: HasPrefix_iff path_def)
  with path_inj [OF assms(2,1)] show "d = c" by simp
qed (auto simp: HasPrefix_iff path_def)

lemma KindOf_in: "x \<noteq> Object_Empty \<Longrightarrow> KindOf x \<in> set Kinds"
  by (rule Canonical_range [OF Canonical_KindOf])

lemma etcd_key_Inr: "etcd_key kind n = Inr k \<longleftrightarrow> valid_name n \<and> (\<exists>c. Canonical kind = Some c \<and> k = path c n)"
  by (auto simp: etcd_key_def path_def valid_name_def ContainsStr_char split: option.splits if_splits)

lemma etcd_entry:
  assumes "etcd_ok J M s" "c \<in> set Kinds" "cl_kv M s (path c n) = Some (v, cr, m)"
  shows "\<exists>x. pj_Unmarshal J v = Some x \<and> x \<noteq> Object_Empty \<and> KindOf x = c \<and> object_name x = n \<and> valid_name n"
proof -
  from assms(1,3) path_prefix obtain x where x: "pj_Unmarshal J v = Some x" "x \<noteq> Object_Empty"
    "valid_name (object_name x)" "path c n = path (KindOf x) (object_name x)"
    unfolding etcd_ok_def by blast
  with path_inj [OF assms(2) KindOf_in [OF x(2)] x(4)] show ?thesis by auto
qed

lemma etcd_view_None:
  assumes "etcd_ok J M s" "c \<in> set Kinds" "valid_name n"
  shows "etcd_view J M s (c, n) = None \<longleftrightarrow> cl_kv M s (path c n) = None"
  using etcd_entry [OF assms(1,2)] assms(2,3) by (fastforce simp: etcd_view_def split: option.splits)

lemma etcd_view_SomeD:
  assumes "etcd_view J M s (c, n) = Some (x, v)"
  shows "\<exists>val cr y. cl_kv M s (path c n) = Some (val, cr, v) \<and> pj_Unmarshal J val = Some y \<and>
    x = upd_Meta (\<lambda>mt. mt\<lparr>m_resourceVersion := v\<rparr>) y \<and> c \<in> set Kinds \<and> valid_name n"
  using assms by (auto simp: etcd_view_def split: if_splits option.splits)

lemma unchanged_view: "unchanged M s s' \<Longrightarrow> etcd_ok J M s \<Longrightarrow>
    etcd_ok J M s' \<and> etcd_view J M s' = etcd_view J M s \<and> cl_rev M s' = cl_rev M s"
  by (auto simp: unchanged_def etcd_ok_def etcd_view_def fun_eq_iff)

lemma unchanged_trans: "unchanged M s t \<Longrightarrow> unchanged M t u \<Longrightarrow> unchanged M s u"
  by (simp add: unchanged_def)

lemma unchanged_refl: "cl_inv M s \<Longrightarrow> unchanged M s s"
  by (simp add: unchanged_def)

lemma etcd_view_facts:
  assumes "doc_revisions M" "etcd_ok J M s" "etcd_view J M s (k, n) = Some (x, v)"
  shows "0 < v \<and> v \<le> cl_rev M s \<and> KindOf x = k \<and> object_name x = n \<and> m_resourceVersion (MetaOf x) = v \<and> valid_name n"
proof -
  from etcd_view_SomeD [OF assms(3)] obtain val cr y where y: "cl_kv M s (path k n) = Some (val, cr, v)"
    "pj_Unmarshal J val = Some y" "x = upd_Meta (\<lambda>mt. mt\<lparr>m_resourceVersion := v\<rparr>) y" "k \<in> set Kinds" by blast
  from etcd_entry [OF assms(2) y(4,1)] y(2) have e: "y \<noteq> Object_Empty" "KindOf y = k" "object_name y = n" "valid_name n"
    by auto
  have "0 < v \<and> v \<le> cl_rev M s"
    using assms(1,2) y(1) unfolding doc_revisions_def etcd_ok_def by blast
  with e show ?thesis by (simp add: y(3) object_name_def)
qed

text \<open>A write at the key of an object.\<close>

definition restamped :: "Object \<Rightarrow> Meta \<Rightarrow> bool" where
  "restamped x mt \<longleftrightarrow> (\<exists>u c. mt = (MetaOf x)\<lparr>m_resourceVersion := 0, m_uid := u, m_createdUnix := c\<rparr> \<and>
     (m_uid (MetaOf x) \<noteq> [] \<longrightarrow> u = m_uid (MetaOf x)) \<and>
     (m_createdUnix (MetaOf x) \<noteq> 0 \<longrightarrow> c = m_createdUnix (MetaOf x)))"

lemma wrote_view:
  assumes J: "codec_documented J" and ok: "etcd_ok J M s" and x: "x \<noteq> Object_Empty" "valid_name (object_name x)"
    and mt: "restamped x mt" and val: "pj_Marshal J (upd_Meta (\<lambda>_. mt) x) = Some val"
    and w: "wrote M (path (KindOf x) (object_name x)) val s s'"
  shows "etcd_ok J M s' \<and> cl_rev M s < cl_rev M s' \<and>
    (\<exists>x'. stamped x (cl_rev M s') x' \<and> etcd_view J M s' = (etcd_view J M s)(key_of x \<mapsto> (x', cl_rev M s')))"
proof -
  let ?k = "path (KindOf x) (object_name x)" and ?y = "upd_Meta (\<lambda>_. mt) x"
  let ?x' = "upd_Meta (\<lambda>m. m\<lparr>m_resourceVersion := cl_rev M s'\<rparr>) ?y"
  obtain c where kv: "cl_kv M s' = (cl_kv M s)(?k \<mapsto> (val, c, cl_rev M s'))" and s': "cl_inv M s'" "cl_rev M s < cl_rev M s'"
    using w unfolding wrote_def by blast
  have un: "pj_Unmarshal J val = Some ?y" using J val by (simp add: codec_documented_def)
  obtain u d where ud: "mt = (MetaOf x)\<lparr>m_resourceVersion := 0, m_uid := u, m_createdUnix := d\<rparr>"
    "m_uid (MetaOf x) \<noteq> [] \<longrightarrow> u = m_uid (MetaOf x)" "m_createdUnix (MetaOf x) \<noteq> 0 \<longrightarrow> d = m_createdUnix (MetaOf x)"
    using mt unfolding restamped_def by blast
  have y: "?y \<noteq> Object_Empty" "KindOf ?y = KindOf x" "object_name ?y = object_name x"
    using x(1) by (simp_all add: object_name_def ud(1))
  have "etcd_ok J M s'"
    unfolding etcd_ok_def
  proof (intro conjI allI impI)
    show "\<exists>z. pj_Unmarshal J v = Some z \<and> z \<noteq> Object_Empty \<and> valid_name (object_name z) \<and> k = path (KindOf z) (object_name z)"
      if "cl_kv M s' k = Some (v, cr, m)" "HasPrefix k etcd_prefix" for k v cr m
    proof (cases "k = ?k")
      case True
      then show ?thesis using that(1) un y x(2) by (intro exI [of _ ?y]) (simp add: kv)
    next
      case False
      then have "cl_kv M s k = Some (v, cr, m)" using that(1) by (simp add: kv)
      with ok that(2) show ?thesis unfolding etcd_ok_def by blast
    qed
  qed (rule s'(1))
  moreover have "etcd_view J M s' = (etcd_view J M s)(key_of x \<mapsto> (?x', cl_rev M s'))"
  proof
    fix q
    show "etcd_view J M s' q = ((etcd_view J M s)(key_of x \<mapsto> (?x', cl_rev M s'))) q"
    proof (cases "q = key_of x")
    case True
    then show ?thesis using KindOf_in [OF x(1)] x(2) by (simp add: etcd_view_def kv un key_of_def)
  next
    case False
    then have "path (fst q) (snd q) \<noteq> ?k" if "fst q \<in> set Kinds"
      using path_inj [OF that KindOf_in [OF x(1)]] by (cases q) (auto simp: key_of_def)
    with False show ?thesis by (simp add: etcd_view_def kv)
    qed
  qed
  moreover have "stamped x (cl_rev M s') ?x'"
    unfolding stamped_def
  proof (intro exI conjI)
    show "?x' = upd_Meta (\<lambda>m. m\<lparr>m_uid := u, m_createdUnix := d, m_resourceVersion := cl_rev M s'\<rparr>) x"
      by (simp add: ud(1)) (rule upd_Meta_cong, simp)
  qed (rule ud(2), rule ud(3))
  ultimately show ?thesis using s'(2) by blast
qed

lemma removed_view:
  assumes "etcd_ok J M s" "c \<in> set Kinds" "removed M (path c n) s s'"
  shows "etcd_ok J M s' \<and> cl_rev M s < cl_rev M s' \<and> etcd_view J M s' = (etcd_view J M s)((c, n) := None)"
proof -
  have r: "cl_inv M s'" "cl_rev M s < cl_rev M s'" "cl_kv M s' = (cl_kv M s)(path c n := None)"
    using assms(3) by (auto simp: removed_def)
  have "cl_kv M s k = Some e" if "cl_kv M s' k = Some e" for k e
    using that by (simp add: r(3) split: if_splits)
  then have "etcd_ok J M s'" using assms(1) r(1) unfolding etcd_ok_def by blast
  moreover have "etcd_view J M s' = (etcd_view J M s)((c, n) := None)"
  proof
    fix q
    show "etcd_view J M s' q = ((etcd_view J M s)((c, n) := None)) q"
      using path_inj [OF _ assms(2), of "fst q" "snd q" n] by (cases q) (auto simp: etcd_view_def r(3))
  qed
  ultimately show ?thesis using r(2) by blast
qed

subsection \<open>Reads\<close>

lemma documentedD:
  assumes "etcd_documented C M"
  shows "doc_revisions M" "doc_reads C M" "doc_writes C M" "doc_txns C M"
    "\<And>s. cl_inv M s \<Longrightarrow> unchanged M s (snd (cli_NewString C s))" "\<And>s. cl_inv M s \<Longrightarrow> unchanged M s (snd (cli_Now C s))"
  using assms by (simp_all add: etcd_documented_def)

lemma ok_inv: "etcd_ok J M s \<Longrightarrow> cl_inv M s"
  by (simp add: etcd_ok_def)

lemma doc_Get:
  assumes "doc_reads C M" "cl_inv M s" "cli_Get C k s = (r, s')"
  shows "unchanged M s s'" "r = Inr [] \<Longrightarrow> cl_kv M s k = None"
    "r = Inr (kv # kvs) \<Longrightarrow> \<exists>c. cl_kv M s k = Some (kv_Value kv, c, kv_ModRevision kv)"
proof -
  have d: "unchanged M s s'" "\<And>kvs. r = Inr kvs \<Longrightarrow> set kvs = {kv. kv_Key kv = k \<and> holds_kv M s kv}"
    using assms unfolding doc_reads_def by blast+
  show "unchanged M s s'" by (rule d(1))
  show "cl_kv M s k = None" if "r = Inr []"
  proof (rule ccontr)
    assume "cl_kv M s k \<noteq> None"
    then obtain v c m where "cl_kv M s k = Some (v, c, m)" by (cases "cl_kv M s k") auto
    then have "\<lparr>kv_Key = k, kv_Value = v, kv_ModRevision = m\<rparr> \<in> {kv. kv_Key kv = k \<and> holds_kv M s kv}"
      by (simp add: holds_kv_def)
    with d(2) [OF that] show False by simp
  qed
  show "\<exists>c. cl_kv M s k = Some (kv_Value kv, c, kv_ModRevision kv)" if "r = Inr (kv # kvs)"
    using d(2) [OF that] by (auto simp: holds_kv_def)
qed

lemma etcd_Get_cases:
  assumes D: "etcd_documented C M" and ok: "etcd_ok J M s" and run: "etcd_Get C J k n s = (r, s')"
  shows "unchanged M s s' \<and> (\<forall>x v. r = Inr (x, v) \<longrightarrow> (\<exists>c. Canonical k = Some c \<and> etcd_view J M s (c, n) = Some (x, v))) \<and>
    (r = Inl ErrNotFound \<longrightarrow> (\<exists>c. Canonical k = Some c \<and> etcd_view J M s (c, n) = None))"
proof (cases "etcd_key k n")
  case (Inl err)
  then have "err \<noteq> ErrNotFound" by (auto simp: etcd_key_def split: option.splits if_splits)
  with Inl run unchanged_refl [OF ok_inv [OF ok]] show ?thesis by (auto simp: etcd_Get_def)
next
  case (Inr key)
  then obtain c where c: "valid_name n" "Canonical k = Some c" "key = path c n" by (auto simp: etcd_key_Inr)
  have kind: "c \<in> set Kinds" by (rule Canonical_range [OF c(2)])
  obtain q t where g: "cli_Get C key s = (q, t)" by fastforce
  note G = doc_Get [OF documentedD(2) [OF D] ok_inv [OF ok] g]
  show ?thesis
  proof (cases q)
    case (Inl err)
    with run Inr g G(1) show ?thesis by (auto simp: etcd_Get_def)
  next
    case q: (Inr kvs)
    show ?thesis
    proof (cases kvs)
      case Nil
      with run Inr g q have "r = Inl ErrNotFound" "s' = t" by (simp_all add: etcd_Get_def)
      with G(1) G(2) q Nil c(2) etcd_view_None [OF ok kind c(1)] c(3) show ?thesis by auto
    next
      case (Cons kv rest)
      with G(3) q obtain cr where kv: "cl_kv M s (path c n) = Some (kv_Value kv, cr, kv_ModRevision kv)" by (auto simp: c(3))
      from etcd_entry [OF ok kind kv] obtain x where x: "pj_Unmarshal J (kv_Value kv) = Some x" by blast
      have "r = Inr (upd_Meta (\<lambda>mt. mt\<lparr>m_resourceVersion := kv_ModRevision kv\<rparr>) x, kv_ModRevision kv)" "s' = t"
        using run Inr g q Cons x by (simp_all add: etcd_Get_def etcd_decode_def)
      with G(1) c(1,2) kind kv x show ?thesis by (auto simp: etcd_view_def)
    qed
  qed
qed

lemma append_less_append [simp]: "(p @ a < p @ b) \<longleftrightarrow> a < (b :: string)"
  by (induction p) simp_all

lemma decode_all_Inr:
  "decode_all J kvs = Inr xs \<Longrightarrow> list_all2 (\<lambda>kv x. \<exists>y. pj_Unmarshal J (kv_Value kv) = Some y \<and>
     x = upd_Meta (\<lambda>mt. mt\<lparr>m_resourceVersion := kv_ModRevision kv\<rparr>) y) kvs xs"
  by (induction kvs arbitrary: xs) (auto simp: etcd_decode_def split: option.splits sum.splits)

text \<open>What an entry of a prefix read is, once decoded.\<close>

lemma listed_kv:
  assumes ok: "etcd_ok J M s" and c: "c \<in> set Kinds"
    and kv: "HasPrefix (kv_Key kv) (etcd_prefix @ Plural c @ ''/'')" "holds_kv M s kv"
    and y: "pj_Unmarshal J (kv_Value kv) = Some y"
    and x: "x = upd_Meta (\<lambda>mt. mt\<lparr>m_resourceVersion := kv_ModRevision kv\<rparr>) y"
  shows "kv_Key kv = path c (object_name x) \<and> etcd_view J M s (c, object_name x) = Some (x, kv_ModRevision kv)"
proof -
  obtain cr where e: "cl_kv M s (kv_Key kv) = Some (kv_Value kv, cr, kv_ModRevision kv)" using kv(2) by (auto simp: holds_kv_def)
  have "HasPrefix (kv_Key kv) etcd_prefix" using kv(1) by (auto simp: HasPrefix_iff)
  with ok e y have k: "y \<noteq> Object_Empty" "valid_name (object_name y)" "kv_Key kv = path (KindOf y) (object_name y)"
    unfolding etcd_ok_def by fastforce+
  with path_list_prefix [OF c KindOf_in [OF k(1)]] kv(1) have "KindOf y = c" by simp
  with k e y c show ?thesis by (auto simp: x etcd_view_def object_name_def)
qed

lemma doc_GetPrefix:
  assumes "doc_reads C M" "cl_inv M s" "cli_GetPrefix C p s = (r, s')"
  shows "unchanged M s s' \<and> (\<forall>kvs v. r = Inr (kvs, v) \<longrightarrow> v = cl_rev M s \<and> sorted_wrt (<) (map kv_Key kvs) \<and>
    set kvs = {kv. HasPrefix (kv_Key kv) p \<and> holds_kv M s kv})"
  by (rule assms(1) [unfolded doc_reads_def, THEN conjunct2, rule_format, OF assms(2,3)])

lemma etcd_listing:
  assumes ok: "etcd_ok J M s" and c: "c \<in> set Kinds"
    and kvs: "set kvs = {kv. HasPrefix (kv_Key kv) (etcd_prefix @ Plural c @ ''/'') \<and> holds_kv M s kv}"
      "sorted_wrt (<) (map kv_Key kvs)"
    and xs: "decode_all J kvs = Inr xs"
  shows "set xs = {x. \<exists>n w. etcd_view J M s (c, n) = Some (x, w)}" "sorted_wrt (<) (map object_name xs)"
proof -
  have all: "list_all2 (\<lambda>kv x. kv_Key kv = path c (object_name x) \<and>
      etcd_view J M s (c, object_name x) = Some (x, kv_ModRevision kv)) kvs xs"
  proof (rule list.rel_mono_strong [OF decode_all_Inr [OF xs]])
    fix kv x
    assume "kv \<in> set kvs" and "\<exists>y. pj_Unmarshal J (kv_Value kv) = Some y \<and>
      x = upd_Meta (\<lambda>mt. mt\<lparr>m_resourceVersion := kv_ModRevision kv\<rparr>) y"
    then obtain y where "HasPrefix (kv_Key kv) (etcd_prefix @ Plural c @ ''/'')" "holds_kv M s kv"
      "pj_Unmarshal J (kv_Value kv) = Some y" "x = upd_Meta (\<lambda>mt. mt\<lparr>m_resourceVersion := kv_ModRevision kv\<rparr>) y"
      unfolding kvs(1) by blast
    then show "kv_Key kv = path c (object_name x) \<and> etcd_view J M s (c, object_name x) = Some (x, kv_ModRevision kv)"
      by (rule listed_kv [OF ok c])
  qed
  then have keys: "map kv_Key kvs = map (\<lambda>x. path c (object_name x)) xs"
    by (induction rule: list_all2_induct) simp_all
  have viewed: "\<exists>m. etcd_view J M s (c, object_name x) = Some (x, m)" if "x \<in> set xs" for x
    using all that unfolding list_all2_conv_all_nth in_set_conv_nth by metis
  show "sorted_wrt (<) (map object_name xs)"
    using kvs(2) unfolding keys by (simp add: sorted_wrt_map path_def)
  show "set xs = {x. \<exists>n w. etcd_view J M s (c, n) = Some (x, w)}"
  proof (intro set_eqI iffI)
    fix x assume "x \<in> set xs"
    with viewed show "x \<in> {x. \<exists>n w. etcd_view J M s (c, n) = Some (x, w)}" by blast
  next
    fix x assume "x \<in> {x. \<exists>n w. etcd_view J M s (c, n) = Some (x, w)}"
    then obtain n w where x: "etcd_view J M s (c, n) = Some (x, w)" by blast
    from etcd_view_SomeD [OF this] obtain val cr where kv: "cl_kv M s (path c n) = Some (val, cr, w)" by blast
    let ?kv = "\<lparr>kv_Key = path c n, kv_Value = val, kv_ModRevision = w\<rparr>"
    have "?kv \<in> set kvs" using kv path_list_prefix [OF c c, of n] by (simp add: kvs(1) holds_kv_def)
    then have "path c n \<in> set (map kv_Key kvs)" by force
    then obtain y where y: "y \<in> set xs" "path c n = path c (object_name y)" unfolding keys by auto
    with viewed path_inj [OF c c y(2)] have "\<exists>m. etcd_view J M s (c, n) = Some (y, m)" by simp
    with x y(1) show "x \<in> set xs" by auto
  qed
qed

lemma etcd_List_cases:
  assumes D: "etcd_documented C M" and ok: "etcd_ok J M s" and run: "etcd_List C J k s = (r, s')"
  shows "unchanged M s s' \<and> (\<forall>xs v. r = Inr (xs, v) \<longrightarrow> v = cl_rev M s \<and>
    (\<exists>c. Canonical k = Some c \<and> set xs = {x. \<exists>n w. etcd_view J M s (c, n) = Some (x, w)}) \<and>
    sorted_wrt (<) (map object_name xs))"
proof (cases "Canonical k")
  case None
  with run unchanged_refl [OF ok_inv [OF ok]] show ?thesis by (auto simp: etcd_List_def)
next
  case (Some c)
  have kind: "c \<in> set Kinds" by (rule Canonical_range [OF Some])
  obtain q t where g: "cli_GetPrefix C (etcd_prefix @ Plural c @ ''/'') s = (q, t)" by fastforce
  note G = doc_GetPrefix [OF documentedD(2) [OF D] ok_inv [OF ok] g]
  have "s' = t" using run Some g by (auto simp: etcd_List_def split: sum.splits prod.splits)
  moreover have "v = cl_rev M s \<and> set xs = {x. \<exists>n w. etcd_view J M s (c, n) = Some (x, w)} \<and> sorted_wrt (<) (map object_name xs)"
    if "r = Inr (xs, v)" for xs v
  proof -
    from that run Some g obtain kvs where q: "q = Inr (kvs, v)" "decode_all J kvs = Inr xs"
      by (auto simp: etcd_List_def split: sum.splits prod.splits)
    with G etcd_listing [OF ok kind _ _ q(2)] show ?thesis by simp
  qed
  ultimately show ?thesis using conjunct1 [OF G] Some by simp
qed

subsection \<open>Writes\<close>

lemma stampNew_restamped:
  assumes D: "etcd_documented C M" and inv: "cl_inv M s"
    and run: "etcd_stampNew C ((MetaOf x)\<lparr>m_resourceVersion := 0\<rparr>) s = (mt, s')"
  shows "unchanged M s s' \<and> restamped x mt"
proof -
  let ?m = "(MetaOf x)\<lparr>m_resourceVersion := 0\<rparr>"
  obtain u s1 where u: "cli_NewString C s = (u, s1)" by fastforce
  have s1: "unchanged M s s1" using documentedD(5) [OF D inv] u by simp
  have now: "unchanged M s0 s2" if "cli_Now C s0 = (t, s2)" "unchanged M s s0" for s0 t s2
    using documentedD(6) [OF D, of s0] that by (simp add: unchanged_def)
  define s0 where "s0 = (if m_uid ?m = [] then s1 else s)"
  have s0: "unchanged M s s0" using s1 unchanged_refl [OF inv] by (simp add: s0_def)
  obtain t s2 where t: "cli_Now C s0 = (t, s2)" by fastforce
  have "s' = (if m_createdUnix ?m = 0 then s2 else s0)"
    "mt = ?m\<lparr>m_uid := (if m_uid ?m = [] then u else m_uid ?m), m_createdUnix := (if m_createdUnix ?m = 0 then t else m_createdUnix ?m)\<rparr>"
    using run u t by (auto simp: etcd_stampNew_def s0_def Let_def split: if_splits)
  moreover have "unchanged M s s2" by (rule unchanged_trans [OF s0 now [OF t s0]])
  ultimately show ?thesis using s0 by (auto simp: restamped_def)
qed

lemma upsert_restamped:
  assumes D: "etcd_documented C M" and ok: "etcd_ok J M s"
    and run: "upsert_meta C J kind ((MetaOf x)\<lparr>m_resourceVersion := 0\<rparr>) s = (r, s')"
  shows "unchanged M s s' \<and> (\<forall>mt. r = Inr mt \<longrightarrow> restamped x mt)"
proof -
  let ?m = "(MetaOf x)\<lparr>m_resourceVersion := 0\<rparr>"
  obtain g t where g: "etcd_Get C J kind (m_name ?m) s = (g, t)" by fastforce
  have t: "unchanged M s t" using etcd_Get_cases [OF D ok g] by blast
  show ?thesis
  proof (cases g)
    case (Inl err)
    show ?thesis
    proof (cases "err = ErrNotFound")
      case True
      obtain mt u where st: "etcd_stampNew C ?m t = (mt, u)" by fastforce
      have "r = Inr mt" "s' = u" using run g Inl True st by (simp_all add: upsert_meta_def)
      with stampNew_restamped [OF D _ st] t unchanged_trans [OF t] show ?thesis by (auto simp: unchanged_def)
    next
      case False
      with run g Inl t show ?thesis by (auto simp: upsert_meta_def)
    qed
  next
    case (Inr xv)
    obtain y v where "xv = (y, v)" by fastforce
    then have "r = Inr (?m\<lparr>m_uid := (if m_uid ?m = [] then m_uid (MetaOf y) else m_uid ?m),
        m_createdUnix := (if m_createdUnix ?m = 0 then m_createdUnix (MetaOf y) else m_createdUnix ?m)\<rparr>)" "s' = t"
      using run g Inr by (auto simp: upsert_meta_def Let_def)
    with t show ?thesis by (auto simp: restamped_def)
  qed
qed

lemma doc_TxnPut:
  assumes "etcd_documented C M" "cl_inv M s" "cli_Txn C b (TxnPut k v) None s = (r, s')"
  shows "\<exists>resp. r = Inr resp \<and> tx_Succeeded resp = cmp_holds M b s \<and> tx_Revision resp = cl_rev M s' \<and>
    (if cmp_holds M b s then wrote M k v s s' else unchanged M s s')"
  by (rule documentedD(4) [OF assms(1), unfolded doc_txns_def, THEN conjunct1, rule_format, OF assms(2,3)])

lemma doc_TxnDelete:
  assumes "etcd_documented C M" "cl_inv M s" "cli_Txn C b (TxnDelete k) (Some (TxnGetCount k')) s = (r, s')"
  shows "\<exists>resp. r = Inr resp \<and> tx_Succeeded resp = cmp_holds M b s \<and>
    (if cmp_holds M b s then (if cl_kv M s k = None then unchanged M s s' else removed M k s s')
     else unchanged M s s' \<and> tx_Count resp = (if cl_kv M s k' = None then 0 else 1))"
  by (rule documentedD(4) [OF assms(1), unfolded doc_txns_def, THEN conjunct2, rule_format, OF assms(2,3)])

lemma doc_Put:
  assumes "etcd_documented C M" "cl_inv M s" "cli_Put C k v s = (r, s')"
  shows "r = Inr (cl_rev M s') \<and> wrote M k v s s'"
  by (rule documentedD(3) [OF assms(1), unfolded doc_writes_def, THEN conjunct1, rule_format, OF assms(2,3)])

lemma doc_Delete:
  assumes "etcd_documented C M" "cl_inv M s" "cli_Delete C k s = (r, s')"
  shows "if cl_kv M s k = None then r = Inr 0 \<and> unchanged M s s' else r = Inr 1 \<and> removed M k s s'"
  by (rule documentedD(3) [OF assms(1), unfolded doc_writes_def, THEN conjunct2, rule_format, OF assms(2,3)])

text \<open>
  What each arm of Put comes to: refused with nothing changed, or one write of the object under metadata
  that differs from its own in the fields the store owns, with the guard of the arm met.
\<close>

definition put_outcome :: "'v Codec \<Rightarrow> ('e, 'v) Cluster \<Rightarrow> Object \<Rightarrow> bool \<Rightarrow> 'e \<Rightarrow> StoreErr + int \<Rightarrow> 'e \<Rightarrow> bool" where
  "put_outcome J M x guard s r s' \<longleftrightarrow>
     (\<exists>f. r = Inl f \<and> unchanged M s s') \<or>
     (r = Inr (cl_rev M s') \<and> guard \<and> (\<exists>t mt val. unchanged M s t \<and> restamped x mt \<and>
        pj_Marshal J (upd_Meta (\<lambda>_. mt) x) = Some val \<and> wrote M (path (KindOf x) (object_name x)) val t s'))"

abbreviation cleared :: "Object \<Rightarrow> Meta" where
  "cleared x \<equiv> (MetaOf x)\<lparr>m_resourceVersion := 0\<rparr>"

lemma unchanged_cmp: "unchanged M s t \<Longrightarrow> cmp_holds M b t = cmp_holds M b s"
  by (cases b) (simp_all add: unchanged_def)

lemma txn_outcome:
  assumes D: "etcd_documented C M" and t: "unchanged M s t" and mt: "restamped x mt"
    and val: "pj_Marshal J (upd_Meta (\<lambda>_. mt) x) = Some val"
    and txn: "cli_Txn C b (TxnPut (path (KindOf x) (object_name x)) val) None t = (q, s')"
    and r: "r = (case q of Inl e \<Rightarrow> Inl (ErrBackend e) | Inr resp \<Rightarrow> if tx_Succeeded resp then Inr (tx_Revision resp) else Inl f)"
  shows "put_outcome J M x (cmp_holds M b s) s r s'"
proof -
  have "cl_inv M t" using t by (simp add: unchanged_def)
  from doc_TxnPut [OF D this txn] obtain resp where resp: "q = Inr resp" "tx_Succeeded resp = cmp_holds M b s"
    "tx_Revision resp = cl_rev M s'"
    "if cmp_holds M b s then wrote M (path (KindOf x) (object_name x)) val t s' else unchanged M t s'"
    unfolding unchanged_cmp [OF t] by blast
  show ?thesis
  proof (cases "cmp_holds M b s")
    case True
    with resp r t mt val show ?thesis unfolding put_outcome_def by auto
  next
    case False
    with resp have "unchanged M s s'" using unchanged_trans [OF t] by simp
    with False resp r show ?thesis unfolding put_outcome_def by auto
  qed
qed

lemma putCreate_outcome:
  assumes D: "etcd_documented C M" and ok: "etcd_ok J M s"
    and run: "putCreate C J (path (KindOf x) (object_name x)) (cleared x) x s = (r, s')"
  shows "put_outcome J M x (cmp_holds M (CompareCreateRevision (path (KindOf x) (object_name x)) 0) s) s r s'"
proof -
  obtain mt t where st: "etcd_stampNew C (cleared x) s = (mt, t)" by fastforce
  from stampNew_restamped [OF D ok_inv [OF ok] st] have t: "unchanged M s t" "restamped x mt" by auto
  show ?thesis
  proof (cases "pj_Marshal J (upd_Meta (\<lambda>_. mt) x)")
    case None
    with run st t show ?thesis by (auto simp: putCreate_def put_outcome_def)
  next
    case (Some val)
    obtain q u where q: "cli_Txn C (CompareCreateRevision (path (KindOf x) (object_name x)) 0)
      (TxnPut (path (KindOf x) (object_name x)) val) None t = (q, u)" by fastforce
    have "s' = u" "r = (case q of Inl e \<Rightarrow> Inl (ErrBackend e) | Inr resp \<Rightarrow>
        if tx_Succeeded resp then Inr (tx_Revision resp) else Inl ErrAlreadyExists)"
      using run st Some q by (auto simp: putCreate_def split: sum.splits if_splits)
    with txn_outcome [OF D t Some q] show ?thesis by simp
  qed
qed

lemma putCAS_outcome:
  assumes D: "etcd_documented C M" and ok: "etcd_ok J M s"
    and run: "putCAS C J (path (KindOf x) (object_name x)) (cleared x) x e s = (r, s')"
  shows "put_outcome J M x (cmp_holds M (CompareModRevision (path (KindOf x) (object_name x)) e) s) s r s'"
proof (cases "pj_Marshal J (upd_Meta (\<lambda>_. cleared x) x)")
  case None
  with run unchanged_refl [OF ok_inv [OF ok]] show ?thesis by (auto simp: putCAS_def put_outcome_def)
next
  case (Some val)
  obtain q u where q: "cli_Txn C (CompareModRevision (path (KindOf x) (object_name x)) e)
    (TxnPut (path (KindOf x) (object_name x)) val) None s = (q, u)" by fastforce
  have mt: "restamped x (cleared x)" by (auto simp: restamped_def intro!: exI [of _ "m_uid (MetaOf x)"] exI [of _ "m_createdUnix (MetaOf x)"])
  have "s' = u" "r = (case q of Inl e \<Rightarrow> Inl (ErrBackend e) | Inr resp \<Rightarrow>
      if tx_Succeeded resp then Inr (tx_Revision resp) else Inl ErrConflict)"
    using run Some q by (auto simp: putCAS_def split: sum.splits if_splits)
  with txn_outcome [OF D unchanged_refl [OF ok_inv [OF ok]] mt Some q] show ?thesis by simp
qed

lemma putUpsert_outcome:
  assumes D: "etcd_documented C M" and ok: "etcd_ok J M s"
    and run: "putUpsert C J kind (path (KindOf x) (object_name x)) (cleared x) x s = (r, s')"
  shows "put_outcome J M x True s r s'"
proof -
  obtain q t where q: "upsert_meta C J kind (cleared x) s = (q, t)" by fastforce
  from upsert_restamped [OF D ok q] have t: "unchanged M s t" "\<And>mt. q = Inr mt \<Longrightarrow> restamped x mt" by auto
  show ?thesis
  proof (cases q)
    case (Inl err)
    with run q t show ?thesis by (auto simp: putUpsert_def put_outcome_def)
  next
    case (Inr mt)
    show ?thesis
    proof (cases "pj_Marshal J (upd_Meta (\<lambda>_. mt) x)")
      case None
      with run q Inr t show ?thesis by (auto simp: putUpsert_def put_outcome_def)
    next
      case (Some val)
      obtain p u where p: "cli_Put C (path (KindOf x) (object_name x)) val t = (p, u)" by fastforce
      have "cl_inv M t" using t(1) by (simp add: unchanged_def)
      from doc_Put [OF D this p] have w: "p = Inr (cl_rev M u)" "wrote M (path (KindOf x) (object_name x)) val t u" by auto
      with run q Inr Some p have "r = Inr (cl_rev M u)" "s' = u" by (auto simp: putUpsert_def)
      with w t(1) t(2) [OF Inr] Some show ?thesis unfolding put_outcome_def by blast
    qed
  qed
qed

lemma etcd_Put_cases:
  assumes D: "etcd_documented C M" and ok: "etcd_ok J M s" and run: "etcd_Put C J x e s = (r, s')"
  shows "(\<exists>f. r = Inl f \<and> unchanged M s s') \<or> (x \<noteq> Object_Empty \<and> valid_name (object_name x) \<and>
    put_outcome J M x
      (if e = RevCreate then cmp_holds M (CompareCreateRevision (path (KindOf x) (object_name x)) 0) s
       else if e = RevAny then True else 0 < e \<and> cmp_holds M (CompareModRevision (path (KindOf x) (object_name x)) e) s) s r s')"
proof (cases "x = Object_Empty \<or> \<not> valid_name (object_name x)")
  case True
  have "\<exists>f. r = Inl f \<and> s' = s"
  proof (cases "KindOf x = []")
    case False
    then have "x \<noteq> Object_Empty" by auto
    with True have "\<not> valid_name (m_name (MetaOf x))" by (simp add: object_name_def)
    then have "\<exists>f. etcd_key (KindOf x) (m_name (MetaOf x)) = Inl f"
      using etcd_key_Inr [of "KindOf x" "m_name (MetaOf x)"] by (cases "etcd_key (KindOf x) (m_name (MetaOf x))") auto
    with run False show ?thesis by (auto simp: etcd_Put_def Let_def)
  qed (use run in \<open>auto simp: etcd_Put_def Let_def\<close>)
  with unchanged_refl [OF ok_inv [OF ok]] show ?thesis by blast
next
  case False
  then have x: "x \<noteq> Object_Empty" "valid_name (object_name x)" by auto
  have key: "etcd_key (KindOf x) (m_name (MetaOf x)) = Inr (path (KindOf x) (object_name x))"
    using x Canonical_KindOf [OF x(1)] by (simp add: etcd_key_Inr object_name_def)
  have kind: "KindOf x \<noteq> []" using x(1) by (simp add: KindOf_empty_iff)
  note run' = run [unfolded etcd_Put_def Let_def if_not_P [OF kind] key sum.case]
  consider "e = RevCreate" | "e = RevAny" | "e \<noteq> RevCreate" "e \<noteq> RevAny" "0 < e" | "e \<noteq> RevCreate" "e \<noteq> RevAny" "\<not> 0 < e"
    by blast
  then show ?thesis
  proof cases
    case 1
    with run' putCreate_outcome [OF D ok, of x r s'] x show ?thesis by simp
  next
    case 2
    with run' putUpsert_outcome [OF D ok, of "KindOf x" x r s'] x show ?thesis by (simp add: RevCreate_def RevAny_def)
  next
    case 3
    with run' putCAS_outcome [OF D ok, of x e r s'] x show ?thesis by simp
  next
    case 4
    with run' unchanged_refl [OF ok_inv [OF ok]] show ?thesis by auto
  qed
qed

lemma guard_view:
  assumes "doc_revisions M" and ok: "etcd_ok J M s" and x: "x \<noteq> Object_Empty" "valid_name (object_name x)"
  shows "cmp_holds M (CompareCreateRevision (path (KindOf x) (object_name x)) 0) s \<Longrightarrow> etcd_view J M s (key_of x) = None"
    and "0 < e \<Longrightarrow> cmp_holds M (CompareModRevision (path (KindOf x) (object_name x)) e) s \<Longrightarrow>
      \<exists>y. etcd_view J M s (key_of x) = Some (y, e)"
proof -
  let ?kv = "cl_kv M s (path (KindOf x) (object_name x))"
  show "etcd_view J M s (key_of x) = None" if "cmp_holds M (CompareCreateRevision (path (KindOf x) (object_name x)) 0) s"
  proof (cases ?kv)
    case (Some t)
    obtain v c m where "t = (v, c, m)" by (cases t)
    moreover from this Some have "0 < c" using assms(1) ok_inv [OF ok] unfolding doc_revisions_def by blast
    ultimately show ?thesis using that Some by simp
  qed (simp add: etcd_view_def key_of_def)
  show "\<exists>y. etcd_view J M s (key_of x) = Some (y, e)"
    if "0 < e" "cmp_holds M (CompareModRevision (path (KindOf x) (object_name x)) e) s"
  proof (cases ?kv)
    case (Some t)
    obtain v c m where t: "t = (v, c, m)" by (cases t)
    with Some that(2) have m: "?kv = Some (v, c, e)" by simp
    with etcd_entry [OF ok KindOf_in [OF x(1)] m] KindOf_in [OF x(1)] x(2) show ?thesis
      by (auto simp: etcd_view_def key_of_def)
  qed (use that in simp)
qed

lemma etcd_put_done:
  assumes D: "etcd_documented C M" and J: "codec_documented J" and ok: "etcd_ok J M s"
    and run: "etcd_Put C J x e s = (Inr v, s')"
  shows "etcd_ok J M s' \<and> cl_rev M s < v \<and> cl_rev M s' = v \<and>
    (e = RevCreate \<longrightarrow> etcd_view J M s (key_of x) = None) \<and>
    (e \<noteq> RevCreate \<longrightarrow> e \<noteq> RevAny \<longrightarrow> (\<exists>y. etcd_view J M s (key_of x) = Some (y, e))) \<and>
    (\<exists>x'. stamped x v x' \<and> etcd_view J M s' = (etcd_view J M s)(key_of x \<mapsto> (x', v)))"
proof -
  from etcd_Put_cases [OF D ok run] obtain t mt val where x: "x \<noteq> Object_Empty" "valid_name (object_name x)"
    and v: "v = cl_rev M s'" and t: "unchanged M s t" and w: "restamped x mt"
      "pj_Marshal J (upd_Meta (\<lambda>_. mt) x) = Some val" "wrote M (path (KindOf x) (object_name x)) val t s'"
    and guard: "if e = RevCreate then cmp_holds M (CompareCreateRevision (path (KindOf x) (object_name x)) 0) s
       else if e = RevAny then True else 0 < e \<and> cmp_holds M (CompareModRevision (path (KindOf x) (object_name x)) e) s"
    unfolding put_outcome_def by blast
  note same = unchanged_view [OF t ok]
  note g = guard_view [OF documentedD(1) [OF D] ok x]
  have "e = RevCreate \<longrightarrow> etcd_view J M s (key_of x) = None" using guard g(1) by (simp del: cmp_holds.simps)
  moreover have "e \<noteq> RevCreate \<longrightarrow> e \<noteq> RevAny \<longrightarrow> (\<exists>y. etcd_view J M s (key_of x) = Some (y, e))" using guard g(2) by (simp del: cmp_holds.simps)
  ultimately show ?thesis using wrote_view [OF J conjunct1 [OF same] x w] same by (simp add: v)
qed

lemma etcd_put_refused:
  assumes "etcd_documented C M" and "etcd_ok J M s" and "etcd_Put C J x e s = (Inl f, s')"
  shows "unchanged M s s'"
  using etcd_Put_cases [OF assms] by (auto simp: put_outcome_def)

lemma etcd_Delete_cases:
  assumes D: "etcd_documented C M" and ok: "etcd_ok J M s" and run: "etcd_Delete C k n s = (r, s')"
  shows "(\<exists>f. r = Inl f \<and> unchanged M s s') \<or> (r = Inr () \<and> (\<exists>c. Canonical k = Some c \<and> removed M (path c n) s s'))"
proof (cases "etcd_key k n")
  case (Inl err)
  with run unchanged_refl [OF ok_inv [OF ok]] show ?thesis by (auto simp: etcd_Delete_def)
next
  case (Inr key)
  then obtain c where c: "Canonical k = Some c" "key = path c n" by (auto simp: etcd_key_Inr)
  obtain q t where q: "cli_Delete C key s = (q, t)" by fastforce
  from doc_Delete [OF D ok_inv [OF ok] q] run Inr q c show ?thesis
    by (auto simp: etcd_Delete_def split: if_splits)
qed

lemma etcd_DeleteIf_cases:
  assumes D: "etcd_documented C M" and ok: "etcd_ok J M s" and run: "etcd_DeleteIfRevision C k n e s = (r, s')"
  shows "(\<exists>f. r = Inl f \<and> unchanged M s s') \<or>
    (r = Inr () \<and> (\<exists>c x. Canonical k = Some c \<and> etcd_view J M s (c, n) = Some (x, e) \<and> removed M (path c n) s s'))"
proof (cases "etcd_key k n")
  case (Inl err)
  with run unchanged_refl [OF ok_inv [OF ok]] show ?thesis by (auto simp: etcd_DeleteIfRevision_def)
next
  case (Inr key)
  then obtain c where c: "valid_name n" "Canonical k = Some c" "key = path c n" by (auto simp: etcd_key_Inr)
  have kind: "c \<in> set Kinds" by (rule Canonical_range [OF c(2)])
  show ?thesis
  proof (cases "e \<le> 0")
    case True
    with run Inr unchanged_refl [OF ok_inv [OF ok]] show ?thesis by (auto simp: etcd_DeleteIfRevision_def)
  next
    case False
    let ?b = "CompareModRevision key e"
    obtain q t where q: "cli_Txn C ?b (TxnDelete key) (Some (TxnGetCount key)) s = (q, t)" by fastforce
    from doc_TxnDelete [OF D ok_inv [OF ok] q] obtain resp where resp: "q = Inr resp" "tx_Succeeded resp = cmp_holds M ?b s"
      "if cmp_holds M ?b s then (if cl_kv M s key = None then unchanged M s t else removed M key s t)
       else unchanged M s t \<and> tx_Count resp = (if cl_kv M s key = None then 0 else 1)" by blast
    have s': "s' = t" and r: "r = Inr () \<longleftrightarrow> cmp_holds M ?b s"
      using run Inr False q resp(1,2) by (auto simp: etcd_DeleteIfRevision_def simp del: cmp_holds.simps split: if_splits)
    show ?thesis
    proof (cases "cmp_holds M ?b s")
      case True
      then obtain v cr where kv: "cl_kv M s (path c n) = Some (v, cr, e)" using False c(3) by (auto split: option.splits)
      with etcd_entry [OF ok kind kv] kind c(1) have "\<exists>x. etcd_view J M s (c, n) = Some (x, e)" by (auto simp: etcd_view_def)
      with True resp(3) kv r s' c(2,3) show ?thesis by auto
    next
      case False
      with resp(3) r s' show ?thesis by (cases r) (auto simp del: cmp_holds.simps)
    qed
  qed
qed

lemma etcd_store_contract:
  assumes D: "etcd_documented C M" and J: "codec_documented J"
  shows "store_contract (etcd_store C J) (etcd_view J M) (cl_rev M) (etcd_ok J M)"
proof (unfold_locales, unfold etcd_store_def Store.simps, goal_cases)
  case (1 s k n x v)
  then show ?case by (rule etcd_view_facts [OF documentedD(1) [OF D]])
next
  case (2 s k n rg s')
  with etcd_Get_cases [OF D 2] show ?case by (blast dest: unchanged_view)
next
  case (3 s k n x v s')
  with etcd_Get_cases [OF D 3] show ?case by blast
next
  case (4 s k n s')
  with etcd_Get_cases [OF D 4] show ?case by blast
next
  case (5 s k rl s')
  with etcd_List_cases [OF D 5] show ?case by (blast dest: unchanged_view)
next
  case (6 s k xs v s')
  with etcd_List_cases [OF D 6] show ?case by blast
next
  case (7 s x e v s')
  then show ?case by (rule etcd_put_done [OF D J])
next
  case (8 s x e f s')
  then show ?case using unchanged_view [OF etcd_put_refused [OF D 8] 8(1)] by blast
next
  case (9 s k n u s')
  with etcd_Delete_cases [OF D 9] obtain c where c: "Canonical k = Some c" "removed M (path c n) s s'" by auto
  with removed_view [OF 9(1) Canonical_range [OF c(1)] c(2)] show ?case by blast
next
  case (10 s k n f s')
  with etcd_Delete_cases [OF D 10] show ?case by (auto dest: unchanged_view)
next
  case (11 s k n e u s')
  with etcd_DeleteIf_cases [OF D 11] obtain c x where c: "Canonical k = Some c" "etcd_view J M s (c, n) = Some (x, e)"
    "removed M (path c n) s s'" by auto
  with removed_view [OF 11(1) Canonical_range [OF c(1)] c(3)] show ?case by blast
next
  case (12 s k n e f s')
  with etcd_DeleteIf_cases [OF D 12] show ?case by (auto dest: unchanged_view)
qed

text \<open>
  What is proved of a client inside \<open>store_contract\<close> therefore holds over etcd, for instance that a pass
  of the scheduler never binds more instances to a node than it allows.
\<close>

lemma etcd_sched_capacity:
  assumes "etcd_documented C M" and "codec_documented J" and "etcd_ok J M s"
    and "sched_reconcile (etcd_store C J) s = (r, s')" and "n \<noteq> []" and "finite (bound (etcd_view J M s) n)"
  shows "etcd_ok J M s' \<and> int (card (bound (etcd_view J M s') n)) \<le>
    max (int (card (bound (etcd_view J M s) n))) (node_cap (etcd_view J M s) n)"
  using store_contract.sched_reconcile_capacity [OF etcd_store_contract [OF assms(1,2)] assms(3-6)] .


text \<open>A client over a finite map and a codec that keeps the object itself behave as documented.\<close>

type_synonym map_etcd = "(string, Object \<times> int \<times> int) fmap \<times> int"

definition map_put :: "string \<Rightarrow> Object \<Rightarrow> map_etcd \<Rightarrow> map_etcd" where
  "map_put k v s = (fmupd k (v, (case fmlookup (fst s) k of None \<Rightarrow> snd s + 1 | Some (_, c, _) \<Rightarrow> c), snd s + 1) (fst s), snd s + 1)"

definition map_drop :: "string \<Rightarrow> map_etcd \<Rightarrow> map_etcd" where
  "map_drop k s = (if fmlookup (fst s) k = None then s else (fmdrop k (fst s), snd s + 1))"

definition map_cluster :: "(map_etcd, Object) Cluster" where
  "map_cluster = \<lparr>cl_kv = (\<lambda>s. fmlookup (fst s)), cl_rev = snd,
     cl_inv = (\<lambda>s. 0 \<le> snd s \<and> (\<forall>k v c m. fmlookup (fst s) k = Some (v, c, m) \<longrightarrow> 0 < c \<and> 0 < m \<and> m \<le> snd s))\<rparr>"

definition map_kv :: "map_etcd \<Rightarrow> string \<Rightarrow> Object KeyValue" where
  "map_kv s k = (case the (fmlookup (fst s) k) of (v, _, m) \<Rightarrow> \<lparr>kv_Key = k, kv_Value = v, kv_ModRevision = m\<rparr>)"

fun map_cmp :: "Cmp \<Rightarrow> map_etcd \<Rightarrow> bool" where
  "map_cmp (CompareCreateRevision k r) s \<longleftrightarrow> (case fmlookup (fst s) k of None \<Rightarrow> 0 | Some (_, c, _) \<Rightarrow> c) = r"
| "map_cmp (CompareModRevision k r) s \<longleftrightarrow> (case fmlookup (fst s) k of None \<Rightarrow> 0 | Some (_, _, m) \<Rightarrow> m) = r"

lemma map_cmp_holds: "cmp_holds map_cluster b s = map_cmp b s"
  by (cases b) (simp_all add: map_cluster_def)

fun map_txn :: "Object TxnOp \<Rightarrow> map_etcd \<Rightarrow> int \<times> map_etcd" where
  "map_txn (TxnPut k v) s = (0, map_put k v s)"
| "map_txn (TxnDelete k) s = (0, map_drop k s)"
| "map_txn (TxnGetCount k) s = (if fmlookup (fst s) k = None then 0 else 1, s)"

definition map_client :: "(map_etcd, Object) Client" where
  "map_client = \<lparr>
     cli_Get = (\<lambda>k s. (Inr (if fmlookup (fst s) k = None then [] else [map_kv s k]), s)),
     cli_GetPrefix = (\<lambda>p s. (Inr (map (map_kv s) (filter (\<lambda>k. HasPrefix k p) (sorted_keys (fst s))), snd s), s)),
     cli_Put = (\<lambda>k v s. (Inr (snd s + 1), map_put k v s)),
     cli_Delete = (\<lambda>k s. (Inr (if fmlookup (fst s) k = None then 0 else 1), map_drop k s)),
     cli_Txn = (\<lambda>b yes no s.
       (let ok = map_cmp b s;
            (n, s') = (if ok then map_txn yes s else case no of None \<Rightarrow> (0, s) | Some p \<Rightarrow> map_txn p s)
        in (Inr \<lparr>tx_Succeeded = ok, tx_Revision = snd s', tx_Count = n\<rparr>, s'))),
     cli_NewString = (\<lambda>s. (''uid-'' @ itoa_int (snd s), s)),
     cli_Now = (\<lambda>s. (7, s))\<rparr>"

definition object_codec :: "Object Codec" where
  "object_codec = \<lparr>pj_Marshal = Some, pj_Unmarshal = Some\<rparr>"

lemma map_put_wrote: "cl_inv map_cluster s \<Longrightarrow> wrote map_cluster k v s (map_put k v s)"
proof -
  assume inv: "cl_inv map_cluster s"
  have "0 < (case fmlookup (fst s) k of None \<Rightarrow> snd s + 1 | Some (_, c, _) \<Rightarrow> c)"
    using inv by (auto simp: map_cluster_def split: option.split)
  moreover have "fmlookup (fst s) k' = Some (v', c, m) \<Longrightarrow> 0 < c \<and> 0 < m \<and> m \<le> snd s + 1" for k' v' c m
    using inv by (fastforce simp: map_cluster_def)
  ultimately have "cl_inv map_cluster (map_put k v s)" using inv by (auto simp: map_put_def map_cluster_def)
  then show ?thesis by (auto simp: wrote_def map_put_def map_cluster_def fun_eq_iff)
qed

lemma map_drop_removed: "cl_inv map_cluster s \<Longrightarrow>
    if fmlookup (fst s) k = None then unchanged map_cluster s (map_drop k s) else removed map_cluster k s (map_drop k s)"
  by (auto simp: removed_def unchanged_def map_drop_def map_cluster_def fun_eq_iff split: if_splits) fastforce

lemma map_kv_holds: "kv_Key (map_kv s k) = k" "fmlookup (fst s) k \<noteq> None \<Longrightarrow> holds_kv map_cluster s (map_kv s k)"
  by (auto simp: map_kv_def holds_kv_def map_cluster_def split: prod.splits)

lemma map_kv_unique: "holds_kv map_cluster s kv \<Longrightarrow> kv = map_kv s (kv_Key kv) \<and> fmlookup (fst s) (kv_Key kv) \<noteq> None"
  by (auto simp: map_kv_def holds_kv_def map_cluster_def)

lemma map_reads: "doc_reads map_client map_cluster"
proof -
  have get: "length kvs \<le> 1 \<and> set kvs = {kv. kv_Key kv = k \<and> holds_kv map_cluster s kv}"
    if "kvs = (if fmlookup (fst s) k = None then [] else [map_kv s k])" for kvs k s
  proof -
    have "kv_Key kv = k \<and> holds_kv map_cluster s kv \<longleftrightarrow> fmlookup (fst s) k \<noteq> None \<and> kv = map_kv s k" for kv
      using map_kv_holds [of s k] map_kv_unique [of s kv] by auto
    then show ?thesis using that by simp
  qed
  have keys: "map kv_Key (map (map_kv s) ks) = ks" for s ks
    by (simp add: comp_def map_kv_holds)
  have list: "set (map (map_kv s) (filter (\<lambda>k. HasPrefix k p) (sorted_keys (fst s)))) =
      {kv. HasPrefix (kv_Key kv) p \<and> holds_kv map_cluster s kv}" for s p
    using map_kv_unique [of s] map_kv_holds [of s] by (fastforce simp: fmlookup_dom'_iff image_iff)
  have sorted: "sorted_wrt (<) (filter (\<lambda>k. HasPrefix k p) (sorted_keys (fst s)))" for p and s :: map_etcd
    by (simp add: sorted_wrt_filter strict_sorted_iff)
  show ?thesis
    unfolding doc_reads_def
  proof (intro conjI allI impI, goal_cases)
    case (1 s k r s') then show ?case by (auto simp: map_client_def unchanged_def)
  next
    case (2 s k r s' kvs)
    then have "kvs = (if fmlookup (fst s) k = None then [] else [map_kv s k])" by (auto simp: map_client_def)
    from get [OF this] show ?case by blast
  next
    case (3 s k r s' kvs)
    then have "kvs = (if fmlookup (fst s) k = None then [] else [map_kv s k])" by (auto simp: map_client_def)
    from get [OF this] show ?case by blast
  next
    case (4 s p r s') then show ?case by (auto simp: map_client_def unchanged_def)
  next
    case (5 s p r s' kvs v) then show ?case by (auto simp: map_client_def map_cluster_def)
  next
    case (6 s p r s' kvs v)
    then have "kvs = map (map_kv s) (filter (\<lambda>k. HasPrefix k p) (sorted_keys (fst s)))" by (auto simp: map_client_def)
    then show ?case by (simp only: keys sorted)
  next
    case (7 s p r s' kvs v)
    then have "kvs = map (map_kv s) (filter (\<lambda>k. HasPrefix k p) (sorted_keys (fst s)))" by (auto simp: map_client_def)
    then show ?case by (simp only: list)
  qed
qed

lemma map_writes: "doc_writes map_client map_cluster"
  unfolding doc_writes_def
proof (intro conjI allI impI, goal_cases)
  case (1 s k v r s') then show ?case by (auto simp: map_client_def map_put_def map_cluster_def)
next
  case (2 s k v r s') with map_put_wrote [OF 2(1), of k v] show ?case by (simp add: map_client_def)
next
  case (3 s k r s') with map_drop_removed [OF 3(1), of k] show ?case by (auto simp: map_client_def map_cluster_def)
qed

lemma map_txns: "doc_txns map_client map_cluster"
  unfolding doc_txns_def
proof (intro conjI allI impI, goal_cases)
  case (1 s b k v r s')
  with map_put_wrote [OF 1(1), of k v] unchanged_refl [OF 1(1)] show ?case
    by (cases "map_cmp b s") (auto simp: map_client_def Let_def map_cmp_holds, auto simp: map_cluster_def)
next
  case (2 s b k k' r s')
  with map_drop_removed [OF 2(1), of k] unchanged_refl [OF 2(1)] show ?case
    by (cases "map_cmp b s") (auto simp: map_client_def Let_def map_cmp_holds, auto simp: map_cluster_def split: if_splits)
qed

lemma map_documented: "etcd_documented map_client map_cluster" "codec_documented object_codec"
  using map_reads map_writes map_txns
  by (auto simp: etcd_documented_def doc_revisions_def unchanged_def codec_documented_def object_codec_def,
      auto simp: map_client_def map_cluster_def)


subsection \<open>Watch\<close>

datatype MvccType = MvccPUT | MvccDELETE | MvccOther

record 'v EtcdEvent =
  ev_Type :: MvccType
  ev_Key :: string
  ev_Value :: 'v
  ev_ModRevision :: int
  ev_IsCreate :: bool
  ev_PrevValue :: "'v option"

text \<open>The event types of the API: added 1, modified 2, deleted 3.\<close>

definition decoded_event :: "nat \<Rightarrow> int \<Rightarrow> StoreErr + Object \<Rightarrow> WatchEvent" where
  "decoded_event t revision r = (case r of
     Inl _ \<Rightarrow> \<lparr>we_type = 0, we_object = None, we_revision = 0, we_err = Some ''decode stored object''\<rparr>
   | Inr obj \<Rightarrow> \<lparr>we_type = t, we_object = Some obj, we_revision = revision, we_err = None\<rparr>)"

definition toEvent :: "'v Codec \<Rightarrow> 'v EtcdEvent \<Rightarrow> string list \<Rightarrow> WatchEvent option" where
  "toEvent J ev segs = (case CutPrefix (ev_Key ev) etcd_prefix of
     None \<Rightarrow> None
   | Some rest \<Rightarrow>
     (case Cut rest ''/'' of
        None \<Rightarrow> None
      | Some (seg, name) \<Rightarrow>
          if segs \<noteq> [] \<and> seg \<notin> set segs then None
          else (let revision = ev_ModRevision ev in
            case ev_Type ev of
              MvccPUT \<Rightarrow>
                Some (decoded_event (if ev_IsCreate ev then 1 else 2) revision (etcd_decode J (ev_Key ev) (ev_Value ev) revision))
            | MvccDELETE \<Rightarrow>
              (case ev_PrevValue ev of
                 Some val \<Rightarrow> Some (decoded_event 3 revision (etcd_decode J (ev_Key ev) val revision))
               | None \<Rightarrow>
                 (case Canonical seg of
                    None \<Rightarrow> None
                  | Some canonical \<Rightarrow>
                      Some \<lparr>we_type = 3, we_object = map_option (upd_Meta (\<lambda>m. m\<lparr>m_name := name, m_resourceVersion := revision\<rparr>))
                              (New canonical), we_revision = revision, we_err = None\<rparr>))
            | MvccOther \<Rightarrow> None)))"

fun watch_segs :: "string list \<Rightarrow> StoreErr + string list" where
  "watch_segs [] = Inr []"
| "watch_segs (k # ks) = (case Canonical k of
     None \<Rightarrow> Inl (ErrUnknownKind k)
   | Some canonical \<Rightarrow> map_sum id ((#) (Plural canonical)) (watch_segs ks))"

text \<open>The pump of one answer, given how many sends succeed before the context ends; \<open>None\<close> stops it.\<close>

fun pump_events :: "'v Codec \<Rightarrow> string list \<Rightarrow> 'v EtcdEvent list \<Rightarrow> nat \<Rightarrow> WatchEvent list \<times> nat option" where
  "pump_events J segs [] sends = ([], Some sends)"
| "pump_events J segs (ev # evs) sends = (case toEvent J ev segs of
     None \<Rightarrow> pump_events J segs evs sends
   | Some e \<Rightarrow>
     (case sends of
        0 \<Rightarrow> ([], None)
      | Suc n \<Rightarrow>
          if we_err e \<noteq> None then ([e], None)
          else (let (out, rest) = pump_events J segs evs n in (e # out, rest))))"

fun pump :: "'v Codec \<Rightarrow> string list \<Rightarrow> (string + 'v EtcdEvent list) list \<Rightarrow> nat \<Rightarrow> WatchEvent list" where
  "pump J segs [] sends = []"
| "pump J segs (Inl err # _) sends =
     (if sends = 0 then [] else [\<lparr>we_type = 0, we_object = None, we_revision = 0, we_err = Some err\<rparr>])"
| "pump J segs (Inr evs # resps) sends = (case pump_events J segs evs sends of
     (out, None) \<Rightarrow> out
   | (out, Some n) \<Rightarrow> out @ pump J segs resps n)"

definition etcd_Watch :: "(string \<Rightarrow> int option \<Rightarrow> (string + 'v EtcdEvent list) list) \<Rightarrow> 'v Codec \<Rightarrow> nat \<Rightarrow>
    string list \<Rightarrow> int \<Rightarrow> StoreErr + WatchEvent list" where
  "etcd_Watch cliWatch J sends kinds fromRev = (case watch_segs kinds of
     Inl err \<Rightarrow> Inl err
   | Inr segs \<Rightarrow> Inr (pump J segs (cliWatch etcd_prefix (if 0 < fromRev then Some fromRev else None)) sends))"

lemma watch_segs_Inr: "watch_segs ks = Inr segs \<Longrightarrow> segs = map (\<lambda>k. Plural (the (Canonical k))) ks \<and> (\<forall>k \<in> set ks. Canonical k \<noteq> None)"
proof (induction ks arbitrary: segs)
  case (Cons k ks)
  then obtain c where c: "Canonical k = Some c" by (auto split: option.splits)
  with Cons show ?case by (cases "watch_segs ks") auto
qed simp

text \<open>A write at the key of an object is delivered exactly to the watchers of its kind, with its revision.\<close>

lemma toEvent_write:
  assumes "c \<in> set Kinds" "watch_segs ks = Inr segs" "pj_Unmarshal J val = Some x"
    and ev: "ev_Type ev = MvccPUT" "ev_Key ev = path c n" "ev_Value ev = val"
  shows "toEvent J ev segs = (if ks = [] \<or> (\<exists>k \<in> set ks. Canonical k = Some c)
    then Some \<lparr>we_type = (if ev_IsCreate ev then 1 else 2),
      we_object = Some (upd_Meta (\<lambda>m. m\<lparr>m_resourceVersion := ev_ModRevision ev\<rparr>) x),
      we_revision = ev_ModRevision ev, we_err = None\<rparr> else None)"
proof -
  have "CHR ''/'' \<notin> set (Plural c)" using Kinds_plurals assms(1) by (simp add: list_all_iff)
  then have cut: "Cut (Plural c @ ''/'' @ n) ''/'' = Some (Plural c, n)"
    using Cut_first [of "CHR ''/''" "Plural c" "[]" n] by simp
  have "Plural c \<in> set segs \<longleftrightarrow> (\<exists>k \<in> set ks. Canonical k = Some c)"
  proof
    assume "Plural c \<in> set segs"
    then obtain k where k: "k \<in> set ks" "Plural c = Plural (the (Canonical k))" "Canonical k \<noteq> None"
      using watch_segs_Inr [OF assms(2)] by auto
    then obtain d where d: "Canonical k = Some d" by blast
    with k(2) Plural_inj [OF assms(1) Canonical_range [OF d]] have "c = d" by simp
    with d k(1) show "\<exists>k \<in> set ks. Canonical k = Some c" by blast
  next
    assume "\<exists>k \<in> set ks. Canonical k = Some c"
    then obtain k where "k \<in> set ks" "Plural (the (Canonical k)) = Plural c" by auto
    then show "Plural c \<in> set segs" using watch_segs_Inr [OF assms(2)] by (auto simp: image_iff intro: bexI [of _ k])
  qed
  moreover have "segs = [] \<longleftrightarrow> ks = []" using watch_segs_Inr [OF assms(2)] by auto
  ultimately show ?thesis
    using cut assms(3) ev by (simp add: toEvent_def path_def decoded_event_def etcd_decode_def Let_def)
qed

text \<open>
  The in-memory store adopts uid and creation time on a write at a revision, the etcd store does not:
  the two answer a write that leaves the uid empty with different objects.
\<close>

lemma cas_uid_differs:
  "map_sum id (\<lambda>(x, _). m_uid (MetaOf x)) (fst (st_Get (memory_store 7) ''services'' ''web''
     (run_ops (memory_store 7) [sample_put ''web'' 0, sample_put ''web'' 1] mem_New))) = Inr ''uid-1''"
  "map_sum id (\<lambda>(x, _). m_uid (MetaOf x)) (fst (st_Get (etcd_store map_client object_codec) ''services'' ''web''
     (run_ops (etcd_store map_client object_codec) [sample_put ''web'' 0, sample_put ''web'' 1] (fmempty, 0)))) = Inr []"
  by code_simp+

end
