(* ===== verification/Klite_Net.thy ===== *)
theory Klite_Net
  imports Klite_Vip
begin

text \<open>
  The network daemon of a node, \<open>src/internal/netd\<close>: the configuration the agent pushes (\<open>config.go\<close>),
  the log of answered queries (\<open>queries.go\<close>), the zone served by DNS (\<open>dns.go\<close>), the addresses bound on
  the interface (\<open>vip.go\<close>), and ApplyConfig, which ties them together (\<open>server.go\<close>), with the probe sweep
  of \<open>probes.go\<close>. The DNS library and netlink are parameters; listeners, the forwarder and dialling are
  not modelled. Lower-casing is that of ASCII.
\<close>

subsection \<open>The configuration\<close>

record probeTarget =
  pb_instance :: string
  pb_ip :: string
  pb_port :: int
  pb_addr :: string

record netConfig =
  nc_serial :: "32 word"
  nc_vips :: "(string, Addr) fmap"
  nc_vipList :: "Addr list"
  nc_targets :: "probeTarget list"

definition emptyConfig :: netConfig where
  "emptyConfig = \<lparr>nc_serial = 0, nc_vips = fmempty, nc_vipList = [], nc_targets = []\<rparr>"

definition serviceLabel :: "string \<Rightarrow> bool" where
  "serviceLabel s \<longleftrightarrow> dnsLabel s \<and> length s \<le> 63"

datatype NetErr = ServiceUnnamed string | ServiceNotLabel string | ServiceTwice string | ServiceVipBad string
  | ServiceVipOutside string

fun parse_services :: "ServiceVIP list \<Rightarrow> (string, Addr) fmap \<Rightarrow> NetErr + (string, Addr) fmap" where
  "parse_services [] vips = Inr vips"
| "parse_services (svc # svcs) vips =
     (if sv_service svc = [] then Inl (ServiceUnnamed (sv_vip svc))
      else let name = ToLower (sv_service svc) in
      if \<not> serviceLabel name then Inl (ServiceNotLabel (sv_service svc))
      else if fmlookup vips name \<noteq> None then Inl (ServiceTwice name)
      else case ParseAddr (sv_vip svc) of
        None \<Rightarrow> Inl (ServiceVipBad (sv_service svc))
      | Some (V6 _ _) \<Rightarrow> Inl (ServiceVipOutside (sv_service svc))
      | Some (V4 w) \<Rightarrow>
          if \<not> vipPool_Contains (V4 w) then Inl (ServiceVipOutside (sv_service svc))
          else parse_services svcs (fmupd name (V4 w) vips))"

text \<open>\<open>net.JoinHostPort\<close> brackets a host with a colon.\<close>

definition JoinHostPort :: "string \<Rightarrow> string \<Rightarrow> string" where
  "JoinHostPort host port = (if CHR '':'' \<in> set host then ''['' @ host @ '']:'' @ port else host @ '':'' @ port)"

definition parse_target :: "ProbeTarget \<Rightarrow> probeTarget" where
  "parse_target t = \<lparr>pb_instance = pt_instance t, pb_ip = pt_ip t, pb_port = pt_port t,
     pb_addr = JoinHostPort (pt_ip t) (itoa_int (pt_port t))\<rparr>"

text \<open>The addresses are collected in the order the map is walked, which Go leaves open: \<open>walk\<close>.\<close>

definition parseConfig :: "((string, Addr) fmap \<Rightarrow> string list) \<Rightarrow> NetDesired \<Rightarrow> 32 word \<Rightarrow> NetErr + netConfig" where
  "parseConfig walk nd serial = (case parse_services (nd_services nd) fmempty of
     Inl err \<Rightarrow> Inl err
   | Inr vips \<Rightarrow> Inr \<lparr>nc_serial = serial, nc_vips = vips,
       nc_vipList = rev (remdups (rev (map (\<lambda>name. the (fmlookup vips name)) (walk vips)))),
       nc_targets = map parse_target (nd_probeTargets nd)\<rparr>)"

subsection \<open>The query log\<close>

record queryEntry =
  qe_sourceIP :: string
  qe_service :: string
  qe_unixMS :: int

record queryLog =
  ql_buf :: "queryEntry list"
  ql_next :: int
  ql_size :: int

definition queryCapacity :: nat where "queryCapacity = 4096"
definition queryRetention :: int where "queryRetention = 30 * 1000000000"

definition newQueryLog :: queryLog where
  "newQueryLog = \<lparr>ql_buf = replicate queryCapacity \<lparr>qe_sourceIP = [], qe_service = [], qe_unixMS = 0\<rparr>,
     ql_next = 0, ql_size = 0\<rparr>"

text \<open>Times are nanoseconds.\<close>

definition UnixMilli :: "int \<Rightarrow> int" where "UnixMilli t = t div 1000000"

definition ql_record :: "string \<Rightarrow> string \<Rightarrow> int \<Rightarrow> queryLog \<Rightarrow> queryLog" where
  "ql_record sourceIP service now l =
     (let len = int (length (ql_buf l)) in
      l\<lparr>ql_buf := (ql_buf l)[nat (ql_next l) := \<lparr>qe_sourceIP = sourceIP, qe_service = service, qe_unixMS = UnixMilli now\<rparr>],
        ql_next := (ql_next l + 1) mod len,
        ql_size := min (ql_size l + 1) len\<rparr>)"

definition ql_since :: "int \<Rightarrow> int \<Rightarrow> queryLog \<Rightarrow> queryEntry list" where
  "ql_since sinceUnixMS now l =
     (let bound = max sinceUnixMS (UnixMilli (now - queryRetention)); len = int (length (ql_buf l)) in
      filter (\<lambda>e. bound \<le> qe_unixMS e)
        (map (\<lambda>i. ql_buf l ! nat ((ql_next l - ql_size l + int i + len) mod len)) [0..<nat (ql_size l)]))"

subsection \<open>The zone\<close>

record Question =
  q_Name :: string
  q_Qtype :: nat
  q_Qclass :: nat

datatype RR = RR_A string nat Addr | RR_SOA string nat string string "32 word" nat nat nat nat

record Msg =
  msg_Rcode :: nat
  msg_Authoritative :: bool
  msg_Answer :: "RR list"
  msg_Ns :: "RR list"

text \<open>What the code calls of the DNS library, and the numbers of the protocol.\<close>

record DnsLib =
  dl_CanonicalName :: "string \<Rightarrow> string"
  dl_SetReply :: "Question \<Rightarrow> Msg"
  dl_SetRcode :: "Question \<Rightarrow> nat \<Rightarrow> Msg"

definition TypeA :: nat where "TypeA = 1"
definition TypeSOA :: nat where "TypeSOA = 6"
definition TypeIXFR :: nat where "TypeIXFR = 251"
definition TypeAXFR :: nat where "TypeAXFR = 252"
definition ClassINET :: nat where "ClassINET = 1"
definition RcodeNameError :: nat where "RcodeNameError = 3"
definition RcodeRefused :: nat where "RcodeRefused = 5"

lemmas dns_numbers = TypeA_def TypeSOA_def TypeIXFR_def TypeAXFR_def ClassINET_def RcodeNameError_def RcodeRefused_def

definition zone :: string where "zone = ''svc.klite.''"
definition recordTTL :: nat where "recordTTL = 5"

definition zone_lookup :: "netConfig \<Rightarrow> string \<Rightarrow> (string \<times> Addr) option" where
  "zone_lookup cfg name = (case CutSuffix name (''.'' @ zone) of
     None \<Rightarrow> None
   | Some label \<Rightarrow>
       if label = [] \<or> ContainsStr label ''.'' then None
       else map_option (Pair label) (fmlookup (nc_vips cfg) label))"

definition soaRR :: "string \<Rightarrow> 32 word \<Rightarrow> RR" where
  "soaRR name serial = RR_SOA name recordTTL (''ns.'' @ zone) (''hostmaster.'' @ zone) serial 7200 1800 86400 recordTTL"

definition nodata :: "Msg \<Rightarrow> 32 word \<Rightarrow> Msg" where
  "nodata m serial = m\<lparr>msg_Ns := [soaRR zone serial]\<rparr>"

definition serveService :: "Msg \<Rightarrow> Question \<Rightarrow> string \<Rightarrow> netConfig \<Rightarrow> string \<Rightarrow> int \<Rightarrow> queryLog \<Rightarrow> Msg \<times> queryLog" where
  "serveService m q name cfg src now l = (case zone_lookup cfg name of
     None \<Rightarrow> (m\<lparr>msg_Rcode := RcodeNameError, msg_Ns := [soaRR zone (nc_serial cfg)]\<rparr>, l)
   | Some (label, vip) \<Rightarrow>
       if q_Qtype q = TypeA
       then (m\<lparr>msg_Answer := [RR_A (q_Name q) recordTTL vip]\<rparr>, if src \<noteq> [] then ql_record src label now l else l)
       else (nodata m (nc_serial cfg), l))"

definition serveZone :: "DnsLib \<Rightarrow> Question \<Rightarrow> netConfig \<Rightarrow> string \<Rightarrow> int \<Rightarrow> queryLog \<Rightarrow> Msg \<times> queryLog" where
  "serveZone D q cfg src now l =
     (if q_Qclass q \<noteq> ClassINET \<or> q_Qtype q = TypeAXFR \<or> q_Qtype q = TypeIXFR then (dl_SetRcode D q RcodeRefused, l)
      else let m = (dl_SetReply D q)\<lparr>msg_Authoritative := True\<rparr>; name = dl_CanonicalName D (q_Name q) in
      if name = zone \<and> q_Qtype q = TypeSOA then (m\<lparr>msg_Answer := [soaRR (q_Name q) (nc_serial cfg)]\<rparr>, l)
      else if name = zone then (nodata m (nc_serial cfg), l)
      else serveService m q name cfg src now l)"

subsection \<open>The addresses on the interface\<close>

datatype NlErr = NlExist | NlNotExist | NlOther string

text \<open>An address of a link: the IPv4 address, if it is one, and its mask as the number of ones and bits.\<close>

record NlAddr =
  na_ip :: "Addr option"
  na_ones :: nat
  na_bits :: nat

record 'w Netlink =
  nl_LinkByName :: "string \<Rightarrow> 'w \<Rightarrow> (string + nat) \<times> 'w"
  nl_AddrList :: "nat \<Rightarrow> 'w \<Rightarrow> (string + NlAddr list) \<times> 'w"
  nl_AddrAdd :: "nat \<Rightarrow> Addr \<Rightarrow> 'w \<Rightarrow> NlErr option \<times> 'w"
  nl_AddrDel :: "nat \<Rightarrow> Addr \<Rightarrow> 'w \<Rightarrow> NlErr option \<times> 'w"

fun bind_have :: "NlAddr list \<Rightarrow> Addr list" where
  "bind_have [] = []"
| "bind_have (a # as) = (case na_ip a of
     Some ip \<Rightarrow> if na_ones a \<noteq> na_bits a \<or> \<not> vipPool_Contains ip then bind_have as else ip # bind_have as
   | None \<Rightarrow> bind_have as)"

fun bind_add :: "'w Netlink \<Rightarrow> nat \<Rightarrow> Addr list \<Rightarrow> Addr list \<Rightarrow> 'w \<Rightarrow> (int \<times> Addr list) \<times> 'w" where
  "bind_add N link have' [] w = ((0, []), w)"
| "bind_add N link have' (ip # want) w =
     (if ip \<in> set have' then (case bind_add N link have' want w of ((b, es), w') \<Rightarrow> ((b + 1, es), w'))
      else case nl_AddrAdd N link ip w of (e, w1) \<Rightarrow>
        (case bind_add N link have' want w1 of ((b, es), w') \<Rightarrow>
           if e \<noteq> None \<and> e \<noteq> Some NlExist then ((b, ip # es), w') else ((b + 1, es), w')))"

fun bind_del :: "'w Netlink \<Rightarrow> nat \<Rightarrow> Addr list \<Rightarrow> Addr list \<Rightarrow> 'w \<Rightarrow> Addr list \<times> 'w" where
  "bind_del N link want [] w = ([], w)"
| "bind_del N link want (ip # have') w =
     (if ip \<in> set want then bind_del N link want have' w
      else case nl_AddrDel N link ip w of (e, w1) \<Rightarrow>
        (case bind_del N link want have' w1 of (es, w') \<Rightarrow>
           (if e \<noteq> None \<and> e \<noteq> Some NlNotExist then ip # es else es, w')))"

datatype BindErr = LinkErr string | ListErr string | AddrErrs "Addr list"

text \<open>\<open>walk\<close> is the order in which the map of present addresses is ranged over.\<close>

definition bindVIPs :: "'w Netlink \<Rightarrow> (Addr list \<Rightarrow> Addr list) \<Rightarrow> string \<Rightarrow> Addr list \<Rightarrow> 'w \<Rightarrow> (int \<times> BindErr option) \<times> 'w" where
  "bindVIPs N walk iface want w = (case nl_LinkByName N iface w of
     (Inl err, w1) \<Rightarrow> ((0, Some (LinkErr err)), w1)
   | (Inr link, w1) \<Rightarrow>
     (case nl_AddrList N link w1 of
        (Inl err, w2) \<Rightarrow> ((0, Some (ListErr err)), w2)
      | (Inr addrs, w2) \<Rightarrow>
        (let have' = remdups (bind_have addrs) in
         case bind_add N link have' want w2 of ((bound, es), w3) \<Rightarrow>
         case bind_del N link want (walk have') w3 of (ds, w4) \<Rightarrow>
           ((bound, if es @ ds = [] then None else Some (AddrErrs (es @ ds))), w4))))"

subsection \<open>The server\<close>

record NetServer =
  ns_iface :: string
  ns_cfg :: netConfig
  ns_serial :: "32 word"
  ns_vipsBound :: int
  ns_kick :: bool

definition reconcileVIPs :: "'w Netlink \<Rightarrow> (Addr list \<Rightarrow> Addr list) \<Rightarrow> NetServer \<Rightarrow> 'w \<Rightarrow> BindErr option \<times> NetServer \<times> 'w" where
  "reconcileVIPs N walk srv w = (case bindVIPs N walk (ns_iface srv) (nc_vipList (ns_cfg srv)) w of
     ((bound, err), w') \<Rightarrow> (err, srv\<lparr>ns_vipsBound := wrap32 bound\<rparr>, w'))"

text \<open>The answer of a push that is accepted carries nothing; the error it logs is returned beside it.\<close>

definition ApplyConfig :: "'w Netlink \<Rightarrow> ((string, Addr) fmap \<Rightarrow> string list) \<Rightarrow> (Addr list \<Rightarrow> Addr list) \<Rightarrow> NetDesired \<Rightarrow>
    NetServer \<Rightarrow> 'w \<Rightarrow> (NetErr + BindErr option) \<times> NetServer \<times> 'w" where
  "ApplyConfig N walkVips walk nd srv w =
     (let srv1 = srv\<lparr>ns_serial := ns_serial srv + 1\<rparr> in
      case parseConfig walkVips nd (ns_serial srv1) of
        Inl err \<Rightarrow> (Inl err, srv1, w)
      | Inr cfg \<Rightarrow>
        (case reconcileVIPs N walk (srv1\<lparr>ns_cfg := cfg, ns_kick := True\<rparr>) w of (logged, srv2, w') \<Rightarrow> (Inr logged, srv2, w')))"

subsection \<open>Probes\<close>

record ProbeState =
  ps_instance :: string
  ps_ip :: string
  ps_port :: int
  ps_ready :: bool

definition sweep :: "(string \<Rightarrow> bool) \<Rightarrow> bool \<Rightarrow> probeTarget list \<Rightarrow> (string, ProbeState) fmap \<Rightarrow> (string, ProbeState) fmap" where
  "sweep probe cancelled targets state =
     (if cancelled then state
      else fold (\<lambda>t. fmupd (pb_instance t) \<lparr>ps_instance = pb_instance t, ps_ip = pb_ip t, ps_port = pb_port t,
             ps_ready = probe (pb_addr t)\<rparr>) targets fmempty)"

definition probe_snapshot :: "(string, ProbeState) fmap \<Rightarrow> ProbeState list" where
  "probe_snapshot state = map (\<lambda>k. the (fmlookup state k)) (sorted_keys state)"

subsection \<open>The ring is a bounded log\<close>

definition ring_ok :: "queryLog \<Rightarrow> bool" where
  "ring_ok l \<longleftrightarrow> ql_buf l \<noteq> [] \<and> 0 \<le> ql_next l \<and> ql_next l < int (length (ql_buf l)) \<and>
     0 \<le> ql_size l \<and> ql_size l \<le> int (length (ql_buf l))"

definition ring_at :: "queryLog \<Rightarrow> nat \<Rightarrow> nat" where
  "ring_at l i = nat ((ql_next l - ql_size l + int i + int (length (ql_buf l))) mod int (length (ql_buf l)))"

definition ring_list :: "queryLog \<Rightarrow> queryEntry list" where
  "ring_list l = map (\<lambda>i. ql_buf l ! ring_at l i) [0..<nat (ql_size l)]"

definition newest :: "nat \<Rightarrow> 'a list \<Rightarrow> 'a list" where
  "newest n xs = drop (length xs - n) xs"

definition entry_of :: "string \<times> string \<times> int \<Rightarrow> queryEntry" where
  "entry_of r = (case r of (src, svc, now) \<Rightarrow> \<lparr>qe_sourceIP = src, qe_service = svc, qe_unixMS = UnixMilli now\<rparr>)"

lemma newest_snoc: "newest n (newest n xs @ [x]) = newest n (xs @ [x])"
  by (cases "length xs \<le> n") (auto simp: newest_def Suc_diff_le)

lemma ql_since_ring: "ql_since s now l = filter (\<lambda>e. max s (UnixMilli (now - queryRetention)) \<le> qe_unixMS e) (ring_list l)"
  by (simp add: ql_since_def ring_list_def ring_at_def Let_def)

lemma ring_at_eq: "ring_at l i = nat ((ql_next l - ql_size l + int i) mod int (length (ql_buf l)))"
  by (simp add: ring_at_def)

lemma ring_at_less: "ring_ok l \<Longrightarrow> ring_at l i < length (ql_buf l)"
  unfolding ring_at_eq ring_ok_def by (simp add: nat_less_iff)

lemma length_ring_list [simp]: "length (ring_list l) = nat (ql_size l)"
  by (simp add: ring_list_def)

lemma ql_record_simps:
  "ql_buf (ql_record a b now l) = (ql_buf l)[nat (ql_next l) := entry_of (a, b, now)]"
  "ql_next (ql_record a b now l) = (ql_next l + 1) mod int (length (ql_buf l))"
  "ql_size (ql_record a b now l) = min (ql_size l + 1) (int (length (ql_buf l)))"
  by (simp_all add: ql_record_def entry_of_def Let_def)

lemma ring_ok_record: "ring_ok l \<Longrightarrow> ring_ok (ql_record a b now l)"
  by (auto simp: ring_ok_def ql_record_simps)

lemma ring_at_record:
  assumes "ring_ok l"
  shows "ring_at (ql_record a b now l) i = ring_at l (i + nat (ql_size l + 1 - ql_size (ql_record a b now l)))"
proof -
  let ?L = "int (length (ql_buf l))" and ?sz = "ql_size (ql_record a b now l)"
  have "((ql_next l + 1) mod ?L - ?sz + int i) mod ?L = (ql_next l + 1 - ?sz + int i) mod ?L"
    using mod_add_left_eq [of "ql_next l + 1" ?L "int i - ?sz"] by (simp add: algebra_simps)
  moreover have "ql_next l + 1 - ?sz + int i = ql_next l - ql_size l + int (i + nat (ql_size l + 1 - ?sz))"
    using assms by (simp add: ql_record_simps ring_ok_def)
  ultimately show ?thesis unfolding ring_at_eq ql_record_simps(1,2) length_list_update by (simp only:)
qed

text \<open>The slot about to be written holds the entry just past the newest, and no other that is kept.\<close>

lemma ring_at_next:
  assumes "ring_ok l" "i \<le> nat (ql_size l)" "int i + int (length (ql_buf l)) > ql_size l"
  shows "ring_at l i = nat (ql_next l) \<longleftrightarrow> i = nat (ql_size l)"
proof -
  let ?L = "int (length (ql_buf l))" and ?d = "ql_size l - int i"
  have b: "0 \<le> ql_next l" "ql_next l < ?L" "0 \<le> ?d" "?d < ?L" using assms by (auto simp: ring_ok_def)
  have "(ql_next l - ?d) mod ?L = ql_next l \<longleftrightarrow> ?d = 0"
  proof (cases "?d \<le> ql_next l")
    case False
    then have "(ql_next l - ?d) mod ?L = (ql_next l - ?d + ?L) mod ?L" by simp
    also have "\<dots> = ql_next l - ?d + ?L" using False b by (intro mod_pos_pos_trivial) auto
    finally show ?thesis using b False by auto
  qed (use b in \<open>auto simp: mod_pos_pos_trivial\<close>)
  moreover have "ring_at l i = nat ((ql_next l - ?d) mod ?L)" by (simp add: ring_at_eq algebra_simps)
  moreover have "0 \<le> (ql_next l - ?d) mod ?L" using b by (intro pos_mod_sign) linarith
  ultimately show ?thesis using b assms(1,2) by (auto simp: eq_nat_nat_iff ring_ok_def)
qed

lemma ring_list_record:
  assumes ok: "ring_ok l"
  shows "ring_list (ql_record a b now l) = newest (length (ql_buf l)) (ring_list l @ [entry_of (a, b, now)])"
proof (rule nth_equalityI)
  let ?l = "ql_record a b now l" and ?e = "entry_of (a, b, now)" and ?L = "length (ql_buf l)"
  define k where "k = nat (ql_size l + 1 - ql_size ?l)"
  have sz: "nat (ql_size ?l) + k = Suc (nat (ql_size l))" and k: "k = Suc (nat (ql_size l)) - ?L"
    using ok by (auto simp: k_def ql_record_simps ring_ok_def)
  show len: "length (ring_list ?l) = length (newest ?L (ring_list l @ [?e]))"
    using sz k unfolding newest_def length_drop length_append length_ring_list list.size by arith
  fix i assume i: "i < length (ring_list ?l)"
  then have ik: "i + k \<le> nat (ql_size l)" using sz by simp
  have "int (i + k) + int ?L > ql_size l" using ok k by (auto simp: ring_ok_def)
  note slot = ring_at_next [OF ok ik this]
  have "ring_list ?l ! i = (ql_buf l)[nat (ql_next l) := ?e] ! ring_at l (i + k)"
    using i by (simp add: ring_list_def ring_at_record [OF ok] ql_record_simps(1) k_def)
  also have "\<dots> = (ring_list l @ [?e]) ! (i + k)"
  proof (cases "i + k = nat (ql_size l)")
    case True
    moreover have "nat (ql_next l) < ?L" using ok by (auto simp: ring_ok_def)
    ultimately show ?thesis using slot by (simp add: nth_append)
  next
    case False
    then show ?thesis using slot ik by (simp add: nth_append ring_list_def)
  qed
  also have "\<dots> = newest ?L (ring_list l @ [?e]) ! i"
    unfolding newest_def using ik k by (subst nth_drop) (simp_all add: add.commute)
  finally show "ring_list ?l ! i = newest ?L (ring_list l @ [?e]) ! i" .
qed

definition record_all :: "(string \<times> string \<times> int) list \<Rightarrow> queryLog" where
  "record_all rs = fold (\<lambda>(src, svc, now). ql_record src svc now) rs newQueryLog"

lemma record_all_ring:
  "ring_ok (record_all rs) \<and> length (ql_buf (record_all rs)) = queryCapacity \<and>
     ring_list (record_all rs) = newest queryCapacity (map entry_of rs)"
proof (induction rs rule: rev_induct)
  case Nil
  then show ?case by (simp add: record_all_def newQueryLog_def ring_ok_def ring_list_def newest_def queryCapacity_def)
next
  case (snoc r rs)
  obtain src svc now where r: "r = (src, svc, now)" by (cases r)
  have step: "record_all (rs @ [r]) = ql_record src svc now (record_all rs)" by (simp add: record_all_def r)
  show ?case
    unfolding step using snoc ring_ok_record [of "record_all rs"] ring_list_record [of "record_all rs" src svc now]
    by (simp add: ql_record_simps(1) newest_snoc r)
qed

text \<open>
  C16. The query log is a bounded log. Whatever was recorded, a read returns, oldest first and each
  once, exactly those of the newest 4096 records that are at or after the cursor and not older than
  the retention: the ring with its wrapping indices implements that list.
\<close>

theorem query_log_refines:
  "ql_since cursor now (record_all rs) =
     filter (\<lambda>e. cursor \<le> qe_unixMS e \<and> UnixMilli (now - queryRetention) \<le> qe_unixMS e)
       (newest queryCapacity (map entry_of rs))"
  by (simp add: ql_since_ring record_all_ring)

subsection \<open>What a push makes the node serve\<close>

text \<open>The addresses of a link, as pairs of address and prefix length, behave as netlink documents.\<close>

definition netlink_documented :: "'w Netlink \<Rightarrow> ('w \<Rightarrow> nat \<Rightarrow> (Addr \<times> nat) set) \<Rightarrow> bool" where
  "netlink_documented N on \<longleftrightarrow>
     (\<forall>iface w. on (snd (nl_LinkByName N iface w)) = on w) \<and>
     (\<forall>link w r w'. nl_AddrList N link w = (r, w') \<longrightarrow> on w' = on w \<and>
        (\<forall>as. r = Inr as \<longrightarrow> (\<forall>a \<in> set as. na_bits a = 32) \<and>
           on w link = {(ip, p). \<exists>a \<in> set as. na_ip a = Some ip \<and> na_ones a = p})) \<and>
     (\<forall>link ip w r w'. nl_AddrAdd N link ip w = (r, w') \<longrightarrow>
        (if r = None then on w' = (on w)(link := insert (ip, 32) (on w link))
         else on w' = on w \<and> (r = Some NlExist \<longrightarrow> (ip, 32) \<in> on w link))) \<and>
     (\<forall>link ip w r w'. nl_AddrDel N link ip w = (r, w') \<longrightarrow>
        (if r = None then on w' = (on w)(link := on w link - {(ip, 32)})
         else on w' = on w \<and> (r = Some NlNotExist \<longrightarrow> (ip, 32) \<notin> on w link)))"

lemma netlinkD:
  assumes "netlink_documented N on"
  shows "nl_LinkByName N iface w = (l, w1) \<Longrightarrow> on w1 = on w"
    "nl_AddrList N link w = (Inr as, w') \<Longrightarrow> on w' = on w \<and> (\<forall>a \<in> set as. na_bits a = 32) \<and>
       on w link = {(ip, p). \<exists>a \<in> set as. na_ip a = Some ip \<and> na_ones a = p}"
    "nl_AddrAdd N link ip w = (r, w') \<Longrightarrow> if r = None then on w' = (on w)(link := insert (ip, 32) (on w link))
       else on w' = on w \<and> (r = Some NlExist \<longrightarrow> (ip, 32) \<in> on w link)"
    "nl_AddrDel N link ip w = (r, w') \<Longrightarrow> if r = None then on w' = (on w)(link := on w link - {(ip, 32)})
       else on w' = on w \<and> (r = Some NlNotExist \<longrightarrow> (ip, 32) \<notin> on w link)"
    "nl_AddrList N link w = (q, w') \<Longrightarrow> on w' = on w"
proof -
  note d = assms [unfolded netlink_documented_def]
  show "nl_LinkByName N iface w = (l, w1) \<Longrightarrow> on w1 = on w" using d by (metis snd_conv)
  show "nl_AddrList N link w = (Inr as, w') \<Longrightarrow> on w' = on w \<and> (\<forall>a \<in> set as. na_bits a = 32) \<and>
       on w link = {(ip, p). \<exists>a \<in> set as. na_ip a = Some ip \<and> na_ones a = p}"
    using d [THEN conjunct2, THEN conjunct1, rule_format, of link w "Inr as" w'] by simp
  show "nl_AddrAdd N link ip w = (r, w') \<Longrightarrow> if r = None then on w' = (on w)(link := insert (ip, 32) (on w link))
       else on w' = on w \<and> (r = Some NlExist \<longrightarrow> (ip, 32) \<in> on w link)"
    by (rule d [THEN conjunct2, THEN conjunct2, THEN conjunct1, rule_format])
  show "nl_AddrDel N link ip w = (r, w') \<Longrightarrow> if r = None then on w' = (on w)(link := on w link - {(ip, 32)})
       else on w' = on w \<and> (r = Some NlNotExist \<longrightarrow> (ip, 32) \<notin> on w link)"
    by (rule d [THEN conjunct2, THEN conjunct2, THEN conjunct2, rule_format])
  show "nl_AddrList N link w = (q, w') \<Longrightarrow> on w' = on w"
    using d [THEN conjunct2, THEN conjunct1, rule_format, of link w q w'] by simp
qed

lemma bind_have_set:
  "\<forall>a \<in> set as. na_bits a = 32 \<Longrightarrow>
     set (bind_have as) = {ip. vipPool_Contains ip \<and> (\<exists>a \<in> set as. na_ip a = Some ip \<and> na_ones a = 32)}"
  by (induction as) (auto split: option.splits)

lemma bind_add_on:
  assumes N: "netlink_documented N on" and "bind_add N link have' want w = ((b, es), w')"
    and "(\<lambda>ip. (ip, 32)) ` set have' \<subseteq> on w link"
  shows "on w link \<subseteq> on w' link \<and> on w' link \<subseteq> on w link \<union> (\<lambda>ip. (ip, 32)) ` set want \<and>
    b = int (length want) - int (length es) \<and> (es = [] \<longrightarrow> (\<lambda>ip. (ip, 32)) ` set want \<subseteq> on w' link)"
  using assms(2,3)
proof (induction want arbitrary: w b es)
  case (Cons ip want)
  show ?case
  proof (cases "ip \<in> set have'")
    case True
    obtain b' where rest: "bind_add N link have' want w = ((b', es), w')" "b = b' + 1"
      using Cons.prems(1) True by (auto split: prod.splits)
    have "(ip, 32) \<in> on w link" using True Cons.prems(2) by auto
    with Cons.IH [OF rest(1) Cons.prems(2)] rest(2) show ?thesis by auto
  next
    case False
    obtain e w1 where add: "nl_AddrAdd N link ip w = (e, w1)" by fastforce
    obtain b' es' where rest: "bind_add N link have' want w1 = ((b', es'), w')"
      and res: "(b, es) = (if e \<noteq> None \<and> e \<noteq> Some NlExist then (b', ip # es') else (b' + 1, es'))"
      using Cons.prems(1) False add by (auto split: prod.splits if_splits)
    have on: "on w link \<subseteq> on w1 link" "on w1 link \<subseteq> insert (ip, 32) (on w link)"
      "e = None \<or> e = Some NlExist \<Longrightarrow> (ip, 32) \<in> on w1 link"
      using netlinkD(3) [OF N add] by (auto split: if_splits)
    have "(\<lambda>ip. (ip, 32)) ` set have' \<subseteq> on w1 link" using Cons.prems(2) on(1) by blast
    note IH = Cons.IH [OF rest this]
    show ?thesis
    proof (cases "e \<noteq> None \<and> e \<noteq> Some NlExist")
      case True
      with res IH on(1,2) show ?thesis by auto
    next
      case False
      with on(3) have "(ip, 32) \<in> on w1 link" by auto
      with False res IH on(1,2) show ?thesis by auto
    qed
  qed
qed simp

lemma bind_del_on:
  assumes N: "netlink_documented N on" and "bind_del N link want have' w = (es, w')"
  shows "on w' link \<subseteq> on w link \<and> on w link - (\<lambda>ip. (ip, 32)) ` (set have' - set want) \<subseteq> on w' link \<and>
    (es = [] \<longrightarrow> on w' link \<inter> (\<lambda>ip. (ip, 32)) ` (set have' - set want) = {})"
  using assms(2)
proof (induction have' arbitrary: w es)
  case (Cons ip have')
  show ?case
  proof (cases "ip \<in> set want")
    case True
    with Cons show ?thesis by auto
  next
    case False
    obtain e w1 where del: "nl_AddrDel N link ip w = (e, w1)" by fastforce
    obtain es' where rest: "bind_del N link want have' w1 = (es', w')"
      and res: "es = (if e \<noteq> None \<and> e \<noteq> Some NlNotExist then ip # es' else es')"
      using Cons.prems False del by (auto split: prod.splits)
    have on: "on w1 link \<subseteq> on w link" "on w link - {(ip, 32)} \<subseteq> on w1 link"
      "e = None \<or> e = Some NlNotExist \<Longrightarrow> (ip, 32) \<notin> on w1 link"
      using netlinkD(4) [OF N del] by (auto split: if_splits)
    note IH = Cons.IH [OF rest]
    have "es = [] \<Longrightarrow> es' = [] \<and> (ip, 32) \<notin> on w1 link" using res on(3) by (auto split: if_splits)
    moreover have "(\<lambda>ip. (ip, 32)) ` (set (ip # have') - set want) =
        insert (ip, 32) ((\<lambda>ip. (ip, 32 :: nat)) ` (set have' - set want))" using False by auto
    ultimately show ?thesis using IH on(1,2) by auto
  qed
qed simp

definition is_vip :: "Addr \<times> nat \<Rightarrow> bool" where
  "is_vip x \<longleftrightarrow> snd x = 32 \<and> vipPool_Contains (fst x)"

lemma bindVIPs_on:
  assumes N: "netlink_documented N on" and walk: "\<And>xs. set (walk xs) = set xs"
    and link: "nl_LinkByName N iface w = (Inr link, w1)" and want: "\<And>ip. ip \<in> set want \<Longrightarrow> vipPool_Contains ip"
    and run: "bindVIPs N walk iface want w = ((b, err), w')"
  shows "(\<not> is_vip x \<longrightarrow> (x \<in> on w' link \<longleftrightarrow> x \<in> on w link)) \<and>
    (err = None \<longrightarrow> is_vip x \<longrightarrow> (x \<in> on w' link \<longleftrightarrow> fst x \<in> set want))"
proof -
  let ?p = "\<lambda>ip. (ip, 32 :: nat)"
  obtain r w2 where l: "nl_AddrList N link w1 = (r, w2)" by fastforce
  have w1: "on w1 = on w" by (rule netlinkD(1) [OF N link])
  show ?thesis
  proof (cases r)
    case (Inl e)
    with run link l have "err = Some (ListErr e)" "w' = w2" by (simp_all add: bindVIPs_def)
    with netlinkD(5) [OF N l] w1 show ?thesis by simp
  next
  case r: (Inr as)
  note as = netlinkD(2) [OF N l [unfolded r]]
  define have' where "have' = remdups (bind_have as)"
  have h: "set have' = {ip. vipPool_Contains ip \<and> (ip, 32) \<in> on w link}"
    using bind_have_set [of as] as w1 by (auto simp: have'_def)
  obtain b' es w3 where add: "bind_add N link have' want w2 = ((b', es), w3)" by (metis prod.collapse)
  obtain ds where del: "bind_del N link want (walk have') w3 = (ds, w')"
    and err: "err = (if es @ ds = [] then None else Some (AddrErrs (es @ ds)))"
    using run link l r add by (auto simp: bindVIPs_def have'_def Let_def split: prod.splits)
  have w2: "on w2 link = on w link" using as w1 by simp
  have "?p ` set have' \<subseteq> on w2 link" using h w2 by auto
  note A = bind_add_on [OF N add this, unfolded w2]
  note B = bind_del_on [OF N del, unfolded walk]
  have vips: "is_vip y" if "y \<in> ?p ` set want \<or> y \<in> ?p ` (set have' - set want)" for y
    using that want h by (auto simp: is_vip_def)
  have "x \<in> on w' link \<longleftrightarrow> x \<in> on w link" if "\<not> is_vip x" using that vips [of x] A B by blast
  moreover have "x \<in> on w' link \<longleftrightarrow> fst x \<in> set want" if "err = None" "is_vip x"
  proof -
    have e: "es = []" "ds = []" using err that(1) by (auto split: if_splits)
    have x: "x = ?p (fst x)" "vipPool_Contains (fst x)" using that(2) by (auto simp: is_vip_def prod_eq_iff)
    have "fst x \<in> set want" if "x \<in> on w' link"
    proof (rule ccontr)
      assume no: "fst x \<notin> set want"
      with that A B x(1) have "x \<in> on w link" by (metis (no_types, lifting) UnE fst_conv image_iff subsetD)
      with h x have "fst x \<in> set have' - set want" using no by (metis (mono_tags, lifting) DiffI mem_Collect_eq)
      then have "x \<in> ?p ` (set have' - set want)" using x(1) by (metis imageI)
      with B e(2) that show False by blast
    qed
    moreover have "x \<in> on w' link" if "fst x \<in> set want"
    proof -
      have "x \<in> on w3 link" using A e(1) that x(1) by (metis imageI subsetD)
      moreover have "x \<notin> ?p ` (set have' - set want)" using that by auto
      ultimately show ?thesis using B by blast
    qed
    ultimately show ?thesis by blast
  qed
  ultimately show ?thesis by blast
  qed
qed

lemma parse_services_Cons:
  assumes "parse_services (svc # svcs) vips = Inr m"
  shows "\<exists>v. ParseAddr (sv_vip svc) = Some (V4 v) \<and> vipPool_Contains (V4 v) \<and> serviceLabel (ToLower (sv_service svc)) \<and>
    fmlookup vips (ToLower (sv_service svc)) = None \<and>
    parse_services svcs (fmupd (ToLower (sv_service svc)) (V4 v) vips) = Inr m"
  using assms by (auto simp: Let_def split: if_splits option.splits Addr.splits)

lemma parse_services_wf:
  "parse_services svcs vips = Inr m \<Longrightarrow> svc \<in> set svcs \<Longrightarrow> serviceLabel (ToLower (sv_service svc)) \<and>
     (\<exists>v. ParseAddr (sv_vip svc) = Some (V4 v) \<and> vipPool_Contains (V4 v))"
proof (induction svcs arbitrary: vips)
  case (Cons s svcs)
  with parse_services_Cons [OF Cons.prems(1)] show ?case by auto
qed simp

lemma parse_services_lookup:
  "parse_services svcs vips = Inr m \<Longrightarrow> fmlookup m label = (case fmlookup vips label of Some a \<Rightarrow> Some a
     | None \<Rightarrow> Option.bind (find (\<lambda>svc. ToLower (sv_service svc) = label) svcs) (\<lambda>svc. ParseAddr (sv_vip svc)))"
proof (induction svcs arbitrary: vips)
  case Nil
  then show ?case by (simp split: option.split)
next
  case (Cons s svcs)
  from parse_services_Cons [OF Cons.prems] obtain v where v: "ParseAddr (sv_vip s) = Some (V4 v)"
    "fmlookup vips (ToLower (sv_service s)) = None"
    "parse_services svcs (fmupd (ToLower (sv_service s)) (V4 v) vips) = Inr m" by blast
  show ?case
  proof (cases "ToLower (sv_service s) = label")
    case True
    with Cons.IH [OF v(3)] v(1,2) show ?thesis by simp
  next
    case False
    with Cons.IH [OF v(3)] show ?thesis by (simp split: option.split)
  qed
qed

lemma parse_services_range:
  "parse_services svcs vips = Inr m \<Longrightarrow> ip \<in> fmran' m \<longleftrightarrow> ip \<in> fmran' vips \<or> (\<exists>svc \<in> set svcs. ParseAddr (sv_vip svc) = Some ip)"
proof (induction svcs arbitrary: vips)
  case (Cons s svcs)
  from parse_services_Cons [OF Cons.prems] obtain v where v: "ParseAddr (sv_vip s) = Some (V4 v)"
    "fmlookup vips (ToLower (sv_service s)) = None"
    "parse_services svcs (fmupd (ToLower (sv_service s)) (V4 v) vips) = Inr m" by blast
  have "ip \<in> fmran' (fmupd (ToLower (sv_service s)) (V4 v) vips) \<longleftrightarrow> V4 v = ip \<or> ip \<in> fmran' vips"
    using v(2) by (auto simp: fmlookup_ran'_iff, metis option.distinct(1))
  with Cons.IH [OF v(3)] v(1) show ?case by auto
qed simp

lemma vipList_range:
  assumes "\<And>m. set (walk m) = fmdom' m" and "parseConfig walk nd serial = Inr cfg"
  shows "set (nc_vipList cfg) = fmran' (nc_vips cfg)"
proof -
  from assms(2) have "set (nc_vipList cfg) = (\<lambda>k. the (fmlookup (nc_vips cfg) k)) ` fmdom' (nc_vips cfg)"
    by (auto simp: parseConfig_def assms(1) split: sum.splits)
  also have "\<dots> = fmran' (nc_vips cfg)"
    by (force simp: fmlookup_dom'_iff fmlookup_ran'_iff image_iff)
  finally show ?thesis .
qed

text \<open>The answer a resolver should give: by the first service of the push with that name.\<close>

definition zone_answer :: "Msg \<Rightarrow> Question \<Rightarrow> ServiceVIP list \<Rightarrow> string \<Rightarrow> 32 word \<Rightarrow> Msg" where
  "zone_answer m q svcs label serial = (case find (\<lambda>svc. ToLower (sv_service svc) = label) svcs of
     None \<Rightarrow> m\<lparr>msg_Rcode := RcodeNameError, msg_Ns := [soaRR zone serial]\<rparr>
   | Some svc \<Rightarrow>
       if q_Qtype q = TypeA then m\<lparr>msg_Answer := [RR_A (q_Name q) recordTTL (the (ParseAddr (sv_vip svc)))]\<rparr>
       else m\<lparr>msg_Ns := [soaRR zone serial]\<rparr>)"

lemma zone_lookup_find:
  assumes "parse_services svcs fmempty = Inr (nc_vips cfg)"
  shows "zone_lookup cfg (label @ ''.'' @ zone) =
    map_option (\<lambda>svc. (label, the (ParseAddr (sv_vip svc)))) (find (\<lambda>svc. ToLower (sv_service svc) = label) svcs)"
proof (cases "find (\<lambda>svc. ToLower (sv_service svc) = label) svcs")
  case None
  then have "fmlookup (nc_vips cfg) label = None" using parse_services_lookup [OF assms, of label] by simp
  then show ?thesis using None by (simp add: zone_lookup_def CutSuffix_Some_iff [THEN iffD2] split: option.split)
next
  case (Some svc)
  then have svc: "svc \<in> set svcs" "ToLower (sv_service svc) = label" by (auto simp: find_Some_iff)
  from parse_services_wf [OF assms svc(1)] obtain v where v: "dnsLabel label" "ParseAddr (sv_vip svc) = Some (V4 v)"
    by (auto simp: serviceLabel_def svc(2))
  have "label \<noteq> []" "\<not> ContainsStr label ''.''" using v(1) dnsLabel_no_dot [OF v(1)] by (auto simp: dnsLabel_def ContainsStr_char)
  moreover have "fmlookup (nc_vips cfg) label = Some (V4 v)" using parse_services_lookup [OF assms, of label] Some v(2) by simp
  moreover have "CutSuffix (label @ ''.'' @ zone) (''.'' @ zone) = Some label" by (simp add: CutSuffix_Some_iff)
  ultimately show ?thesis using Some v(2) by (simp add: zone_lookup_def)
qed

lemma serveZone_answer:
  assumes "parse_services svcs fmempty = Inr (nc_vips cfg)" "q_Qclass q = ClassINET" "q_Qtype q \<noteq> TypeAXFR" "q_Qtype q \<noteq> TypeIXFR"
    "dl_CanonicalName D (q_Name q) = label @ ''.'' @ zone"
  shows "fst (serveZone D q cfg src now l) =
    zone_answer ((dl_SetReply D q)\<lparr>msg_Authoritative := True\<rparr>) q svcs label (nc_serial cfg)"
proof -
  have "length (label @ ''.'' @ zone) \<noteq> length zone" by simp
  then have "label @ ''.'' @ zone \<noteq> zone" by metis
  then have "serveZone D q cfg src now l =
      serveService ((dl_SetReply D q)\<lparr>msg_Authoritative := True\<rparr>) q (label @ ''.'' @ zone) cfg src now l"
    using assms(2-5) by (simp add: serveZone_def Let_def)
  then show ?thesis
    by (cases "find (\<lambda>svc. ToLower (sv_service svc) = label) svcs")
      (simp_all add: serveService_def zone_lookup_find [OF assms(1), simplified] zone_answer_def nodata_def)
qed

lemma ApplyConfig_accepted:
  assumes "ApplyConfig N walkVips walk nd srv w = (Inr logged, srv', w')"
  shows "\<exists>cfg b. parseConfig walkVips nd (ns_serial srv + 1) = Inr cfg \<and> ns_cfg srv' = cfg \<and> ns_serial srv' = ns_serial srv + 1 \<and>
    bindVIPs N walk (ns_iface srv) (nc_vipList cfg) w = ((b, logged), w') \<and> ns_vipsBound srv' = wrap32 b"
  using assms by (auto simp: ApplyConfig_def reconcileVIPs_def Let_def split: sum.splits prod.splits)

text \<open>
  C19. A node serves what was pushed. After a configuration is accepted, the zone answers every name
  under it as a plain search through the pushed services would: the address of the service for an A
  query, no data for other types, a name error for unknown names, with the serial of this push. No
  address of the interface outside the pool is touched, and when no error was logged the pool
  addresses on the interface are exactly those of the pushed services.
\<close>

theorem applied_config_serves:
  assumes N: "netlink_documented N on" and walks: "\<And>m. set (walkVips m) = fmdom' m" "\<And>xs. set (walk xs) = set xs"
    and link: "nl_LinkByName N (ns_iface srv) w = (Inr link, w1)"
    and run: "ApplyConfig N walkVips walk nd srv w = (Inr logged, srv', w')"
  shows "(q_Qclass q = ClassINET \<and> q_Qtype q \<noteq> TypeAXFR \<and> q_Qtype q \<noteq> TypeIXFR \<and>
        dl_CanonicalName D (q_Name q) = label @ ''.'' @ zone \<longrightarrow>
      fst (serveZone D q (ns_cfg srv') src now l) =
        zone_answer ((dl_SetReply D q)\<lparr>msg_Authoritative := True\<rparr>) q (nd_services nd) label (ns_serial srv + 1)) \<and>
    (\<not> (p = 32 \<and> vipPool_Contains ip) \<longrightarrow> ((ip, p) \<in> on w' link \<longleftrightarrow> (ip, p) \<in> on w link)) \<and>
    (logged = None \<and> vipPool_Contains ip \<longrightarrow>
      ((ip, 32) \<in> on w' link \<longleftrightarrow> (\<exists>svc \<in> set (nd_services nd). ParseAddr (sv_vip svc) = Some ip)))"
proof -
  from ApplyConfig_accepted [OF run] obtain cfg b where cfg: "parseConfig walkVips nd (ns_serial srv + 1) = Inr cfg"
    "ns_cfg srv' = cfg" "bindVIPs N walk (ns_iface srv) (nc_vipList cfg) w = ((b, logged), w')" by blast
  have vips: "parse_services (nd_services nd) fmempty = Inr (nc_vips cfg)" "nc_serial cfg = ns_serial srv + 1"
    using cfg(1) by (auto simp: parseConfig_def split: sum.splits)
  have want: "ip' \<in> set (nc_vipList cfg) \<longleftrightarrow> (\<exists>svc \<in> set (nd_services nd). ParseAddr (sv_vip svc) = Some ip')" for ip'
    unfolding vipList_range [OF walks(1) cfg(1)] parse_services_range [OF vips(1)] by (simp add: fmlookup_ran'_iff)
  have pool: "vipPool_Contains ip'" if "ip' \<in> set (nc_vipList cfg)" for ip'
    using that parse_services_wf [OF vips(1)] unfolding want by fastforce
  note bound = bindVIPs_on [OF N walks(2) link pool cfg(3)]
  have "(ip, p) \<in> on w' link \<longleftrightarrow> (ip, p) \<in> on w link" if "\<not> (p = 32 \<and> vipPool_Contains ip)"
    using bound [of "(ip, p)"] that by (auto simp: is_vip_def)
  moreover have "(ip, 32) \<in> on w' link \<longleftrightarrow> (\<exists>svc \<in> set (nd_services nd). ParseAddr (sv_vip svc) = Some ip)"
    if "logged = None" "vipPool_Contains ip"
    using bound [of "(ip, 32)"] that by (simp add: is_vip_def want)
  ultimately show ?thesis
    using serveZone_answer [OF vips(1), of q D label src now l] unfolding vips(2) cfg(2) by blast
qed

text \<open>An interface kept as a list of addresses, and a push over a stale address and a foreign one.\<close>

definition list_netlink :: "(Addr \<times> nat) list Netlink" where
  "list_netlink = \<lparr>nl_LinkByName = (\<lambda>_ w. (Inr 1, w)),
     nl_AddrList = (\<lambda>link w. (if link = 1 then Inr (map (\<lambda>(ip, p). \<lparr>na_ip = Some ip, na_ones = p, na_bits = 32\<rparr>) w)
       else Inl ''no link'', w)),
     nl_AddrAdd = (\<lambda>link ip w. if link \<noteq> 1 then (Some (NlOther ''no link''), w)
       else if (ip, 32) \<in> set w then (Some NlExist, w) else (None, (ip, 32) # w)),
     nl_AddrDel = (\<lambda>link ip w. if link \<noteq> 1 then (Some (NlOther ''no link''), w)
       else if (ip, 32) \<in> set w then (None, filter (\<lambda>x. x \<noteq> (ip, 32)) w) else (Some NlNotExist, w))\<rparr>"

definition one_link :: "(Addr \<times> nat) list \<Rightarrow> nat \<Rightarrow> (Addr \<times> nat) set" where
  "one_link w = (\<lambda>link. if link = 1 then set w else {})"

lemma list_netlink_documented: "netlink_documented list_netlink one_link"
proof -
  have list: "set w = {(ip, p). \<exists>a \<in> set (map (\<lambda>(ip, p). \<lparr>na_ip = Some ip, na_ones = p, na_bits = 32\<rparr>) w).
      na_ip a = Some ip \<and> na_ones a = p}" for w :: "(Addr \<times> nat) list"
    by (force simp: image_iff)
  show ?thesis
    unfolding netlink_documented_def
  proof (intro conjI allI impI, goal_cases)
    case (4 link w r w' as)
    then have "as = map (\<lambda>(ip, p). \<lparr>na_ip = Some ip, na_ones = p, na_bits = 32\<rparr>) w" "link = 1"
      by (auto simp: list_netlink_def split: if_splits)
    with list [of w] show ?case by (simp only: one_link_def simp_thms if_True)
  qed (auto simp: list_netlink_def one_link_def fun_eq_iff split: if_splits)
qed

definition sample_dns :: DnsLib where
  "sample_dns = \<lparr>dl_CanonicalName = ToLower,
     dl_SetReply = (\<lambda>_. \<lparr>msg_Rcode = 0, msg_Authoritative = False, msg_Answer = [], msg_Ns = []\<rparr>),
     dl_SetRcode = (\<lambda>_ c. \<lparr>msg_Rcode = c, msg_Authoritative = False, msg_Answer = [], msg_Ns = []\<rparr>)\<rparr>"

definition sample_push :: NetDesired where
  "sample_push = empty_NetDesired\<lparr>nd_services :=
     [\<lparr>sv_service = ''Web'', sv_vip = String4 170672129, sv_port = 80, sv_targetPort = 80\<rparr>]\<rparr>"

definition sample_server :: NetServer where
  "sample_server = \<lparr>ns_iface = ''eth0'', ns_cfg = emptyConfig, ns_serial = 0, ns_vipsBound = 0, ns_kick = False\<rparr>"

definition sample_addrs :: "(Addr \<times> nat) list" where
  "sample_addrs = [(V4 170672134, 32), (V4 170655746, 24)]"

definition sample_question :: Question where
  "sample_question = \<lparr>q_Name = ''wEb.svc.klite.'', q_Qtype = TypeA, q_Qclass = ClassINET\<rparr>"

lemma sample_pool: "vipPool_Contains (V4 170672129)" "vipPool_Contains (V4 170672134)" "\<not> vipPool_Contains (V4 170655746)"
  by (simp_all add: vipPool_Contains_V4)

lemma sample_label: "serviceLabel (ToLower ''Web'')" "ToLower ''Web'' = ''web''"
  by code_simp+

lemma sample_config: "parseConfig sorted_keys sample_push 1 =
    Inr \<lparr>nc_serial = 1, nc_vips = fmupd ''web'' (V4 170672129) fmempty, nc_vipList = [V4 170672129], nc_targets = []\<rparr>"
proof -
  have "parse_services (nd_services sample_push) fmempty = Inr (fmupd ''web'' (V4 170672129) fmempty)"
    using sample_label by (simp add: sample_push_def ParseAddr_String4 sample_pool)
  moreover have "sorted_keys (fmupd ''web'' (V4 170672129) fmempty) = [''web'']" by (simp add: sorted_keys_fmupd)
  moreover have "nd_probeTargets sample_push = []" by (simp add: sample_push_def empty_NetDesired_def)
  ultimately show ?thesis by (simp add: parseConfig_def)
qed

lemma sample_applied: "fst (ApplyConfig list_netlink sorted_keys id sample_push sample_server sample_addrs) = Inr None"
  by (simp add: ApplyConfig_def sample_config sample_server_def reconcileVIPs_def bindVIPs_def list_netlink_def
    sample_addrs_def sample_pool)

lemma applied_config_serves_witness:
  "case ApplyConfig list_netlink sorted_keys id sample_push sample_server sample_addrs of
     (r, srv', w') \<Rightarrow> r = Inr None \<and>
       (\<forall>ip. (ip, 24) \<in> one_link w' 1 \<longleftrightarrow> (ip, 24) \<in> one_link sample_addrs 1) \<and>
       ((V4 170672129, 32) \<in> one_link w' 1 \<longleftrightarrow> (\<exists>svc \<in> set (nd_services sample_push). ParseAddr (sv_vip svc) = Some (V4 170672129))) \<and>
       fst (serveZone sample_dns sample_question (ns_cfg srv') ''10.44.1.9'' 0 newQueryLog) =
         zone_answer ((dl_SetReply sample_dns sample_question)\<lparr>msg_Authoritative := True\<rparr>) sample_question
           (nd_services sample_push) ''web'' 1"
proof -
  obtain srv' w' where "\<exists>r. ApplyConfig list_netlink sorted_keys id sample_push sample_server sample_addrs = (r, srv', w')"
    by (metis prod.collapse)
  with sample_applied have run: "ApplyConfig list_netlink sorted_keys id sample_push sample_server sample_addrs = (Inr None, srv', w')"
    by auto
  have link: "nl_LinkByName list_netlink (ns_iface sample_server) sample_addrs = (Inr 1, sample_addrs)"
    by (simp add: list_netlink_def)
  have keys: "set (sorted_keys m) = fmdom' m" for m :: "(string, Addr) fmap" by simp
  have q: "q_Qclass sample_question = ClassINET \<and> q_Qtype sample_question \<noteq> TypeAXFR \<and> q_Qtype sample_question \<noteq> TypeIXFR \<and>
      dl_CanonicalName sample_dns (q_Name sample_question) = ''web'' @ ''.'' @ zone"
    by code_simp
  have all: "(ip, 24) \<in> one_link w' 1 \<longleftrightarrow> (ip, 24) \<in> one_link sample_addrs 1" for ip
    using applied_config_serves [OF list_netlink_documented keys _ link run, where p = 24 and ip = ip] by simp
  show ?thesis
    unfolding run prod.case
    using all q sample_pool(1) applied_config_serves [OF list_netlink_documented keys _ link run, where p = 32 and ip = "V4 170672129"
      and q = sample_question and D = sample_dns and label = "''web''" and src = "''10.44.1.9''" and now = 0 and l = newQueryLog]
    by (simp add: sample_server_def)
qed

end
