(* ===== verification/Spec2Isabelle.thy ===== *)
theory Spec2Isabelle
  imports
    Klite_Prelude Klite_Types Klite_Object Klite_Policy Klite_Store Klite_Scheduler
    Klite_NodeController Klite_Rollout Klite_Alloc Klite_NetIP Klite_Vip Klite_Ingress
    Klite_Endpoints Klite_Xds Klite_Cluster Klite_Drain
    Klite_CA Klite_Auth Klite_AgentServer Klite_Api Klite_Hub Klite_Agent
    Klite_Etcd Klite_Net
begin

text \<open>
  A verification library for k-lite, a small container orchestrator written in Go.

  \<^bold>\<open>The program.\<close> \<open>klited\<close> keeps objects (workloads, services, nodes, policies, instances, VIP and ingress
  allocations) in a revisioned store. Clients change them through the cluster service; level-based
  controllers list the store and write back what is missing. From the same objects the server computes,
  per node, a snapshot of desired state and an Envoy configuration. An agent on each node registers,
  receives snapshots, converges its containers on them and reports status. Certificates issued on a
  join token say which node a caller is. Beside the agent, \<open>klite-net\<close> binds the service addresses of the node,
  answers their names and probes instances. All paths below are under \<open>src/internal\<close>.

  \<^bold>\<open>Values and interfaces.\<close>
  \<^item> \<open>Klite_Prelude\<close>: Go integers with their wrap-around, strings, sorting and map iteration.
  \<^item> \<open>Klite_Types\<close>: the protobuf messages of \<open>gen/klitev1\<close> as records; a message field is an option.
  \<^item> \<open>Klite_NetIP\<close>: what the sources use of \<open>net/netip\<close>.
  \<^item> \<open>Klite_Object\<close>: \<open>object\<close>: kinds, defaults, validation, template hash.
  \<^item> \<open>Klite_Store\<close>: \<open>store/store.go\<close> as a record of operations on a state, and \<open>storetest/memory.go\<close>. The
    locales \<open>store_contract\<close> and \<open>reliable_store\<close> state what clients rely on and are interpreted on the
    memory store. C4 to C6: no lost update, revisions identify objects, pinned deletes.
  \<^item> \<open>Klite_Etcd\<close>: \<open>store/etcd.go\<close>, over records of the etcd client and of the codec. \<open>etcd_documented\<close> says
    what etcd promises of revisions, reads, writes and transactions. C10: under it the store meets
    \<open>store_contract\<close>, so what is proved of clients inside that locale holds over etcd; the capacity bound of the
    scheduler is drawn from it as \<open>etcd_sched_capacity\<close>.

  \<^bold>\<open>Policy and controllers.\<close>
  \<^item> \<open>Klite_Policy\<close>: \<open>policy/policy.go\<close>. C1 to C3: Evaluate is its declarative meaning, names the first
    denying policy, and ignores the order of its input.
  \<^item> \<open>Klite_Scheduler\<close>: \<open>controller/scheduler.go\<close>. C7, C8: the node picked is optimal, no pass overcommits.
  \<^item> \<open>Klite_NodeController\<close>: \<open>node.go\<close>. C9: deletions are justified; and the phase machine.
  \<^item> \<open>Klite_Rollout\<close>: \<open>rollout.go\<close>, \<open>workload.go\<close>. C11 to C13: a rollout never dips, its effects, and the
    scale-down that can.
  \<^item> \<open>Klite_Alloc\<close>: the locale \<open>repair_allocator\<close>, what the two allocators share; interpreted in
    \<open>Klite_Vip\<close> (\<open>vip.go\<close>, C14, C15) and \<open>Klite_Ingress\<close> (\<open>ingress.go\<close>, C17, C18).
  \<^item> \<open>Klite_Endpoints\<close>: \<open>endpoints.go\<close>. C20 to C23: revisions identify snapshots, the swap refines a
    reference, and a VIP pass and the ingress listeners agree with what is published.
  \<^item> \<open>Klite_Xds\<close>: \<open>xds\<close>. C24 to C27: the RBAC filters enforce the policy, cross-node traffic is mTLS.

  \<^bold>\<open>Server.\<close>
  \<^item> \<open>Klite_Cluster\<close>: \<open>server/server.go\<close>, \<open>policy.go\<close>; retry loops are one combinator. C28 to C31.
  \<^item> \<open>Klite_Drain\<close>: \<open>drain.go\<close>. C32: a forced poll deletes only what it saw draining.
  \<^item> \<open>Klite_CA\<close>: \<open>ca\<close>, over a record of the X.509 operations used. C33: tokens round-trip.
  \<^item> \<open>Klite_Auth\<close>: \<open>auth.go\<close>. C34, C35: identity reaches its own methods; xDS streams are bound.
  \<^item> \<open>Klite_AgentServer\<close>: \<open>server/agent.go\<close>. C36, C37: node indices, guarded status updates.
  \<^item> \<open>Klite_Api\<close>: any sequence of server operations and node passes. C38: node indices stay unique.
  \<^item> \<open>Klite_Hub\<close>: \<open>commands.go\<close>, \<open>logs.go\<close> as interleaving calls, one section under the lock or one arm of
    a \<open>select\<close> per step. C39: a log reader sees only the node it asked.

  \<^bold>\<open>Node.\<close>
  \<^item> \<open>Klite_Agent\<close>: \<open>agent/reconcile.go\<close> and the snapshot of \<open>agent.go\<close>, over any container engine. The
    locale \<open>guarded_runtime\<close> carries conditions on the engine's world through a pass; it is interpreted
    on an engine that records its runs. C40: a draining instance is never run again.
  \<^item> \<open>Klite_Net\<close>: \<open>netd\<close>, over records of netlink and of the DNS library: the configuration check, the push,
    the answers of the zone, the address reconciliation, the query ring and the probe sweep. C16: the ring
    is the list of the newest answers; C19: after a push the zone and the interface are what was pushed.

  \<^bold>\<open>Bounds.\<close> The retry loops of the source run a fixed number of times (5), which is their fuel here. The
  search for a free node index has no bound in the source; it is a partial function, and C36 proves that it
  returns. The drain loop takes what the cluster does between polls as a finite list. Other loops recurse
  on the list they range over. Channels of the hub hold 16 messages, as in the source.

  \<^bold>\<open>Parameters.\<close> The clock, random identifiers and serials, SHA-256, X.509 and PEM, the deterministic
  encoder, the YAML decoder, the Envoy snapshot constructor, the etcd client, protojson, netlink,
  the DNS library, the dialler and the container engine are arguments; what
  is relied on is a named hypothesis. In \<open>Klite_Hub\<close> a drawn command identifier is one nobody has named.

  \<^bold>\<open>Not modelled.\<close> Leader election (a wrapper of the etcd election client); the watch of the memory store;
  Docker calls; the infra pod, join handshake and log pump of the agent, and its network loops; the DNS
  listeners and forwarder of klite-net; the facade, the command line and the executables: these are mostly I/O on
  sockets, files and third-party clients. Log lines and most error texts are dropped. C10 does not cover a write whose answer is lost in transport, which may have happened or not,
  nor another writer between the read and the write of an upsert. In \<open>Klite_Agent\<close> the snapshot and the
  probe verdicts do not change in the middle of a pass, although the source reads them under the mutex more
  than once.
\<close>

end
